(* ===== verification/Relay_Prelude.thy ===== *)
theory Relay_Prelude
  imports Main "HOL-Library.Char_ord" "HOL-Library.List_Lexorder"
begin

text \<open>
  Shared material of the development: Go strings and the functions of package \<open>strings\<close>
  the relay uses, the three-way comparison contract, and generic list lemmas.

  A Go string is a sequence of bytes; a \<open>char\<close> of HOL is one byte, so \<open>string\<close> is the same
  data. Go compares strings bytewise and lexicographically, which is the order that
  \<open>HOL-Library.Char_ord\<close> and \<open>HOL-Library.List_Lexorder\<close> put on \<open>string\<close>. A Go loop
  \<open>for _, c := range s\<close> decodes UTF-8; where the loop body accepts ASCII characters only, a
  byte of a multi-byte rune is rejected exactly where the rune is, so such loops are
  \<open>list_all\<close> over bytes.
\<close>

named_theorems go_string "facts on the string functions of the Go library"
type_synonym bytes = string
type_synonym ('e, 'a) result = "'e + 'a"

section \<open>Characters\<close>

definition is_digit :: "char \<Rightarrow> bool" where
  "is_digit c \<longleftrightarrow> CHR ''0'' \<le> c \<and> c \<le> CHR ''9''"

definition is_upper :: "char \<Rightarrow> bool" where
  "is_upper c \<longleftrightarrow> CHR ''A'' \<le> c \<and> c \<le> CHR ''Z''"

definition is_lower :: "char \<Rightarrow> bool" where
  "is_lower c \<longleftrightarrow> CHR ''a'' \<le> c \<and> c \<le> CHR ''z''"

definition is_ascii :: "char \<Rightarrow> bool" where
  "is_ascii c \<longleftrightarrow> (of_char c :: nat) < 128"

definition ascii_lower :: "char \<Rightarrow> char" where
  "ascii_lower c = (if is_upper c then char_of ((of_char c :: nat) + 32) else c)"

definition digit_val :: "char \<Rightarrow> nat" where
  "digit_val c = of_char c - 48"

lemma is_digit_of_char: "is_digit c \<longleftrightarrow> 48 \<le> (of_char c :: nat) \<and> of_char c \<le> (57 :: nat)"
  by (simp add: is_digit_def less_eq_char_def)

lemma digit_val_bound: "is_digit c \<Longrightarrow> digit_val c < 10"
  unfolding is_digit_of_char digit_val_def by linarith

lemma digit_val_less_iff:
  "is_digit c \<Longrightarrow> is_digit d \<Longrightarrow> digit_val c < digit_val d \<longleftrightarrow> c < d"
  by (auto simp: is_digit_of_char digit_val_def less_char_def)

lemma digit_val_inj: "is_digit c \<Longrightarrow> is_digit d \<Longrightarrow> digit_val c = digit_val d \<longleftrightarrow> c = d"
  using digit_val_less_iff [of c d] digit_val_less_iff [of d c] by auto

lemma digit_val_zero: "is_digit c \<Longrightarrow> digit_val c = 0 \<longleftrightarrow> c = CHR ''0''"
  using digit_val_inj [of c "CHR ''0''"] by (simp add: is_digit_def digit_val_def)

section \<open>Strings: strings.Split, strings.Join, strings.Cut, prefixes and suffixes\<close>

fun split_on :: "char \<Rightarrow> string \<Rightarrow> string list" where
  "split_on c [] = [[]]"
| "split_on c (x # xs) =
     (if x = c then [] # split_on c xs
      else (case split_on c xs of [] \<Rightarrow> [[x]] | y # ys \<Rightarrow> (x # y) # ys))"

fun join_with :: "char \<Rightarrow> string list \<Rightarrow> string" where
  "join_with c [] = []"
| "join_with c [x] = x"
| "join_with c (x # y # ys) = x @ c # join_with c (y # ys)"

definition cut_at :: "char \<Rightarrow> string \<Rightarrow> string \<times> string \<times> bool" where
  "cut_at c s =
     (let before = takeWhile (\<lambda>x. x \<noteq> c) s; rest = dropWhile (\<lambda>x. x \<noteq> c) s
      in case rest of [] \<Rightarrow> (s, [], False) | _ # after \<Rightarrow> (before, after, True))"

fun has_prefix :: "string \<Rightarrow> string \<Rightarrow> bool" where
  "has_prefix s [] = True"
| "has_prefix [] (p # ps) = False"
| "has_prefix (x # xs) (p # ps) = (x = p \<and> has_prefix xs ps)"

definition trim_prefix :: "string \<Rightarrow> string \<Rightarrow> string" where
  "trim_prefix s p = (if has_prefix s p then drop (length p) s else s)"

lemma split_on_not_Nil [simp]: "split_on c s \<noteq> []"
  by (cases s) (auto split: list.splits)

lemma join_with_Cons: "ys \<noteq> [] \<Longrightarrow> join_with c (x # ys) = x @ c # join_with c ys"
  by (cases ys) auto

lemma join_split [go_string]: "join_with c (split_on c s) = s"
proof (induction s)
  case (Cons x xs)
  then show ?case
    by (cases "split_on c xs"; cases "tl (split_on c xs)")
      (auto simp: join_with_Cons split: list.splits)
qed simp

lemma split_on_no_sep: "c \<notin> set s \<Longrightarrow> split_on c s = [s]"
  by (induction s) auto

lemma split_on_append_sep: "c \<notin> set x \<Longrightarrow> split_on c (x @ c # s) = x # split_on c s"
  by (induction x) auto

lemma split_on_append: "split_on c (x @ c # s) = split_on c x @ split_on c s"
proof (induction x)
  case (Cons a x)
  then show ?case by (cases "split_on c x") (auto split: list.splits)
qed simp

lemma split_join [go_string]:
  "xs \<noteq> [] \<Longrightarrow> list_all (\<lambda>x. c \<notin> set x) xs \<Longrightarrow> split_on c (join_with c xs) = xs"
  by (induction c xs rule: join_with.induct) (auto simp: split_on_no_sep split_on_append_sep)

lemma split_on_parts: "x \<in> set (split_on c s) \<Longrightarrow> c \<notin> set x"
proof (induction s arbitrary: x)
  case (Cons y ys)
  then show ?case by (fastforce split: list.splits if_splits)
qed simp

lemma cut_at_found: "cut_at c s = (b, a, True) \<Longrightarrow> s = b @ c # a \<and> c \<notin> set b"
proof -
  assume cut: "cut_at c s = (b, a, True)"
  then have "dropWhile (\<lambda>x. x \<noteq> c) s \<noteq> []"
    by (auto simp: cut_at_def Let_def simp del: dropWhile_eq_Nil_conv split: list.splits)
  then have "hd (dropWhile (\<lambda>x. x \<noteq> c) s) = c" using hd_dropWhile by blast
  with cut have "dropWhile (\<lambda>x. x \<noteq> c) s = c # a" "b = takeWhile (\<lambda>x. x \<noteq> c) s"
    by (auto simp: cut_at_def Let_def split: list.splits)
  then show ?thesis using takeWhile_dropWhile_id [of "\<lambda>x. x \<noteq> c" s]
    by (auto dest: set_takeWhileD)
qed

lemma cut_at_missing: "cut_at c s = (b, a, False) \<Longrightarrow> b = s \<and> c \<notin> set s"
  by (auto simp: cut_at_def Let_def dropWhile_eq_Nil_conv split: list.splits)

lemma cut_at_sep: "c \<notin> set b \<Longrightarrow> cut_at c (b @ c # a) = (b, a, True)"
proof -
  assume "c \<notin> set b"
  then have "dropWhile (\<lambda>x. x \<noteq> c) (b @ c # a) = c # a" "takeWhile (\<lambda>x. x \<noteq> c) (b @ c # a) = b"
    by (induction b) auto
  then show ?thesis by (simp add: cut_at_def)
qed

lemma cut_at_none: "c \<notin> set s \<Longrightarrow> cut_at c s = (s, [], False)"
proof -
  assume "c \<notin> set s"
  then have "dropWhile (\<lambda>x. x \<noteq> c) s = []" by auto
  then show ?thesis by (simp add: cut_at_def del: dropWhile_eq_Nil_conv)
qed

lemma has_prefix_iff: "has_prefix s p \<longleftrightarrow> (\<exists>r. s = p @ r)"
  by (induction s p rule: has_prefix.induct) auto

lemma has_prefix_append [simp]: "has_prefix (p @ r) p"
  by (auto simp: has_prefix_iff)

lemma trim_prefix_append [simp]: "trim_prefix (p @ r) p = r"
  by (simp add: trim_prefix_def)

lemma card_remove_int: "finite A \<Longrightarrow> x \<in> A \<Longrightarrow> int (card (A - {x})) = int (card A) - 1"
  using card.remove [of A x] by simp

lemma sum_list_map_update:
  fixes f :: "'a \<Rightarrow> int"
  shows "i < length xs \<Longrightarrow> sum_list (map f (xs[i := v])) = sum_list (map f xs) + f v - f (xs ! i)"
proof (induction xs arbitrary: i)
  case (Cons x xs)
  then show ?case by (cases i) auto
qed simp

lemma sum_list_map_remove1_int:
  fixes f :: "'a \<Rightarrow> int"
  shows "x \<in> set xs \<Longrightarrow> sum_list (map f (remove1 x xs)) = sum_list (map f xs) - f x"
  by (simp add: sum_list_map_remove1)

lemma sum_list_map_nonneg:
  fixes f :: "'a \<Rightarrow> int"
  shows "(\<And>x. x \<in> set xs \<Longrightarrow> 0 \<le> f x) \<Longrightarrow> 0 \<le> sum_list (map f xs)"
  by (induction xs) auto

lemma sum_list_map_member_le:
  fixes f :: "'a \<Rightarrow> int"
  shows "(\<And>x. x \<in> set xs \<Longrightarrow> 0 \<le> f x) \<Longrightarrow> x \<in> set xs \<Longrightarrow> f x \<le> sum_list (map f xs)"
proof (induction xs)
  case (Cons a xs)
  then have "0 \<le> f a" "0 \<le> sum_list (map f xs)" by (auto intro!: sum_list_map_nonneg)
  with Cons show ?case by fastforce
qed simp

lemma find_Some_ex: "(\<exists>a. find P xs = Some a) \<longleftrightarrow> (\<exists>a \<in> set xs. P a)"
  by (induction xs) auto

section \<open>Three-way comparison\<close>

text \<open>
  The contract of a Go comparison function that returns -1, 0 or 1. On the values that
  satisfy \<open>ok\<close> it is a strict total order whose equality is the equality of values.
\<close>

locale three_way =
  fixes cmp :: "'a \<Rightarrow> 'a \<Rightarrow> int" and ok :: "'a \<Rightarrow> bool"
  assumes cmp_range: "cmp x y = -1 \<or> cmp x y = 0 \<or> cmp x y = 1"
    and cmp_flip: "ok x \<Longrightarrow> ok y \<Longrightarrow> cmp y x = - cmp x y"
    and cmp_eq: "ok x \<Longrightarrow> ok y \<Longrightarrow> cmp x y = 0 \<longleftrightarrow> x = y"
    and cmp_less_trans:
      "ok x \<Longrightarrow> ok y \<Longrightarrow> ok z \<Longrightarrow> cmp x y = -1 \<Longrightarrow> cmp y z = -1 \<Longrightarrow> cmp x z = -1"
begin

lemma cmp_refl: "ok x \<Longrightarrow> cmp x x = 0"
  using cmp_eq by blast

lemma cmp_total: "ok x \<Longrightarrow> ok y \<Longrightarrow> cmp x y = -1 \<or> x = y \<or> cmp y x = -1"
  using cmp_range [of x y] cmp_flip [of x y] cmp_eq [of x y] by auto

lemma cmp_le_trans:
  assumes "ok x" "ok y" "ok z" "cmp x y \<le> 0" "cmp y z \<le> 0"
  shows "cmp x z \<le> 0"
  using assms cmp_range [of x y] cmp_range [of y z] cmp_eq cmp_less_trans [of x y z] by fastforce

end

text \<open>The lexicographic lifting to lists, a shorter list coming first on a tie.\<close>

fun lex_cmp :: "('a \<Rightarrow> 'a \<Rightarrow> int) \<Rightarrow> 'a list \<Rightarrow> 'a list \<Rightarrow> int" where
  "lex_cmp cmp [] [] = 0"
| "lex_cmp cmp [] (y # ys) = -1"
| "lex_cmp cmp (x # xs) [] = 1"
| "lex_cmp cmp (x # xs) (y # ys) = (if cmp x y \<noteq> 0 then cmp x y else lex_cmp cmp xs ys)"

context three_way
begin

lemma lex_range: "lex_cmp cmp xs ys = -1 \<or> lex_cmp cmp xs ys = 0 \<or> lex_cmp cmp xs ys = 1"
  using cmp_range by (induction cmp xs ys rule: lex_cmp.induct) auto

lemma lex_flip:
  "list_all ok xs \<Longrightarrow> list_all ok ys \<Longrightarrow> lex_cmp cmp ys xs = - lex_cmp cmp xs ys"
proof (induction xs arbitrary: ys)
  case (Cons x xs)
  then show ?case by (cases ys) (use cmp_flip [of x "hd ys"] in auto)
next
  case Nil
  then show ?case by (cases ys) auto
qed

lemma lex_Nil_eq: "lex_cmp cmp [] ys = 0 \<longleftrightarrow> ys = []"
  by (cases ys) auto

lemma lex_eq:
  "list_all ok xs \<Longrightarrow> list_all ok ys \<Longrightarrow> lex_cmp cmp xs ys = 0 \<longleftrightarrow> xs = ys"
proof (induction xs arbitrary: ys)
  case (Cons x xs)
  then show ?case by (cases ys) (auto simp: cmp_eq)
qed (auto simp: lex_Nil_eq)

lemma lex_less_Cons:
  "lex_cmp cmp (x # xs) (y # ys) = -1 \<longleftrightarrow> cmp x y = -1 \<or> cmp x y = 0 \<and> lex_cmp cmp xs ys = -1"
  by auto

lemma lex_trans:
  assumes "list_all ok xs" "list_all ok ys" "list_all ok zs"
    and "lex_cmp cmp xs ys = -1" "lex_cmp cmp ys zs = -1"
  shows "lex_cmp cmp xs zs = -1"
  using assms
proof (induction xs arbitrary: ys zs)
  case Nil
  then show ?case by (cases ys; cases zs) auto
next
  case (Cons x xs)
  from Cons.prems obtain y ys' z zs' where eqs: "ys = y # ys'" "zs = z # zs'"
    by (cases ys; cases zs) auto
  with Cons.prems have ok: "ok x" "ok y" "ok z"
    and rest: "list_all ok xs" "list_all ok ys'" "list_all ok zs'" by auto
  from Cons.prems(4,5) eqs
  have less: "cmp x y = -1 \<or> cmp x y = 0 \<and> lex_cmp cmp xs ys' = -1"
    "cmp y z = -1 \<or> cmp y z = 0 \<and> lex_cmp cmp ys' zs' = -1"
    by (simp_all only: lex_less_Cons)
  have both: "lex_cmp cmp xs zs' = -1" if "cmp x y = 0" "cmp y z = 0"
    using that less Cons.IH [OF rest] by simp
  consider "cmp x y = -1" "cmp y z = -1" | "cmp x y = -1" "y = z" | "x = y" "cmp y z = -1"
    | "cmp x y = 0" "cmp y z = 0" "x = y"
    using less ok cmp_eq by metis
  then have "cmp x z = -1 \<or> cmp x z = 0 \<and> lex_cmp cmp xs zs' = -1"
    by cases (use ok both cmp_less_trans [of x y z] in auto)
  then show ?case unfolding eqs lex_less_Cons .
qed

end

locale three_way_lex = three_way

sublocale three_way_lex \<subseteq> lists: three_way "lex_cmp cmp" "list_all ok"
  by unfold_locales (auto simp: lex_range intro: lex_flip lex_trans simp: lex_eq)

end
