(* ===== verification/Semver.thy ===== *)
theory Semver
  imports Relay_Prelude
begin

text \<open>
  Package \<open>release\<close>, file \<open>semver.go\<close> (and the identifier check it shares with
  \<open>manifest.go\<close>): the strict SemVer subset in which release and runtime manifests name
  versions. \<open>SemanticVersion\<close> is a record with the same fields; the array \<open>[3]string\<close> is a
  list that the parser fills with exactly three parts. The lemmas show that parsing accepts
  exactly the rendered well-formed versions, that numeric identifiers are ordered by value,
  and that \<open>Compare\<close> is a strict total order in which two versions tie only if they are the
  same string.
\<close>

datatype semver_error = NotStrictSemVer string

record semantic_version =
  sv_raw :: string
  sv_core :: "string list"
  sv_prerelease :: "string list"

definition validNumericIdentifier :: "string \<Rightarrow> bool" where
  "validNumericIdentifier value =
     (if value = [] \<or> (length value > 1 \<and> hd value = CHR ''0'') then False
      else list_all is_digit value)"

definition validPrereleaseIdentifier :: "string \<Rightarrow> bool" where
  "validPrereleaseIdentifier value =
     (if value = [] then False
      else if \<not> list_all (\<lambda>c. is_digit c \<or> is_upper c \<or> is_lower c \<or> c = CHR ''-'') value then False
      else let numeric = list_all is_digit value
           in \<not> numeric \<or> length value = 1 \<or> hd value \<noteq> CHR ''0'')"

definition isNumericIdentifier :: "string \<Rightarrow> bool" where
  "isNumericIdentifier value = (if value = [] then False else list_all is_digit value)"

definition compareNumericIdentifier :: "string \<Rightarrow> string \<Rightarrow> int" where
  "compareNumericIdentifier left right =
     (if length left < length right then -1
      else if length left > length right then 1
      else if left < right then -1
      else if left > right then 1
      else 0)"

definition ParseSemanticVersion :: "string \<Rightarrow> (semver_error, semantic_version) result" where
  "ParseSemanticVersion value =
     (if value = [] \<or> CHR ''+'' \<in> set value then Inl (NotStrictSemVer value)
      else (case cut_at (CHR ''-'') value of (core, prerelease, hasPrerelease) \<Rightarrow>
        (let parts = split_on (CHR ''.'') core
         in if length parts \<noteq> 3 then Inl (NotStrictSemVer value)
            else if \<not> list_all validNumericIdentifier parts then Inl (NotStrictSemVer value)
            else if \<not> hasPrerelease then Inr \<lparr>sv_raw = value, sv_core = parts, sv_prerelease = []\<rparr>
            else if prerelease = [] then Inl (NotStrictSemVer value)
            else (let identifiers = split_on (CHR ''.'') prerelease
                  in if \<not> list_all validPrereleaseIdentifier identifiers
                     then Inl (NotStrictSemVer value)
                     else Inr \<lparr>sv_raw = value, sv_core = parts, sv_prerelease = identifiers\<rparr>))))"

definition IsPrerelease :: "semantic_version \<Rightarrow> bool" where
  "IsPrerelease v \<longleftrightarrow> length (sv_prerelease v) \<noteq> 0"

fun compareCore :: "string list \<Rightarrow> string list \<Rightarrow> int" where
  "compareCore (x # xs) (y # ys) =
     (if compareNumericIdentifier x y \<noteq> 0 then compareNumericIdentifier x y else compareCore xs ys)"
| "compareCore _ _ = 0"

fun comparePrerelease :: "string list \<Rightarrow> string list \<Rightarrow> int" where
  "comparePrerelease (left # ls) (right # rs) =
     (if isNumericIdentifier left \<and> isNumericIdentifier right then
        (if compareNumericIdentifier left right \<noteq> 0 then compareNumericIdentifier left right
         else comparePrerelease ls rs)
      else if isNumericIdentifier left then -1
      else if isNumericIdentifier right then 1
      else if left < right then -1
      else if left > right then 1
      else comparePrerelease ls rs)"
| "comparePrerelease ls rs =
     (if length ls < length rs then -1 else if length ls > length rs then 1 else 0)"

definition Compare :: "semantic_version \<Rightarrow> semantic_version \<Rightarrow> int" where
  "Compare v other =
     (if compareCore (sv_core v) (sv_core other) \<noteq> 0 then compareCore (sv_core v) (sv_core other)
      else if sv_prerelease v = [] \<and> sv_prerelease other = [] then 0
      else if sv_prerelease v = [] then 1
      else if sv_prerelease other = [] then -1
      else comparePrerelease (sv_prerelease v) (sv_prerelease other))"

section \<open>What the parser accepts\<close>

definition render_version :: "string list \<Rightarrow> string list \<Rightarrow> string" where
  "render_version core pre =
     join_with (CHR ''.'') core @ (if pre = [] then [] else CHR ''-'' # join_with (CHR ''.'') pre)"

definition wf_version :: "semantic_version \<Rightarrow> bool" where
  "wf_version v \<longleftrightarrow> length (sv_core v) = 3 \<and> list_all validNumericIdentifier (sv_core v) \<and>
     list_all validPrereleaseIdentifier (sv_prerelease v) \<and>
     sv_raw v = render_version (sv_core v) (sv_prerelease v)"

lemma numeric_identifier_digits: "validNumericIdentifier s \<Longrightarrow> s \<noteq> [] \<and> list_all is_digit s"
  by (auto simp: validNumericIdentifier_def split: if_splits)

lemma separator_chars:
  "\<not> is_digit (CHR ''.'')" "\<not> is_digit (CHR ''-'')" "\<not> is_digit (CHR ''+'')"
  "\<not> is_upper (CHR ''.'')" "\<not> is_upper (CHR ''+'')" "\<not> is_lower (CHR ''.'')" "\<not> is_lower (CHR ''+'')"
  by (simp_all add: is_digit_def is_upper_def is_lower_def)

lemma numeric_identifier_no_sep:
  assumes "validNumericIdentifier s"
  shows "CHR ''.'' \<notin> set s" "CHR ''-'' \<notin> set s" "CHR ''+'' \<notin> set s"
  using numeric_identifier_digits [OF assms] separator_chars by (auto simp: list_all_iff)

lemma prerelease_identifier_no_sep:
  assumes "validPrereleaseIdentifier s"
  shows "CHR ''.'' \<notin> set s" "CHR ''+'' \<notin> set s"
  using assms separator_chars
  by (auto simp: validPrereleaseIdentifier_def list_all_iff Let_def split: if_splits)

lemma join_with_set: "set (join_with c xs) \<subseteq> insert c (\<Union> (set ` set xs))"
  by (induction c xs rule: join_with.induct) auto

lemma join_with_empty: "join_with c xs = [] \<longleftrightarrow> xs = [] \<or> xs = [[]]"
  by (induction c xs rule: join_with.induct) auto

lemma ParseSemanticVersion_wf:
  "ParseSemanticVersion s = Inr v \<Longrightarrow> wf_version v \<and> sv_raw v = s"
proof (cases "cut_at (CHR ''-'') s")
  case (fields core pre has)
  assume parsed: "ParseSemanticVersion s = Inr v"
  have join: "s = join_with (CHR ''.'') (split_on (CHR ''.'') core) @
      (if has then CHR ''-'' # join_with (CHR ''.'') (split_on (CHR ''.'') pre) else [])"
    using fields cut_at_found [of _ s core pre] cut_at_missing [of _ s core pre]
    by (cases has) (auto simp: join_split)
  from parsed fields join show ?thesis
    unfolding ParseSemanticVersion_def wf_version_def render_version_def
    by (cases has) (auto simp: Let_def split: if_splits)
qed

lemma ParseSemanticVersion_render:
  assumes "wf_version v"
  shows "ParseSemanticVersion (sv_raw v) = Inr v"
proof -
  let ?core = "join_with (CHR ''.'') (sv_core v)" and ?pre = "join_with (CHR ''.'') (sv_prerelease v)"
  from assms have core: "list_all validNumericIdentifier (sv_core v)" "sv_core v \<noteq> []"
    and pre: "list_all validPrereleaseIdentifier (sv_prerelease v)"
    by (auto simp: wf_version_def)
  have parts: "split_on (CHR ''.'') ?core = sv_core v"
    by (rule split_join) (use core numeric_identifier_no_sep in \<open>auto simp: list_all_iff\<close>)
  have idents: "sv_prerelease v \<noteq> [] \<Longrightarrow> split_on (CHR ''.'') ?pre = sv_prerelease v"
    by (rule split_join) (use pre prerelease_identifier_no_sep in \<open>auto simp: list_all_iff\<close>)
  have clean: "CHR ''-'' \<notin> set ?core" "CHR ''+'' \<notin> set ?core" "CHR ''+'' \<notin> set ?pre"
    using join_with_set [of "CHR ''.''" "sv_core v"] join_with_set [of "CHR ''.''" "sv_prerelease v"]
      core pre numeric_identifier_no_sep prerelease_identifier_no_sep
    by (auto simp: list_all_iff)
  have nonempty: "?core \<noteq> []" "sv_prerelease v \<noteq> [] \<Longrightarrow> ?pre \<noteq> []"
    using core pre by (auto simp: join_with_empty validNumericIdentifier_def validPrereleaseIdentifier_def)
  have cut: "cut_at (CHR ''-'') (sv_raw v) =
      (if sv_prerelease v = [] then (?core, [], False) else (?core, ?pre, True))"
    using assms clean by (simp add: wf_version_def render_version_def cut_at_sep cut_at_none)
  show ?thesis
    using assms cut parts idents clean nonempty
    by (auto simp: ParseSemanticVersion_def wf_version_def render_version_def Let_def)
qed

section \<open>Numeric identifiers are compared by value\<close>

definition numeric_value :: "string \<Rightarrow> nat" where
  "numeric_value s = foldl (\<lambda>n c. 10 * n + digit_val c) 0 s"

lemma foldl_digits:
  "foldl (\<lambda>n c. 10 * n + digit_val c) a s = a * 10 ^ length s + numeric_value s"
proof (induction s arbitrary: a)
  case (Cons c s)
  show ?case
    using Cons [of "10 * a + digit_val c"] Cons [of "digit_val c"]
    by (simp add: numeric_value_def algebra_simps)
qed (simp add: numeric_value_def)

lemma numeric_value_simps [simp]:
  "numeric_value [] = 0"
  "numeric_value (c # s) = digit_val c * 10 ^ length s + numeric_value s"
  using foldl_digits [of "digit_val c" s] by (simp_all add: numeric_value_def)

lemma numeric_value_bound: "list_all is_digit s \<Longrightarrow> numeric_value s < 10 ^ length s"
proof (induction s)
  case (Cons c s)
  then have "numeric_value s < 10 ^ length s" "digit_val c + 1 \<le> 10"
    using digit_val_bound [of c] by auto
  then have "digit_val c * 10 ^ length s + numeric_value s < (digit_val c + 1) * 10 ^ length s"
    and "(digit_val c + 1) * 10 ^ length s \<le> 10 * 10 ^ length s"
    by (simp, intro mult_right_mono) auto
  then have "digit_val c * 10 ^ length s + numeric_value s < 10 * 10 ^ length s"
    by (rule less_le_trans)
  then show ?case by simp
qed simp

lemma numeric_value_lower:
  "list_all is_digit s \<Longrightarrow> s \<noteq> [] \<Longrightarrow> hd s \<noteq> CHR ''0'' \<Longrightarrow> 10 ^ (length s - 1) \<le> numeric_value s"
proof (cases s)
  case (Cons c t)
  assume "list_all is_digit s" "hd s \<noteq> CHR ''0''"
  with Cons have "1 \<le> digit_val c" using digit_val_zero [of c] by auto
  then have "1 * 10 ^ length t \<le> digit_val c * 10 ^ length t" by (rule mult_right_mono) simp
  then have "10 ^ length t \<le> digit_val c * 10 ^ length t + numeric_value t" by linarith
  with Cons show ?thesis by simp
qed simp

lemma numeric_value_less_same_length:
  "length s = length t \<Longrightarrow> list_all is_digit s \<Longrightarrow> list_all is_digit t \<Longrightarrow>
   s < t \<Longrightarrow> numeric_value s < numeric_value t"
proof (induction s t rule: list_induct2)
  case (Cons c s d t)
  show ?case
  proof (cases "c = d")
    case True
    with Cons show ?thesis by simp
  next
    case False
    with Cons.prems have "digit_val c + 1 \<le> digit_val d"
      using digit_val_less_iff [of c d] by auto
    then have "(digit_val c + 1) * 10 ^ length s \<le> digit_val d * 10 ^ length s"
      by (rule mult_right_mono) simp
    moreover have "numeric_value s < 10 ^ length s"
      using Cons.prems by (intro numeric_value_bound) simp
    ultimately show ?thesis using Cons.hyps by (simp add: algebra_simps)
  qed
qed simp

lemma numeric_value_less_shorter:
  assumes "validNumericIdentifier s" "validNumericIdentifier t" "length s < length t"
  shows "numeric_value s < numeric_value t"
proof -
  from assms have "numeric_value s < 10 ^ length s"
    by (intro numeric_value_bound) (simp add: numeric_identifier_digits)
  also have "\<dots> \<le> 10 ^ (length t - 1)" using assms(3) by (intro power_increasing) auto
  also have "\<dots> \<le> numeric_value t"
  proof (rule numeric_value_lower)
    have "length t > 1" using assms(1,3) numeric_identifier_digits [of s] by (cases s) auto
    then show "hd t \<noteq> CHR ''0''"
      using assms(2) by (auto simp: validNumericIdentifier_def split: if_splits)
  qed (use assms(2) numeric_identifier_digits in auto)
  finally show ?thesis .
qed

lemma compareNumericIdentifier_value:
  assumes "validNumericIdentifier s" "validNumericIdentifier t"
  shows "compareNumericIdentifier s t = sgn (int (numeric_value s) - int (numeric_value t))"
proof -
  have digits: "list_all is_digit s" "list_all is_digit t"
    using assms numeric_identifier_digits by auto
  show ?thesis
    using numeric_value_less_shorter assms digits
      numeric_value_less_same_length [of s t] numeric_value_less_same_length [of t s]
    by (cases "length s" "length t" rule: linorder_cases; cases s t rule: linorder_cases)
      (auto simp: compareNumericIdentifier_def)
qed

section \<open>Compare is a strict total order\<close>

interpretation num_id: three_way_lex compareNumericIdentifier "\<lambda>_. True"
proof unfold_locales
  fix x y z :: string
  assume "compareNumericIdentifier x y = -1" "compareNumericIdentifier y z = -1"
  then show "compareNumericIdentifier x z = -1"
    by (auto simp: compareNumericIdentifier_def split: if_splits)
qed (auto simp: compareNumericIdentifier_def)

definition compareIdentifier :: "string \<Rightarrow> string \<Rightarrow> int" where
  "compareIdentifier left right =
     (if isNumericIdentifier left \<and> isNumericIdentifier right
      then compareNumericIdentifier left right
      else if isNumericIdentifier left then -1
      else if isNumericIdentifier right then 1
      else if left < right then -1 else if left > right then 1 else 0)"

interpretation ident: three_way_lex compareIdentifier "\<lambda>_. True"
proof unfold_locales
  fix x y z :: string
  assume "compareIdentifier x y = -1" "compareIdentifier y z = -1"
  then show "compareIdentifier x z = -1"
    using num_id.cmp_less_trans [of x y z]
    by (auto simp: compareIdentifier_def split: if_splits)
qed (auto simp: compareIdentifier_def num_id.cmp_eq compareNumericIdentifier_def)

lemma lex_cmp_Nil:
  "lex_cmp cmp [] ys = (if ys = [] then 0 else -1)" "lex_cmp cmp xs [] = (if xs = [] then 0 else 1)"
  by (cases ys; simp) (cases xs; simp)

lemma comparePrerelease_lex: "comparePrerelease xs ys = lex_cmp compareIdentifier xs ys"
proof (induction xs ys rule: comparePrerelease.induct)
  case (1 left ls right rs)
  then show ?case by (auto simp: compareIdentifier_def)
qed (auto simp: lex_cmp_Nil)

lemma compareCore_lex:
  "length xs = length ys \<Longrightarrow> compareCore xs ys = lex_cmp compareNumericIdentifier xs ys"
  by (induction xs ys rule: list_induct2) auto

lemma wf_version_eq:
  assumes "wf_version v" "wf_version w"
  shows "v = w \<longleftrightarrow> sv_core v = sv_core w \<and> sv_prerelease v = sv_prerelease w"
  using assms by (cases v; cases w) (auto simp: wf_version_def)

lemma all_true [simp]: "list_all (\<lambda>_. True) xs"
  by (simp add: list_all_iff)

lemma Compare_lex:
  assumes "wf_version v" "wf_version w"
  shows "Compare v w =
    (if lex_cmp compareNumericIdentifier (sv_core v) (sv_core w) \<noteq> 0
     then lex_cmp compareNumericIdentifier (sv_core v) (sv_core w)
     else if sv_prerelease v = [] \<and> sv_prerelease w = [] then 0
     else if sv_prerelease v = [] then 1
     else if sv_prerelease w = [] then -1
     else lex_cmp compareIdentifier (sv_prerelease v) (sv_prerelease w))"
  using assms by (simp add: Compare_def comparePrerelease_lex compareCore_lex wf_version_def)

lemma compareCore_range: "compareCore xs ys = -1 \<or> compareCore xs ys = 0 \<or> compareCore xs ys = 1"
  by (induction xs ys rule: compareCore.induct) (auto simp: compareNumericIdentifier_def)

interpretation semver: three_way Compare wf_version
proof unfold_locales
  fix x y z :: semantic_version
  show "Compare x y = -1 \<or> Compare x y = 0 \<or> Compare x y = 1"
    using compareCore_range [of "sv_core x" "sv_core y"]
      ident.lists.cmp_range [of "sv_prerelease x" "sv_prerelease y"]
    by (auto simp: Compare_def comparePrerelease_lex)
  assume wf: "wf_version x" "wf_version y"
  show "Compare y x = - Compare x y"
    using num_id.lists.cmp_flip [of "sv_core x" "sv_core y"]
      ident.lists.cmp_flip [of "sv_prerelease x" "sv_prerelease y"]
    by (simp add: Compare_lex wf)
  show "Compare x y = 0 \<longleftrightarrow> x = y"
    using wf ident.lists.cmp_eq [of "sv_prerelease x" "sv_prerelease y"]
    by (auto simp: Compare_lex wf_version_eq num_id.lists.cmp_eq)
  assume wfz: "wf_version z" and less: "Compare x y = -1" "Compare y z = -1"
  have irrefl: "lex_cmp compareNumericIdentifier xs xs \<noteq> -1" for xs
    by (simp add: num_id.lists.cmp_refl)
  show "Compare x z = -1"
    using less irrefl num_id.lists.cmp_less_trans [of "sv_core x" "sv_core y" "sv_core z"]
      ident.lists.cmp_less_trans [of "sv_prerelease x" "sv_prerelease y" "sv_prerelease z"]
    by (auto simp: Compare_lex wf wfz num_id.lists.cmp_eq split: if_splits)
qed

section \<open>Properties\<close>

text \<open>C1: the parser accepts a version string exactly when it is the rendering of three
  numeric identifiers and valid prerelease identifiers, and the parsed value carries that
  string unchanged; so parsing and rendering are inverse.\<close>

theorem ParseSemanticVersion_roundtrip:
  "ParseSemanticVersion s = Inr v \<longleftrightarrow> wf_version v \<and> sv_raw v = s"
  using ParseSemanticVersion_wf [of s v] ParseSemanticVersion_render [of v] by auto

text \<open>C2: on parsed versions \<open>Compare\<close> is a strict total order: it is 0 exactly for the same
  version string ("one ordering and one canonical spelling"), swapping the arguments negates
  it, and "less" is transitive.\<close>

theorem Compare_strict_total_order:
  assumes "ParseSemanticVersion a = Inr u" "ParseSemanticVersion b = Inr v"
    and "ParseSemanticVersion c = Inr w"
  shows "(Compare u v = 0 \<longleftrightarrow> a = b) \<and> Compare v u = - Compare u v \<and>
    (Compare u v = -1 \<and> Compare v w = -1 \<longrightarrow> Compare u w = -1)"
proof -
  have wf: "wf_version u" "wf_version v" "wf_version w" and raw: "sv_raw u = a" "sv_raw v = b"
    using assms [THEN ParseSemanticVersion_wf] by simp_all
  have "u = v \<longleftrightarrow> a = b" by (metis assms(1,2) raw sum.inject(2))
  with semver.cmp_eq [OF wf(1,2)] semver.cmp_flip [OF wf(1,2)] semver.cmp_less_trans [OF wf]
  show ?thesis by simp
qed

theorem Compare_strict_total_order_witness:
  "let u = \<lparr>sv_raw = ''1.2.3-rc.9'', sv_core = [''1'', ''2'', ''3''], sv_prerelease = [''rc'', ''9'']\<rparr>;
       v = \<lparr>sv_raw = ''1.2.3-rc.10'', sv_core = [''1'', ''2'', ''3''], sv_prerelease = [''rc'', ''10'']\<rparr>;
       w = \<lparr>sv_raw = ''1.2.3'', sv_core = [''1'', ''2'', ''3''], sv_prerelease = []\<rparr>
   in ParseSemanticVersion ''1.2.3-rc.9'' = Inr u \<and> ParseSemanticVersion ''1.2.3-rc.10'' = Inr v \<and>
      ParseSemanticVersion ''1.2.3'' = Inr w \<and> Compare u v = -1 \<and> Compare u w = -1"
proof -
  let ?u = "\<lparr>sv_raw = ''1.2.3-rc.9'', sv_core = [''1'', ''2'', ''3''], sv_prerelease = [''rc'', ''9'']\<rparr>"
  let ?v = "\<lparr>sv_raw = ''1.2.3-rc.10'', sv_core = [''1'', ''2'', ''3''], sv_prerelease = [''rc'', ''10'']\<rparr>"
  let ?w = "\<lparr>sv_raw = ''1.2.3'', sv_core = [''1'', ''2'', ''3''], sv_prerelease = []\<rparr>"
  have p: "ParseSemanticVersion ''1.2.3-rc.9'' = Inr ?u" "ParseSemanticVersion ''1.2.3-rc.10'' = Inr ?v"
    "ParseSemanticVersion ''1.2.3'' = Inr ?w" by code_simp+
  have "Compare ?u ?v = -1" "Compare ?v ?w = -1" by code_simp+
  with Compare_strict_total_order [OF p] p show ?thesis by simp
qed

text \<open>\<open>compareNumericIdentifier\<close> compares lengths and then bytes, which on valid numeric
  identifiers (no leading zero) is the comparison of the numbers they denote, whatever their
  length.\<close>

theorem compareNumericIdentifier_is_numeric:
  assumes "validNumericIdentifier left" "validNumericIdentifier right"
  shows "compareNumericIdentifier left right = sgn (int (numeric_value left) - int (numeric_value right))"
  using assms by (rule compareNumericIdentifier_value)

theorem compareNumericIdentifier_is_numeric_witness:
  "compareNumericIdentifier ''99'' ''100'' = sgn (int (numeric_value ''99'') - int (numeric_value ''100''))"
  by (rule compareNumericIdentifier_is_numeric) code_simp+

end
