(* ===== verification/Json_Keys.thy ===== *)
theory Json_Keys
  imports Relay_Prelude
begin

text \<open>
  The duplicate-key scan that every signed or durable JSON document of the relay passes before
  it is decoded (\<open>release/manifest.go\<close>, functions \<open>rejectDuplicateJSONKeys\<close> and
  \<open>scanJSONValue\<close>). The \<open>encoding/json\<close> decoder is represented by the token stream it
  delivers: the tokens it can produce and how the stream ends. The scan recurses on the stream,
  so it carries fuel; \<open>scan_enough_fuel\<close> shows that twice the stream length is enough on every
  stream. The main lemma states the purpose of the scan: on the tokens of a JSON value it
  succeeds exactly when no object at any depth repeats a key.
\<close>

datatype token = TDelim char | TStr string | TLit

datatype stream_end = StreamEOF | StreamError

datatype scan_error =
    TokenError
  | KeyNotString
  | DuplicateKey string
  | ObjectNotTerminated
  | ArrayNotTerminated
  | UnexpectedDelimiter
  | TrailingJSON
  | ScanOutOfFuel

definition decoder_more :: "stream_end \<Rightarrow> token list \<Rightarrow> bool" where
  "decoder_more fin ts =
     (case ts of [] \<Rightarrow> fin = StreamError
      | t # _ \<Rightarrow> t \<noteq> TDelim (CHR ''}'') \<and> t \<noteq> TDelim (CHR '']''))"

definition closing_token :: "char \<Rightarrow> scan_error \<Rightarrow> token list \<Rightarrow> (scan_error, token list) result" where
  "closing_token c err ts =
     (case ts of [] \<Rightarrow> Inl err | t # rest \<Rightarrow> if t = TDelim c then Inr rest else Inl err)"

fun scanJSONValue :: "nat \<Rightarrow> stream_end \<Rightarrow> token list \<Rightarrow> (scan_error, token list) result"
and scanMembers :: "nat \<Rightarrow> stream_end \<Rightarrow> string list \<Rightarrow> token list \<Rightarrow> (scan_error, token list) result"
and scanElements :: "nat \<Rightarrow> stream_end \<Rightarrow> token list \<Rightarrow> (scan_error, token list) result" where
  "scanJSONValue 0 fin ts = Inl ScanOutOfFuel"
| "scanJSONValue (Suc n) fin ts =
     (case ts of
        [] \<Rightarrow> Inl TokenError
      | TDelim d # rest \<Rightarrow>
          (if d = CHR ''{'' then scanMembers n fin [] rest
           else if d = CHR ''['' then scanElements n fin rest
           else Inl UnexpectedDelimiter)
      | _ # rest \<Rightarrow> Inr rest)"
| "scanMembers 0 fin seen ts = Inl ScanOutOfFuel"
| "scanMembers (Suc n) fin seen ts =
     (if decoder_more fin ts then
        (case ts of
           [] \<Rightarrow> Inl TokenError
         | TStr key # rest \<Rightarrow>
             (if key \<in> set seen then Inl (DuplicateKey key)
              else (case scanJSONValue n fin rest of
                      Inl e \<Rightarrow> Inl e
                    | Inr rest' \<Rightarrow> scanMembers n fin (key # seen) rest'))
         | _ # rest \<Rightarrow> Inl KeyNotString)
      else closing_token (CHR ''}'') ObjectNotTerminated ts)"
| "scanElements 0 fin ts = Inl ScanOutOfFuel"
| "scanElements (Suc n) fin ts =
     (if decoder_more fin ts then
        (case scanJSONValue n fin ts of
           Inl e \<Rightarrow> Inl e
         | Inr rest \<Rightarrow> scanElements n fin rest)
      else closing_token (CHR '']'') ArrayNotTerminated ts)"

definition rejectDuplicateJSONKeys :: "stream_end \<Rightarrow> token list \<Rightarrow> (scan_error, unit) result" where
  "rejectDuplicateJSONKeys fin ts =
     (case scanJSONValue (2 * length ts + 2) fin ts of
        Inl e \<Rightarrow> Inl e
      | Inr rest \<Rightarrow> if rest = [] \<and> fin = StreamEOF then Inr () else Inl TrailingJSON)"

section \<open>The fuel is enough\<close>

lemma closing_token_shorter: "closing_token c e ts = Inr r \<Longrightarrow> length r < length ts"
  by (auto simp: closing_token_def split: list.splits if_splits)

lemma scan_shorter:
  "scanJSONValue n fin ts = Inr r \<Longrightarrow> length r < length ts"
  "scanMembers n fin seen ts = Inr r \<Longrightarrow> length r < length ts"
  "scanElements n fin ts = Inr r \<Longrightarrow> length r < length ts"
proof (induction n fin ts and n fin seen ts and n fin ts arbitrary: r and r and r
    rule: scanJSONValue_scanMembers_scanElements.induct)
  case (2 n fin ts)
  then show ?case by (fastforce split: list.splits token.splits if_splits)
next
  case (4 n fin seen ts)
  then show ?case
    by (fastforce split: list.splits token.splits if_splits sum.splits dest: closing_token_shorter)
next
  case (6 n fin ts)
  then show ?case
    by (fastforce split: if_splits sum.splits dest: closing_token_shorter)
qed auto

lemma scan_fuel_left: "scanJSONValue n fin ts = Inr r \<Longrightarrow> 2 * length ts < m \<Longrightarrow> 2 * length r < m"
  using scan_shorter(1) [of n fin ts r] by simp

lemma closing_token_no_fuel: "e \<noteq> ScanOutOfFuel \<Longrightarrow> closing_token c e ts \<noteq> Inl ScanOutOfFuel"
  by (auto simp: closing_token_def split: list.splits)

lemma scan_enough_fuel:
  "2 * length ts < n \<Longrightarrow> scanJSONValue n fin ts \<noteq> Inl ScanOutOfFuel"
  "2 * length ts < n \<Longrightarrow> scanMembers n fin seen ts \<noteq> Inl ScanOutOfFuel"
  "2 * length ts + 1 < n \<Longrightarrow> scanElements n fin ts \<noteq> Inl ScanOutOfFuel"
proof (induction n fin ts and n fin seen ts and n fin ts
    rule: scanJSONValue_scanMembers_scanElements.induct)
  case (2 n fin ts)
  then show ?case by (auto split: list.splits token.splits)
next
  case (4 n fin seen ts)
  show ?case
  proof (cases "decoder_more fin ts")
    case True
    show ?thesis
    proof (cases "\<exists>key rest r. ts = TStr key # rest \<and> scanJSONValue n fin rest = Inr r \<and> key \<notin> set seen")
      case True
      then obtain key rest r where ts: "ts = TStr key # rest" "scanJSONValue n fin rest = Inr r"
        "key \<notin> set seen" by blast
      moreover from ts "4.prems" have "2 * length r < n" by (auto intro: scan_fuel_left)
      ultimately show ?thesis using 4 \<open>decoder_more fin ts\<close> by auto
    next
      case False
      with 4 \<open>decoder_more fin ts\<close> show ?thesis
        by (auto split: list.splits token.splits sum.splits)
    qed
  qed (simp add: closing_token_no_fuel)
next
  case (6 n fin ts)
  show ?case
  proof (cases "decoder_more fin ts")
    case True
    show ?thesis
    proof (cases "scanJSONValue n fin ts")
      case (Inr r)
      then have "length r < length ts" by (rule scan_shorter(1))
      with 6 True Inr show ?thesis by auto
    qed (use 6 True in auto)
  qed (simp add: closing_token_no_fuel)
qed auto

section \<open>The scan accepts exactly the values without repeated keys\<close>

datatype json = JObj "(string \<times> json) list" | JArr "json list" | JStr string | JLit

fun json_tokens :: "json \<Rightarrow> token list" where
  "json_tokens (JObj ms) =
     TDelim (CHR ''{'') # concat (map (\<lambda>(k, v). TStr k # json_tokens v) ms) @ [TDelim (CHR ''}'')]"
| "json_tokens (JArr vs) = TDelim (CHR ''['') # concat (map json_tokens vs) @ [TDelim (CHR '']'')]"
| "json_tokens (JStr s) = [TStr s]"
| "json_tokens JLit = [TLit]"

fun no_duplicate_keys :: "json \<Rightarrow> bool" where
  "no_duplicate_keys (JObj ms) =
     (distinct (map fst ms) \<and> list_all (\<lambda>(k, v). no_duplicate_keys v) ms)"
| "no_duplicate_keys (JArr vs) = list_all no_duplicate_keys vs"
| "no_duplicate_keys (JStr s) = True"
| "no_duplicate_keys JLit = True"

definition scan_spec :: "bool \<Rightarrow> token list \<Rightarrow> (scan_error, token list) result \<Rightarrow> bool" where
  "scan_spec good rest r = (if good then r = Inr rest else (\<exists>k. r = Inl (DuplicateKey k)))"

lemma json_tokens_more [simp]: "decoder_more fin (json_tokens v @ ts)"
  by (cases v) (auto simp: decoder_more_def)

lemma json_tokens_nonempty: "0 < length (json_tokens v)"
  by (cases v) auto

lemma scanMembers_spec:
  assumes IH: "\<And>k v n rest. (k, v) \<in> set ms \<Longrightarrow> 2 * length (json_tokens v @ rest) < n \<Longrightarrow>
      scan_spec (no_duplicate_keys v) rest (scanJSONValue n fin (json_tokens v @ rest))"
    and "2 * length (concat (map (\<lambda>(k, v). TStr k # json_tokens v) ms) @ TDelim (CHR ''}'') # rest) < n"
  shows "scan_spec (distinct (map fst ms) \<and> fst ` set ms \<inter> set seen = {} \<and>
      list_all (\<lambda>(k, v). no_duplicate_keys v) ms) rest
    (scanMembers n fin seen (concat (map (\<lambda>(k, v). TStr k # json_tokens v) ms) @ TDelim (CHR ''}'') # rest))"
  using assms
proof (induction ms arbitrary: n seen)
  case Nil
  then show ?case by (cases n) (auto simp: scan_spec_def decoder_more_def closing_token_def)
next
  case (Cons m ms)
  obtain k v where m: "m = (k, v)" by (cases m)
  from Cons.prems(2) obtain n' where n: "n = Suc n'" by (cases n) auto
  let ?tail = "concat (map (\<lambda>(k, v). TStr k # json_tokens v) ms) @ TDelim (CHR ''}'') # rest"
  obtain l where l: "length (json_tokens v) = Suc l"
    using json_tokens_nonempty [of v] gr0_implies_Suc by blast
  have "scan_spec (no_duplicate_keys v) ?tail (scanJSONValue n' fin (json_tokens v @ ?tail))"
    using Cons.prems m n by (intro Cons.prems(1)) auto
  moreover have "scan_spec (distinct (map fst ms) \<and> fst ` set ms \<inter> set (k # seen) = {} \<and>
      list_all (\<lambda>(k, v). no_duplicate_keys v) ms) rest (scanMembers n' fin (k # seen) ?tail)"
    using Cons.prems m n l by (intro Cons.IH) auto
  ultimately show ?case
    by (auto simp: m n scan_spec_def decoder_more_def split: if_splits)
qed

lemma scanElements_spec:
  assumes IH: "\<And>v n rest. v \<in> set vs \<Longrightarrow> 2 * length (json_tokens v @ rest) < n \<Longrightarrow>
      scan_spec (no_duplicate_keys v) rest (scanJSONValue n fin (json_tokens v @ rest))"
    and "2 * length (concat (map json_tokens vs) @ TDelim (CHR '']'') # rest) + 1 < n"
  shows "scan_spec (list_all no_duplicate_keys vs) rest
    (scanElements n fin (concat (map json_tokens vs) @ TDelim (CHR '']'') # rest))"
  using assms
proof (induction vs arbitrary: n)
  case Nil
  then show ?case by (cases n) (auto simp: scan_spec_def decoder_more_def closing_token_def)
next
  case (Cons v vs)
  from Cons.prems(2) obtain n' where n: "n = Suc n'" by (cases n) auto
  let ?tail = "concat (map json_tokens vs) @ TDelim (CHR '']'') # rest"
  obtain l where l: "length (json_tokens v) = Suc l"
    using json_tokens_nonempty [of v] gr0_implies_Suc by blast
  have "scan_spec (no_duplicate_keys v) ?tail (scanJSONValue n' fin (json_tokens v @ ?tail))"
    using Cons.prems n by (intro Cons.prems(1)) auto
  moreover have "scan_spec (list_all no_duplicate_keys vs) rest (scanElements n' fin ?tail)"
    using Cons.prems n l by (intro Cons.IH) auto
  ultimately show ?case by (auto simp: n scan_spec_def split: if_splits)
qed

lemma scanJSONValue_spec:
  "2 * length (json_tokens v @ rest) < n \<Longrightarrow>
   scan_spec (no_duplicate_keys v) rest (scanJSONValue n fin (json_tokens v @ rest))"
proof (induction v arbitrary: n rest)
  case (JObj ms)
  from JObj.prems obtain n' where n: "n = Suc n'" by (cases n) auto
  have "scan_spec (distinct (map fst ms) \<and> fst ` set ms \<inter> set [] = {} \<and>
      list_all (\<lambda>(k, v). no_duplicate_keys v) ms) rest
    (scanMembers n' fin [] (concat (map (\<lambda>(k, v). TStr k # json_tokens v) ms) @ TDelim (CHR ''}'') # rest))"
  proof (rule scanMembers_spec)
    show "scan_spec (no_duplicate_keys v) rest (scanJSONValue n fin (json_tokens v @ rest))"
      if "(k, v) \<in> set ms" "2 * length (json_tokens v @ rest) < n" for k v n rest
      using JObj.IH [of "(k, v)" v] that by auto
  qed (use JObj.prems n in simp)
  with n show ?case by simp
next
  case (JArr vs)
  from JArr.prems obtain n' where n: "n = Suc n'" by (cases n) auto
  have "scan_spec (list_all no_duplicate_keys vs) rest
    (scanElements n' fin (concat (map json_tokens vs) @ TDelim (CHR '']'') # rest))"
    by (rule scanElements_spec) (use JArr n in auto)
  with n show ?case by simp
next
  case (JStr s)
  then show ?case by (cases n) (simp_all add: scan_spec_def)
next
  case JLit
  then show ?case by (cases n) (simp_all add: scan_spec_def)
qed

section \<open>Properties\<close>


text \<open>C5: the scan is total: on every token stream, well formed or not, it returns a decision of
  the source and never stops for lack of fuel.\<close>

theorem rejectDuplicateJSONKeys_total: "rejectDuplicateJSONKeys fin ts \<noteq> Inl ScanOutOfFuel"
proof -
  define n where "n = 2 * length ts + 2"
  then have "scanJSONValue n fin ts \<noteq> Inl ScanOutOfFuel" by (intro scan_enough_fuel) simp
  then show ?thesis
    unfolding rejectDuplicateJSONKeys_def n_def [symmetric] by (auto split: sum.splits)
qed

end
