(* ===== verification/Release_Manifest.thy ===== *)
theory Release_Manifest
  imports Semver Json_Keys "HOL-Library.Multiset"
begin

text \<open>
  Package \<open>release\<close>, file \<open>manifest.go\<close>: verification of a signed release manifest and the
  selection of an artifact from it. The PEM, PKIX, base64, Ed25519, \<open>encoding/json\<close> and
  \<open>net/url\<close> calls are the fields of \<open>verify_env\<close>, an argument of \<open>Verify\<close>: what they
  return on the given bytes. Everything the file itself decides (every check of \<open>Verify\<close> in
  its order, both loops with their \<open>seen\<close> maps, the component rules, the required component
  set, \<open>Select\<close> and \<open>SelectComponent\<close>) is defined here. The lemmas characterise acceptance
  completely and show what selection can return from an accepted manifest.
\<close>

record artifact =
  art_OS :: string
  art_Arch :: string
  art_Component :: string
  art_File :: string
  art_URL :: string
  art_SHA256 :: string
  art_BundleID :: string
  art_SigningMode :: string
  art_MinimumMacOSVersion :: string
  art_IntegrationProtocol :: int
  art_HelperProtocol :: int

record document =
  doc_File :: string
  doc_URL :: string
  doc_SHA256 :: string

record manifest =
  man_Version :: string
  man_CompatibilityRevision :: int
  man_Artifacts :: "artifact list"
  man_Documents :: "document list"
  man_Channel :: string
  man_MinimumUpdaterVersion :: string
  man_TrustKeyID :: string

record parsed_url =
  url_Scheme :: string
  url_Host :: string
  url_HasUser :: bool

datatype pkix_key = Ed25519Key bytes | OtherKey

record verify_env =
  env_pem_decode :: "bytes \<Rightarrow> (string \<times> bytes \<times> bytes) option"
  env_parse_pkix :: "bytes \<Rightarrow> pkix_key option"
  env_base64 :: "bytes \<Rightarrow> bytes option"
  env_ed25519_verify :: "bytes \<Rightarrow> bytes \<Rightarrow> bytes \<Rightarrow> bool"
  env_tokens :: "bytes \<Rightarrow> token list"
  env_stream_end :: "bytes \<Rightarrow> stream_end"
  env_decode :: "bytes \<Rightarrow> manifest option"
  env_decode_trailing_eof :: "bytes \<Rightarrow> bool"
  env_url_parse :: "string \<Rightarrow> parsed_url option"

datatype release_error =
    PublicKeyNotPEM
  | PublicKeyParse
  | PublicKeyNotEd25519
  | SignatureDecode
  | SignatureInvalid
  | DuplicateScan scan_error
  | DecodeManifest
  | TrailingManifestJSON
  | ManifestIncomplete
  | UnsupportedRevision int
  | UpdaterMetadataInvalid
  | LegacyHasUpdaterMetadata
  | IncompleteArtifact
  | DuplicateArtifactComponent
  | LegacyHasComponentMetadata
  | IncompleteDocument
  | DuplicateDocument
  | NoticesDocumentRequired
  | BinaryHasAppMetadata
  | InvalidMenuBarBundle
  | InvalidMacOSCompatibility
  | Revision4HasUpdaterMetadata
  | UnsupportedComponent
  | UnexpectedComponentArtifact
  | MissingComponentArtifact
  | ComponentAwareArtifacts
  | NotComponentAware
  | NoArtifact

definition CompatibilityRevisionLegacy :: int where "CompatibilityRevisionLegacy = 1"
definition CompatibilityRevisionDocuments :: int where "CompatibilityRevisionDocuments = 2"
definition CompatibilityRevisionAdHocApp :: int where "CompatibilityRevisionAdHocApp = 4"
definition CompatibilityRevisionUpdater :: int where "CompatibilityRevisionUpdater = 5"

lemmas revision_defs = CompatibilityRevisionLegacy_def CompatibilityRevisionDocuments_def
  CompatibilityRevisionAdHocApp_def CompatibilityRevisionUpdater_def

definition component_aware :: "int \<Rightarrow> bool" where
  "component_aware revision \<longleftrightarrow> revision = CompatibilityRevisionAdHocApp \<or> revision = CompatibilityRevisionUpdater"

definition trimSpace :: "bytes \<Rightarrow> bytes" where
  "trimSpace v =
     (let ws = (\<lambda>c. c = CHR '' '' \<or> c = CHR 0x0A \<or> c = CHR 0x0D \<or> c = CHR 0x09)
      in rev (dropWhile ws (rev (dropWhile ws v))))"

definition isLowerHexSHA256 :: "string \<Rightarrow> bool" where
  "isLowerHexSHA256 value =
     (if length value \<noteq> 64 then False
      else list_all (\<lambda>c. is_digit c \<or> (CHR ''a'' \<le> c \<and> c \<le> CHR ''f'')) value)"

definition hasSuffix :: "string \<Rightarrow> string \<Rightarrow> bool" where
  "hasSuffix value suffix =
     (if length value < length suffix then False
      else drop (length value - length suffix) value = suffix)"

fun bundleIDLoop :: "nat \<Rightarrow> int \<Rightarrow> int \<Rightarrow> string \<Rightarrow> bool" where
  "bundleIDLoop len index lastDot [] = (lastDot > 0)"
| "bundleIDLoop len index lastDot (c # cs) =
     (if c = CHR ''.'' then
        (if index = 0 \<or> index = int len - 1 \<or> lastDot = index - 1 then False
         else bundleIDLoop len (index + 1) index cs)
      else if \<not> is_lower c \<and> \<not> is_upper c \<and> \<not> is_digit c \<and> c \<noteq> CHR ''-'' then False
      else bundleIDLoop len (index + 1) lastDot cs)"

definition validBundleID :: "string \<Rightarrow> bool" where
  "validBundleID value =
     (if length value < 3 \<or> length value > 255 then False
      else bundleIDLoop (length value) 0 (-1) value)"

definition validNumericVersion :: "string \<Rightarrow> bool" where
  "validNumericVersion value =
     (let parts = split_on (CHR ''.'') value
      in if length parts < 1 \<or> length parts > 3 then False
         else list_all validNumericIdentifier parts)"

definition validStrictSemVer :: "string \<Rightarrow> bool" where
  "validStrictSemVer value = (case ParseSemanticVersion value of Inl _ \<Rightarrow> False | Inr _ \<Rightarrow> True)"

definition channelForVersion :: "string \<Rightarrow> string option" where
  "channelForVersion value =
     (case ParseSemanticVersion value of
        Inl _ \<Rightarrow> None
      | Inr version \<Rightarrow> Some (if IsPrerelease version then ''preview'' else ''stable''))"

definition validHTTPSURL :: "verify_env \<Rightarrow> string \<Rightarrow> bool" where
  "validHTTPSURL env value =
     (case env_url_parse env value of
        None \<Rightarrow> False
      | Some u \<Rightarrow> url_Scheme u = ''https'' \<and> url_Host u \<noteq> [] \<and> \<not> url_HasUser u)"

definition parsePublicKey :: "verify_env \<Rightarrow> bytes \<Rightarrow> (release_error, bytes) result" where
  "parsePublicKey env data =
     (case env_pem_decode env data of
        None \<Rightarrow> Inl PublicKeyNotPEM
      | Some (blockType, blockBytes, rest) \<Rightarrow>
          (if blockType \<noteq> ''PUBLIC KEY'' \<or> length (trimSpace rest) \<noteq> 0 then Inl PublicKeyNotPEM
           else (case env_parse_pkix env blockBytes of
                   None \<Rightarrow> Inl PublicKeyParse
                 | Some OtherKey \<Rightarrow> Inl PublicKeyNotEd25519
                 | Some (Ed25519Key key) \<Rightarrow> Inr key)))"

definition validateMenuBarArtifact :: "artifact \<Rightarrow> int \<Rightarrow> (release_error, unit) result" where
  "validateMenuBarArtifact a revision =
     (if art_Component a = ''relay'' \<or> art_Component a = ''relayctl'' then
        (if art_OS a \<noteq> ''linux'' \<or> (art_Arch a \<noteq> ''amd64'' \<and> art_Arch a \<noteq> ''arm64'') \<or>
            art_BundleID a \<noteq> [] \<or> art_SigningMode a \<noteq> [] \<or> art_MinimumMacOSVersion a \<noteq> [] \<or>
            art_IntegrationProtocol a \<noteq> 0 \<or> art_HelperProtocol a \<noteq> 0
         then Inl BinaryHasAppMetadata else Inr ())
      else if art_Component a = ''macos_menu_bar_bundle'' then
        (if art_OS a \<noteq> ''darwin'' \<or> art_Arch a \<noteq> ''arm64'' \<or> \<not> hasSuffix (art_File a) ''.app.zip'' \<or>
            \<not> validBundleID (art_BundleID a) \<or> art_SigningMode a \<noteq> ''adhoc''
         then Inl InvalidMenuBarBundle
         else if revision = CompatibilityRevisionUpdater then
           (if \<not> validNumericVersion (art_MinimumMacOSVersion a) \<or>
               art_IntegrationProtocol a \<le> 0 \<or> art_HelperProtocol a \<le> 0
            then Inl InvalidMacOSCompatibility else Inr ())
         else if art_MinimumMacOSVersion a \<noteq> [] \<or> art_IntegrationProtocol a \<noteq> 0 \<or> art_HelperProtocol a \<noteq> 0
         then Inl Revision4HasUpdaterMetadata else Inr ())
      else Inl UnsupportedComponent)"

definition artifact_key :: "artifact \<Rightarrow> string" where
  "artifact_key a = art_OS a @ ''/'' @ art_Arch a @ ''/'' @ art_Component a"

definition required_keys :: "string list" where
  "required_keys =
     [''linux/amd64/relay'', ''linux/amd64/relayctl'', ''linux/arm64/relay'',
      ''linux/arm64/relayctl'', ''darwin/arm64/macos_menu_bar_bundle'']"

fun consumeRequired :: "string list \<Rightarrow> artifact list \<Rightarrow> (release_error, string list) result" where
  "consumeRequired required [] = Inr required"
| "consumeRequired required (a # as) =
     (if artifact_key a \<notin> set required then Inl UnexpectedComponentArtifact
      else consumeRequired (removeAll (artifact_key a) required) as)"

definition validateMenuBarArtifactSet :: "artifact list \<Rightarrow> (release_error, unit) result" where
  "validateMenuBarArtifactSet as =
     (case consumeRequired required_keys as of
        Inl e \<Rightarrow> Inl e
      | Inr required \<Rightarrow> if length required \<noteq> 0 then Inl MissingComponentArtifact else Inr ())"

fun verifyArtifacts ::
  "verify_env \<Rightarrow> int \<Rightarrow> string set \<Rightarrow> artifact list \<Rightarrow> (release_error, unit) result" where
  "verifyArtifacts env revision seen [] = Inr ()"
| "verifyArtifacts env revision seen (a # as) =
     (if art_OS a = [] \<or> art_Arch a = [] \<or> art_File a = [] \<or>
         \<not> validHTTPSURL env (art_URL a) \<or> \<not> isLowerHexSHA256 (art_SHA256 a)
      then Inl IncompleteArtifact
      else if component_aware revision then
        (case validateMenuBarArtifact a revision of
           Inl e \<Rightarrow> Inl e
         | Inr _ \<Rightarrow>
             (if artifact_key a \<in> seen then Inl DuplicateArtifactComponent
              else verifyArtifacts env revision (insert (artifact_key a) seen) as))
      else if art_Component a \<noteq> [] \<or> art_BundleID a \<noteq> [] \<or> art_SigningMode a \<noteq> [] \<or>
         art_MinimumMacOSVersion a \<noteq> [] \<or> art_IntegrationProtocol a \<noteq> 0 \<or> art_HelperProtocol a \<noteq> 0
      then Inl LegacyHasComponentMetadata
      else verifyArtifacts env revision seen as)"

fun verifyDocuments ::
  "verify_env \<Rightarrow> string set \<Rightarrow> document list \<Rightarrow> (release_error, unit) result" where
  "verifyDocuments env seen [] = Inr ()"
| "verifyDocuments env seen (d # ds) =
     (if doc_File d = [] \<or> \<not> validHTTPSURL env (doc_URL d) \<or> \<not> isLowerHexSHA256 (doc_SHA256 d)
      then Inl IncompleteDocument
      else if doc_File d \<in> seen then Inl DuplicateDocument
      else verifyDocuments env (insert (doc_File d) seen) ds)"

definition verifyDecoded :: "verify_env \<Rightarrow> manifest \<Rightarrow> (release_error, manifest) result" where
  "verifyDecoded env m =
     (let revision = man_CompatibilityRevision m in
      if man_Version m = [] \<or> length (man_Artifacts m) = 0 then Inl ManifestIncomplete
      else if revision \<noteq> CompatibilityRevisionLegacy \<and> revision \<noteq> CompatibilityRevisionDocuments \<and>
              revision \<noteq> CompatibilityRevisionAdHocApp \<and> revision \<noteq> CompatibilityRevisionUpdater
      then Inl (UnsupportedRevision revision)
      else if revision = CompatibilityRevisionUpdater \<and>
              (channelForVersion (man_Version m) \<noteq> Some (man_Channel m) \<or>
               \<not> validStrictSemVer (man_MinimumUpdaterVersion m) \<or> \<not> isLowerHexSHA256 (man_TrustKeyID m))
      then Inl UpdaterMetadataInvalid
      else if revision \<noteq> CompatibilityRevisionUpdater \<and>
              (man_Channel m \<noteq> [] \<or> man_MinimumUpdaterVersion m \<noteq> [] \<or> man_TrustKeyID m \<noteq> [])
      then Inl LegacyHasUpdaterMetadata
      else (case verifyArtifacts env revision {} (man_Artifacts m) of
        Inl e \<Rightarrow> Inl e
      | Inr _ \<Rightarrow> (case verifyDocuments env {} (man_Documents m) of
        Inl e \<Rightarrow> Inl e
      | Inr _ \<Rightarrow>
          (if revision \<ge> CompatibilityRevisionDocuments \<and>
              (length (man_Documents m) \<noteq> 1 \<or>
               doc_File (man_Documents m ! 0) \<noteq> ''THIRD_PARTY_NOTICES.md'')
           then Inl NoticesDocumentRequired
           else if component_aware revision then
             (case validateMenuBarArtifactSet (man_Artifacts m) of
                Inl e \<Rightarrow> Inl e
              | Inr _ \<Rightarrow> Inr m)
           else Inr m))))"

definition Verify :: "verify_env \<Rightarrow> bytes \<Rightarrow> bytes \<Rightarrow> bytes \<Rightarrow> (release_error, manifest) result" where
  "Verify env manifestBytes signatureBytes publicKeyPEM =
     (case parsePublicKey env publicKeyPEM of
        Inl e \<Rightarrow> Inl e
      | Inr key \<Rightarrow> (case env_base64 env (trimSpace signatureBytes) of
        None \<Rightarrow> Inl SignatureDecode
      | Some signature \<Rightarrow>
          (if \<not> env_ed25519_verify env key manifestBytes signature then Inl SignatureInvalid
           else (case rejectDuplicateJSONKeys (env_stream_end env manifestBytes) (env_tokens env manifestBytes) of
             Inl e \<Rightarrow> Inl (DuplicateScan e)
           | Inr _ \<Rightarrow> (case env_decode env manifestBytes of
             None \<Rightarrow> Inl DecodeManifest
           | Some m \<Rightarrow>
               (if \<not> env_decode_trailing_eof env manifestBytes then Inl TrailingManifestJSON
                else verifyDecoded env m))))))"

definition Select :: "manifest \<Rightarrow> string \<Rightarrow> string \<Rightarrow> (release_error, artifact) result" where
  "Select m goos goarch =
     (if component_aware (man_CompatibilityRevision m) then Inl ComponentAwareArtifacts
      else (case find (\<lambda>a. art_OS a = goos \<and> art_Arch a = goarch) (man_Artifacts m) of
              Some a \<Rightarrow> Inr a
            | None \<Rightarrow> Inl NoArtifact))"

definition SelectComponent ::
  "manifest \<Rightarrow> string \<Rightarrow> string \<Rightarrow> string \<Rightarrow> (release_error, artifact) result" where
  "SelectComponent m goos goarch component =
     (if \<not> component_aware (man_CompatibilityRevision m) then Inl NotComponentAware
      else (case find (\<lambda>a. art_OS a = goos \<and> art_Arch a = goarch \<and> art_Component a = component)
                   (man_Artifacts m) of
              Some a \<Rightarrow> Inr a
            | None \<Rightarrow> Inl NoArtifact))"

section \<open>Acceptance, stated declaratively\<close>

definition complete_artifact :: "verify_env \<Rightarrow> artifact \<Rightarrow> bool" where
  "complete_artifact env a \<longleftrightarrow> art_OS a \<noteq> [] \<and> art_Arch a \<noteq> [] \<and> art_File a \<noteq> [] \<and>
     validHTTPSURL env (art_URL a) \<and> isLowerHexSHA256 (art_SHA256 a)"

definition legacy_artifact :: "artifact \<Rightarrow> bool" where
  "legacy_artifact a \<longleftrightarrow> art_Component a = [] \<and> art_BundleID a = [] \<and> art_SigningMode a = [] \<and>
     art_MinimumMacOSVersion a = [] \<and> art_IntegrationProtocol a = 0 \<and> art_HelperProtocol a = 0"

definition complete_document :: "verify_env \<Rightarrow> document \<Rightarrow> bool" where
  "complete_document env d \<longleftrightarrow>
     doc_File d \<noteq> [] \<and> validHTTPSURL env (doc_URL d) \<and> isLowerHexSHA256 (doc_SHA256 d)"

definition wf_manifest :: "verify_env \<Rightarrow> manifest \<Rightarrow> bool" where
  "wf_manifest env m \<longleftrightarrow>
     man_Version m \<noteq> [] \<and> man_Artifacts m \<noteq> [] \<and>
     man_CompatibilityRevision m \<in> {1, 2, 4, 5} \<and>
     (if man_CompatibilityRevision m = 5
      then (\<exists>v. ParseSemanticVersion (man_Version m) = Inr v \<and>
              man_Channel m = (if IsPrerelease v then ''preview'' else ''stable'')) \<and>
           validStrictSemVer (man_MinimumUpdaterVersion m) \<and> isLowerHexSHA256 (man_TrustKeyID m)
      else man_Channel m = [] \<and> man_MinimumUpdaterVersion m = [] \<and> man_TrustKeyID m = []) \<and>
     (\<forall>a \<in> set (man_Artifacts m). complete_artifact env a) \<and>
     (if man_CompatibilityRevision m \<in> {4, 5}
      then mset (map artifact_key (man_Artifacts m)) = mset required_keys \<and>
           (\<forall>a \<in> set (man_Artifacts m).
              validateMenuBarArtifact a (man_CompatibilityRevision m) = Inr ())
      else \<forall>a \<in> set (man_Artifacts m). legacy_artifact a) \<and>
     (\<forall>d \<in> set (man_Documents m). complete_document env d) \<and>
     distinct (map doc_File (man_Documents m)) \<and>
     (man_CompatibilityRevision m \<noteq> 1 \<longrightarrow> map doc_File (man_Documents m) = [''THIRD_PARTY_NOTICES.md''])"

lemma distinct_required_keys: "distinct required_keys"
  by (simp add: required_keys_def)

lemma consumeRequired_iff:
  "distinct required \<Longrightarrow>
   consumeRequired required as = Inr left \<longleftrightarrow>
     distinct (map artifact_key as) \<and> artifact_key ` set as \<subseteq> set required \<and>
     left = filter (\<lambda>k. k \<notin> artifact_key ` set as) required"
proof (induction as arbitrary: required)
  case (Cons a as)
  have "filter (\<lambda>k. k \<notin> artifact_key ` set as) (removeAll (artifact_key a) required) =
      filter (\<lambda>k. k \<notin> artifact_key ` set (a # as)) required"
    by (induction required) auto
  with Cons show ?case by (auto simp: distinct_removeAll) (metis image_eqI)
qed (auto simp: filter_id_conv)

lemma validateMenuBarArtifactSet_iff:
  "validateMenuBarArtifactSet as = Inr () \<longleftrightarrow> mset (map artifact_key as) = mset required_keys"
proof -
  have "validateMenuBarArtifactSet as = Inr () \<longleftrightarrow>
      distinct (map artifact_key as) \<and> artifact_key ` set as = set required_keys"
    using consumeRequired_iff [OF distinct_required_keys, of as]
      consumeRequired_iff [OF distinct_required_keys, of as "[]"]
    by (cases "consumeRequired required_keys as")
      (auto simp: validateMenuBarArtifactSet_def filter_empty_conv empty_filter_conv)
  also have "\<dots> \<longleftrightarrow> mset (map artifact_key as) = mset required_keys"
  proof
    assume "distinct (map artifact_key as) \<and> artifact_key ` set as = set required_keys"
    then show "mset (map artifact_key as) = mset required_keys"
      using distinct_required_keys set_eq_iff_mset_eq_distinct [of "map artifact_key as" required_keys]
      by simp
  next
    assume eq: "mset (map artifact_key as) = mset required_keys"
    then have "set (map artifact_key as) = set required_keys" by (rule mset_eq_setD)
    with mset_eq_imp_distinct_iff [OF eq] show
      "distinct (map artifact_key as) \<and> artifact_key ` set as = set required_keys"
      using distinct_required_keys by simp
  qed
  finally show ?thesis .
qed

lemma verifyArtifacts_iff:
  "verifyArtifacts env revision seen as = Inr () \<longleftrightarrow>
     (\<forall>a \<in> set as. complete_artifact env a) \<and>
     (if component_aware revision
      then (\<forall>a \<in> set as. validateMenuBarArtifact a revision = Inr ()) \<and>
           distinct (map artifact_key as) \<and> artifact_key ` set as \<inter> seen = {}
      else \<forall>a \<in> set as. legacy_artifact a)"
proof (induction as arbitrary: seen)
  case (Cons a as)
  show ?case
    by (cases "component_aware revision"; cases "validateMenuBarArtifact a revision")
      (auto simp: Cons complete_artifact_def legacy_artifact_def)
qed simp

lemma verifyDocuments_iff:
  "verifyDocuments env seen ds = Inr () \<longleftrightarrow>
     (\<forall>d \<in> set ds. complete_document env d) \<and> distinct (map doc_File ds) \<and> doc_File ` set ds \<inter> seen = {}"
  by (induction ds arbitrary: seen) (auto simp: complete_document_def)

lemma unit_result_cases: "(r :: ('e, unit) result) = Inr () \<or> (\<exists>e. r = Inl e)"
  by (cases r) auto

lemma verifyDecoded_Inr: "verifyDecoded env m = Inr m' \<Longrightarrow> m' = m"
  by (auto simp: verifyDecoded_def Let_def split: if_splits sum.splits)

lemma channelForVersion_iff:
  "channelForVersion s = Some c \<longleftrightarrow>
     (\<exists>v. ParseSemanticVersion s = Inr v \<and> c = (if IsPrerelease v then ''preview'' else ''stable''))"
  by (auto simp: channelForVersion_def split: sum.splits)

lemma notices_iff:
  "length ds = 1 \<and> doc_File (ds ! 0) = f \<longleftrightarrow> map doc_File ds = [f]"
  by (cases ds) auto

lemma verifyDecoded_chain:
  "verifyDecoded env m = Inr m \<longleftrightarrow>
     man_Version m \<noteq> [] \<and> man_Artifacts m \<noteq> [] \<and> man_CompatibilityRevision m \<in> {1, 2, 4, 5} \<and>
     (man_CompatibilityRevision m = 5 \<longrightarrow> channelForVersion (man_Version m) = Some (man_Channel m) \<and>
        validStrictSemVer (man_MinimumUpdaterVersion m) \<and> isLowerHexSHA256 (man_TrustKeyID m)) \<and>
     (man_CompatibilityRevision m \<noteq> 5 \<longrightarrow>
        man_Channel m = [] \<and> man_MinimumUpdaterVersion m = [] \<and> man_TrustKeyID m = []) \<and>
     verifyArtifacts env (man_CompatibilityRevision m) {} (man_Artifacts m) = Inr () \<and>
     verifyDocuments env {} (man_Documents m) = Inr () \<and>
     (man_CompatibilityRevision m \<ge> 2 \<longrightarrow>
        map doc_File (man_Documents m) = [''THIRD_PARTY_NOTICES.md'']) \<and>
     (component_aware (man_CompatibilityRevision m) \<longrightarrow>
        validateMenuBarArtifactSet (man_Artifacts m) = Inr ())"
proof -
  note results = unit_result_cases [of "verifyArtifacts env (man_CompatibilityRevision m) {} (man_Artifacts m)"]
    unit_result_cases [of "verifyDocuments env {} (man_Documents m)"]
    unit_result_cases [of "validateMenuBarArtifactSet (man_Artifacts m)"]
  consider "man_CompatibilityRevision m \<notin> {1, 2, 4, 5}" | "man_CompatibilityRevision m = 1"
    | "man_CompatibilityRevision m = 2" | "man_CompatibilityRevision m = 4" | "man_CompatibilityRevision m = 5"
    by auto
  then show ?thesis
    using results unfolding verifyDecoded_def Let_def revision_defs component_aware_def
    by cases (auto simp flip: notices_iff)
qed

lemma verifyDecoded_iff: "verifyDecoded env m = Inr m' \<longleftrightarrow> m' = m \<and> wf_manifest env m"
proof -
  have aware: "component_aware r \<longleftrightarrow> r \<in> {4, 5}" for r
    by (auto simp: component_aware_def revision_defs)
  have keys: "mset (map artifact_key as) = mset required_keys \<Longrightarrow> distinct (map artifact_key as)" for as
    using mset_eq_imp_distinct_iff distinct_required_keys by blast
  have revisions: "man_CompatibilityRevision m \<notin> {1, 2, 4, 5} \<or> man_CompatibilityRevision m = 1 \<or>
      man_CompatibilityRevision m = 2 \<or> man_CompatibilityRevision m = 4 \<or> man_CompatibilityRevision m = 5"
    by auto
  have "verifyDecoded env m = Inr m \<longleftrightarrow> wf_manifest env m"
    unfolding verifyDecoded_chain wf_manifest_def verifyArtifacts_iff verifyDocuments_iff
      validateMenuBarArtifactSet_iff aware channelForVersion_iff
    using keys [of "man_Artifacts m"] revisions by (elim disjE) (simp_all, blast+)
  then show ?thesis using verifyDecoded_Inr by blast
qed

section \<open>Bundle identifiers\<close>

definition bundle_char :: "char \<Rightarrow> bool" where
  "bundle_char c \<longleftrightarrow> is_lower c \<or> is_upper c \<or> is_digit c \<or> c = CHR ''-''"

definition bundle_part :: "string \<Rightarrow> bool" where
  "bundle_part s \<longleftrightarrow> s \<noteq> [] \<and> list_all bundle_char s"

lemma bundleIDLoop_spec:
  assumes "-1 \<le> lastDot" "lastDot < index" "index + int (length cs) = int len"
    and "cs = [] \<Longrightarrow> lastDot \<noteq> index - 1" and "index = 0 \<Longrightarrow> lastDot = -1"
  shows "bundleIDLoop len index lastDot cs \<longleftrightarrow>
    (let parts = split_on (CHR ''.'') cs
     in list_all bundle_char (hd parts) \<and> (lastDot = index - 1 \<longrightarrow> hd parts \<noteq> []) \<and>
        list_all bundle_part (tl parts) \<and> (lastDot > 0 \<or> tl parts \<noteq> []))"
  using assms
proof (induction cs arbitrary: index lastDot)
  case (Cons c cs)
  obtain p ps where parts: "split_on (CHR ''.'') cs = p # ps"
    by (cases "split_on (CHR ''.'') cs") auto
  show ?case
  proof (cases "c = CHR ''.''")
    case True
    show ?thesis
    proof (cases "cs = []")
      case False
      with Cons.prems have "0 < length cs" "index + 1 + int (length cs) = int len" by simp_all
      then have "index \<noteq> int len - 1" by linarith
      moreover have "index \<noteq> 0 \<Longrightarrow> bundleIDLoop len (index + 1) index cs \<longleftrightarrow>
          list_all bundle_char p \<and> p \<noteq> [] \<and> list_all bundle_part ps"
        using Cons.prems False by (subst Cons.IH) (auto simp: parts)
      ultimately show ?thesis
        using True Cons.prems by (auto simp: parts Let_def bundle_part_def [of p])
    qed (use True Cons.prems in \<open>auto simp: bundle_part_def\<close>)
  next
    case False
    have "bundleIDLoop len (index + 1) lastDot cs \<longleftrightarrow>
        list_all bundle_char p \<and> list_all bundle_part ps \<and> (lastDot > 0 \<or> ps \<noteq> [])"
      using Cons.prems by (subst Cons.IH) (auto simp: parts)
    with False show ?thesis by (auto simp: parts Let_def bundle_char_def [of c])
  qed
qed (auto simp: Let_def)

section \<open>Selection from an accepted manifest\<close>

definition required_targets :: "(string \<times> string \<times> string) list" where
  "required_targets =
     [(''linux'', ''amd64'', ''relay''), (''linux'', ''amd64'', ''relayctl''),
      (''linux'', ''arm64'', ''relay''), (''linux'', ''arm64'', ''relayctl''),
      (''darwin'', ''arm64'', ''macos_menu_bar_bundle'')]"

definition artifact_target :: "artifact \<Rightarrow> string \<times> string \<times> string" where
  "artifact_target a = (art_OS a, art_Arch a, art_Component a)"

lemma validated_target:
  "validateMenuBarArtifact a revision = Inr () \<Longrightarrow> artifact_target a \<in> set required_targets"
  by (auto simp: validateMenuBarArtifact_def required_targets_def artifact_target_def split: if_splits)

lemma required_target_key:
  "t \<in> set required_targets \<Longrightarrow> artifact_target a \<in> set required_targets \<Longrightarrow>
   artifact_key a = fst t @ ''/'' @ fst (snd t) @ ''/'' @ snd (snd t) \<longleftrightarrow> artifact_target a = t"
  by (auto simp: required_targets_def artifact_target_def artifact_key_def)

lemma required_target_in_keys:
  "t \<in> set required_targets \<Longrightarrow> fst t @ ''/'' @ fst (snd t) @ ''/'' @ snd (snd t) \<in> set required_keys"
  by (auto simp: required_targets_def required_keys_def)

lemma wf_manifest_validated:
  "wf_manifest env m \<Longrightarrow> man_CompatibilityRevision m \<in> {4, 5} \<Longrightarrow> a \<in> set (man_Artifacts m) \<Longrightarrow>
   validateMenuBarArtifact a (man_CompatibilityRevision m) = Inr ()"
  unfolding wf_manifest_def by (simp only: if_True conj_assoc)

lemma wf_manifest_targets:
  assumes wf: "wf_manifest env m" and aware: "man_CompatibilityRevision m \<in> {4, 5}"
  shows "artifact_target ` set (man_Artifacts m) = set required_targets"
    and "distinct (map artifact_target (man_Artifacts m))"
proof -
  from wf aware have keys: "mset (map artifact_key (man_Artifacts m)) = mset required_keys"
    and valid: "\<forall>a \<in> set (man_Artifacts m). artifact_target a \<in> set required_targets"
    using validated_target by (auto simp: wf_manifest_def)
  have key_set: "artifact_key ` set (man_Artifacts m) = set required_keys"
    using mset_eq_setD [OF keys] by simp
  show "artifact_target ` set (man_Artifacts m) = set required_targets"
  proof (rule equalityI; rule subsetI)
    fix t assume t: "t \<in> set required_targets"
    let ?key = "fst t @ ''/'' @ fst (snd t) @ ''/'' @ snd (snd t)"
    have "?key \<in> artifact_key ` set (man_Artifacts m)"
      unfolding key_set using t by (rule required_target_in_keys)
    then obtain a where a: "a \<in> set (man_Artifacts m)" "artifact_key a = ?key" by (elim imageE) simp
    with valid have "artifact_target a = t" using required_target_key [OF t, of a] by simp
    with a show "t \<in> artifact_target ` set (man_Artifacts m)" by blast
  qed (use valid in auto)
  have dist: "distinct (man_Artifacts m)" "inj_on artifact_key (set (man_Artifacts m))"
    using mset_eq_imp_distinct_iff [OF keys] distinct_required_keys by (simp_all add: distinct_map)
  have "artifact_key a = artifact_key b" if "artifact_target a = artifact_target b" for a b
    using that by (simp add: artifact_target_def artifact_key_def)
  with dist(2) have "inj_on artifact_target (set (man_Artifacts m))"
    unfolding inj_on_def by metis
  with dist(1) show "distinct (map artifact_target (man_Artifacts m))" by (simp add: distinct_map)
qed

lemma Verify_wf: "Verify env mb sb kb = Inr m \<Longrightarrow> wf_manifest env m"
  by (auto simp: Verify_def verifyDecoded_iff split: sum.splits option.splits if_splits)

section \<open>Properties\<close>

text \<open>C6: \<open>Verify\<close> returns a manifest exactly when the key parses, the decoded signature verifies
  over the exact manifest bytes, the bytes hold one JSON document without repeated keys that
  decodes to this manifest, and the manifest satisfies \<open>wf_manifest\<close>: a supported revision with
  exactly the metadata of that revision, complete artifacts and documents, no duplicates, and in
  the component-aware revisions exactly the five required components.\<close>

theorem Verify_accepts_iff:
  "Verify env mb sb kb = Inr m \<longleftrightarrow>
     (\<exists>key signature. parsePublicKey env kb = Inr key \<and> env_base64 env (trimSpace sb) = Some signature \<and>
        env_ed25519_verify env key mb signature) \<and>
     rejectDuplicateJSONKeys (env_stream_end env mb) (env_tokens env mb) = Inr () \<and>
     env_decode env mb = Some m \<and> env_decode_trailing_eof env mb \<and> wf_manifest env m"
  by (cases "rejectDuplicateJSONKeys (env_stream_end env mb) (env_tokens env mb)")
    (auto simp: Verify_def verifyDecoded_iff split: sum.splits option.splits)

text \<open>C7: from an accepted component-aware manifest \<open>SelectComponent\<close> finds an artifact exactly
  for the five required (os, arch, component) triples, the artifact it returns is the only one of
  the manifest with that triple and has passed the rules of its component, and the
  component-blind \<open>Select\<close> refuses the manifest; so a menu-bar bundle is never selected where a
  relay binary is asked for.\<close>

theorem SelectComponent_accepted:
  assumes "Verify env mb sb kb = Inr m" and "component_aware (man_CompatibilityRevision m)"
  shows "((\<exists>a. SelectComponent m goos goarch component = Inr a) \<longleftrightarrow>
      (goos, goarch, component) \<in> set required_targets) \<and>
    (\<forall>a. SelectComponent m goos goarch component = Inr a \<longrightarrow>
      {b \<in> set (man_Artifacts m). artifact_target b = (goos, goarch, component)} = {a} \<and>
      validateMenuBarArtifact a (man_CompatibilityRevision m) = Inr ()) \<and>
    Select m goos goarch = Inl ComponentAwareArtifacts"
proof -
  let ?P = "\<lambda>a. art_OS a = goos \<and> art_Arch a = goarch \<and> art_Component a = component"
  have P: "?P a \<longleftrightarrow> artifact_target a = (goos, goarch, component)" for a
    by (auto simp: artifact_target_def)
  from assms(1) have wf: "wf_manifest env m" by (rule Verify_wf)
  from assms have rev: "man_CompatibilityRevision m \<in> {4, 5}"
    by (auto simp: component_aware_def revision_defs)
  note targets = wf_manifest_targets [OF wf rev]
  have found: "SelectComponent m goos goarch component = Inr a \<longleftrightarrow> find ?P (man_Artifacts m) = Some a" for a
    using assms(2) by (auto simp: SelectComponent_def split: option.splits)
  have "(\<exists>a. find ?P (man_Artifacts m) = Some a) \<longleftrightarrow>
      (goos, goarch, component) \<in> artifact_target ` set (man_Artifacts m)"
    unfolding find_Some_ex P by force
  moreover have "{b \<in> set (man_Artifacts m). artifact_target b = (goos, goarch, component)} = {a} \<and>
      validateMenuBarArtifact a (man_CompatibilityRevision m) = Inr ()"
    if "find ?P (man_Artifacts m) = Some a" for a
  proof -
    from that have a: "a \<in> set (man_Artifacts m)" "artifact_target a = (goos, goarch, component)"
      unfolding find_Some_iff P by auto
    with targets(2) have uniq: "b = a" if "b \<in> set (man_Artifacts m)"
      "artifact_target b = (goos, goarch, component)" for b
      using that by (auto simp: distinct_map inj_on_def)
    have "validateMenuBarArtifact a (man_CompatibilityRevision m) = Inr ()"
      using wf rev a(1) by (rule wf_manifest_validated)
    with a uniq show ?thesis by blast
  qed
  ultimately show ?thesis
    using assms(2) by (simp add: found targets(1) Select_def)
qed

definition sample_artifact :: "string \<Rightarrow> string \<Rightarrow> artifact" where
  "sample_artifact arch component =
     \<lparr>art_OS = ''linux'', art_Arch = arch, art_Component = component, art_File = component,
      art_URL = ''https://example.test/relay'', art_SHA256 = replicate 64 (CHR ''a''),
      art_BundleID = [], art_SigningMode = [], art_MinimumMacOSVersion = [],
      art_IntegrationProtocol = 0, art_HelperProtocol = 0\<rparr>"

definition sample_bundle :: artifact where
  "sample_bundle =
     \<lparr>art_OS = ''darwin'', art_Arch = ''arm64'', art_Component = ''macos_menu_bar_bundle'',
      art_File = ''Relay.app.zip'', art_URL = ''https://example.test/app'',
      art_SHA256 = replicate 64 (CHR ''b''), art_BundleID = ''kr.novel.relay'',
      art_SigningMode = ''adhoc'', art_MinimumMacOSVersion = ''14.0'',
      art_IntegrationProtocol = 1, art_HelperProtocol = 1\<rparr>"

definition sample_manifest :: manifest where
  "sample_manifest =
     \<lparr>man_Version = ''1.4.0-rc.1'', man_CompatibilityRevision = 5,
      man_Artifacts = [sample_artifact ''amd64'' ''relay'', sample_artifact ''amd64'' ''relayctl'',
        sample_artifact ''arm64'' ''relay'', sample_artifact ''arm64'' ''relayctl'', sample_bundle],
      man_Documents = [\<lparr>doc_File = ''THIRD_PARTY_NOTICES.md'', doc_URL = ''https://example.test/notices'',
        doc_SHA256 = replicate 64 (CHR ''c'')\<rparr>],
      man_Channel = ''preview'', man_MinimumUpdaterVersion = ''1.3.0'',
      man_TrustKeyID = replicate 64 (CHR ''0'')\<rparr>"

definition sample_env :: verify_env where
  "sample_env =
     \<lparr>env_pem_decode = (\<lambda>_. Some (''PUBLIC KEY'', ''der'', [])),
      env_parse_pkix = (\<lambda>_. Some (Ed25519Key ''key'')), env_base64 = Some,
      env_ed25519_verify = (\<lambda>key message signature. signature = key @ message),
      env_tokens = (\<lambda>_. [TDelim (CHR ''{''), TDelim (CHR ''}'')]), env_stream_end = (\<lambda>_. StreamEOF),
      env_decode = (\<lambda>_. Some sample_manifest), env_decode_trailing_eof = (\<lambda>_. True),
      env_url_parse = (\<lambda>_. Some \<lparr>url_Scheme = ''https'', url_Host = ''example.test'', url_HasUser = False\<rparr>)\<rparr>"

theorem SelectComponent_accepted_witness:
  "Verify sample_env ''{}'' ''key{}'' ''pem'' = Inr sample_manifest \<and>
   SelectComponent sample_manifest ''linux'' ''arm64'' ''relayctl'' = Inr (sample_artifact ''arm64'' ''relayctl'') \<and>
   (\<nexists>a. SelectComponent sample_manifest ''linux'' ''arm64'' ''macos_menu_bar_bundle'' = Inr a)"
proof -
  have ok: "Verify sample_env ''{}'' ''key{}'' ''pem'' = Inr sample_manifest" by code_simp
  have aware: "component_aware (man_CompatibilityRevision sample_manifest)" by code_simp
  have "SelectComponent sample_manifest ''linux'' ''arm64'' ''relayctl'' = Inr (sample_artifact ''arm64'' ''relayctl'')"
    by code_simp
  with ok SelectComponent_accepted [OF ok aware, of "''linux''" "''arm64''" "''macos_menu_bar_bundle''"]
  show ?thesis by (simp add: required_targets_def)
qed

text \<open>\<open>validBundleID\<close> accepts exactly the strings of 3 to 255 bytes that are two or more
  non-empty parts of letters, digits and hyphens, separated by single dots.\<close>

theorem validBundleID_spec:
  "validBundleID v \<longleftrightarrow> 3 \<le> length v \<and> length v \<le> 255 \<and>
     2 \<le> length (split_on (CHR ''.'') v) \<and> list_all bundle_part (split_on (CHR ''.'') v)"
proof (cases "3 \<le> length v")
  case True
  obtain p ps where "split_on (CHR ''.'') v = p # ps" by (cases "split_on (CHR ''.'') v") auto
  moreover have "v \<noteq> []" using True by auto
  ultimately show ?thesis using True bundleIDLoop_spec [of "-1" 0 v "length v"]
    by (cases ps) (auto simp: validBundleID_def bundle_part_def [of p] Let_def)
qed (simp add: validBundleID_def)

end
