(* ===== verification/Compat_Routes.thy ===== *)
theory Compat_Routes
  imports Relay_Prelude
begin

text \<open>
  Package \<open>compat\<close>, file \<open>routes.go\<close>: the admission of a request path and method to the public
  compatibility surface. \<open>Classify\<close> is the whole gate in front of the proxy; the theorem shows
  that whatever it admits lies under \<open>/v1/\<close>, uses one of three methods, and has no empty, dot or
  dot-dot path segment.
\<close>

datatype route_kind =
    RouteModels | RouteResponses | RouteCompact | RouteImages | RouteArtifacts | RouteSearch | RouteVoice

datatype route_error = EndpointNotEnabled

definition validOpaquePath :: "string \<Rightarrow> bool" where
  "validOpaquePath value \<longleftrightarrow>
     value \<noteq> [] \<and> CHR ''/'' \<notin> set value \<and> value \<noteq> ''.'' \<and> value \<noteq> ''..''"

definition isVoiceRoute :: "string \<Rightarrow> string \<Rightarrow> bool \<Rightarrow> bool" where
  "isVoiceRoute mtd path websocket =
     (if (path = ''/v1/live'' \<or> path = ''/v1/realtime/calls'') \<and> (mtd = ''POST'' \<or> mtd = ''OPTIONS'')
      then True
      else if \<not> websocket \<or> mtd \<noteq> ''GET'' then False
      else if has_prefix path ''/v1/live/'' then validOpaquePath (trim_prefix path ''/v1/live/'')
      else if path = ''/v1/realtime'' then True
      else if has_prefix path ''/v1/realtime/calls/''
           then validOpaquePath (trim_prefix path ''/v1/realtime/calls/'')
      else False)"

definition Classify :: "string \<Rightarrow> string \<Rightarrow> bool \<Rightarrow> bool \<Rightarrow> (route_error, route_kind) result" where
  "Classify mtd path websocket voiceEnabled =
     (if path = ''/v1/models'' \<and> (mtd = ''GET'' \<or> mtd = ''OPTIONS'') then Inr RouteModels
      else if path = ''/v1/responses'' \<and> (mtd = ''POST'' \<or> mtd = ''OPTIONS'' \<or> (websocket \<and> mtd = ''GET''))
      then Inr RouteResponses
      else if path = ''/v1/responses/compact'' \<and> (mtd = ''POST'' \<or> mtd = ''OPTIONS'') then Inr RouteCompact
      else if (path = ''/v1/images/generations'' \<or> path = ''/v1/images/edits'') \<and>
              (mtd = ''POST'' \<or> mtd = ''OPTIONS'') then Inr RouteImages
      else if has_prefix path ''/v1/opencodex/artifacts/'' \<and> mtd = ''GET'' \<and>
              validOpaquePath (trim_prefix path ''/v1/opencodex/artifacts/'') then Inr RouteArtifacts
      else if path = ''/v1/alpha/search'' \<and> (mtd = ''POST'' \<or> mtd = ''OPTIONS'') then Inr RouteSearch
      else if voiceEnabled \<and> isVoiceRoute mtd path websocket then Inr RouteVoice
      else Inl EndpointNotEnabled)"

definition plain_segment :: "string \<Rightarrow> bool" where
  "plain_segment s \<longleftrightarrow> s \<noteq> [] \<and> s \<noteq> ''.'' \<and> s \<noteq> ''..''"

lemma opaque_segments:
  "validOpaquePath v \<Longrightarrow> split_on (CHR ''/'') (p @ CHR ''/'' # v) = split_on (CHR ''/'') p @ [v]"
  by (simp add: split_on_append split_on_no_sep validOpaquePath_def)

lemma opaque_plain: "validOpaquePath v \<Longrightarrow> plain_segment v"
  by (simp add: validOpaquePath_def plain_segment_def)

text \<open>The shape of an admitted path: a fixed endpoint, or a fixed prefix and one opaque id.\<close>

definition fixed_endpoints :: "string list" where
  "fixed_endpoints = [''/v1/models'', ''/v1/responses'', ''/v1/responses/compact'', ''/v1/images/generations'',
     ''/v1/images/edits'', ''/v1/alpha/search'', ''/v1/live'', ''/v1/realtime'', ''/v1/realtime/calls'']"

definition opaque_prefixes :: "string list" where
  "opaque_prefixes = [''/v1/opencodex/artifacts'', ''/v1/live'', ''/v1/realtime/calls'']"

lemma opaque_route:
  assumes "p \<in> set opaque_prefixes" "has_prefix path (p @ ''/'')" "validOpaquePath (trim_prefix path (p @ ''/''))"
  shows "\<exists>p v. p \<in> set opaque_prefixes \<and> validOpaquePath v \<and> path = p @ CHR ''/'' # v"
  using assms by (fastforce simp: has_prefix_iff trim_prefix_def)

lemma if_resultE: "(if c then x else y) = z \<Longrightarrow> (c \<Longrightarrow> P) \<Longrightarrow> (y = z \<Longrightarrow> P) \<Longrightarrow> P"
  by (cases c) auto

lemma if_boolE: "(if c then x else y) \<Longrightarrow> (c \<Longrightarrow> x \<Longrightarrow> P) \<Longrightarrow> (\<not> c \<Longrightarrow> y \<Longrightarrow> P) \<Longrightarrow> P"
  by (cases c) auto

definition admitted :: "string \<Rightarrow> string \<Rightarrow> bool" where
  "admitted mtd path \<longleftrightarrow> mtd \<in> {''GET'', ''POST'', ''OPTIONS''} \<and>
     (path \<in> set fixed_endpoints \<or>
      (\<exists>p v. p \<in> set opaque_prefixes \<and> validOpaquePath v \<and> path = p @ CHR ''/'' # v))"

lemma admitted_fixed:
  "path \<in> set fixed_endpoints \<Longrightarrow> mtd = ''GET'' \<or> mtd = ''POST'' \<or> mtd = ''OPTIONS'' \<Longrightarrow> admitted mtd path"
  by (auto simp: admitted_def)

lemma admitted_opaque:
  "has_prefix path (p @ ''/'') \<Longrightarrow> validOpaquePath (trim_prefix path (p @ ''/'')) \<Longrightarrow>
   p \<in> set opaque_prefixes \<Longrightarrow> admitted ''GET'' path"
  unfolding admitted_def using opaque_route by blast

lemmas admitted_ids = admitted_opaque [of _ "''/v1/opencodex/artifacts''"] admitted_opaque [of _ "''/v1/live''"]
  admitted_opaque [of _ "''/v1/realtime/calls''"]

lemma isVoiceRoute_admitted:
  assumes "isVoiceRoute mtd path websocket"
  shows "admitted mtd path"
proof -
  consider "path = ''/v1/live'' \<or> path = ''/v1/realtime/calls''" "mtd = ''POST'' \<or> mtd = ''OPTIONS''"
    | "mtd = ''GET''" "path = ''/v1/realtime''"
    | "mtd = ''GET''" "has_prefix path ''/v1/live/''" "validOpaquePath (trim_prefix path ''/v1/live/'')"
    | "mtd = ''GET''" "has_prefix path ''/v1/realtime/calls/''"
      "validOpaquePath (trim_prefix path ''/v1/realtime/calls/'')"
    using assms unfolding isVoiceRoute_def by (elim if_boolE) blast+
  then show ?thesis
    by cases (use admitted_ids [of path] in \<open>auto simp: fixed_endpoints_def opaque_prefixes_def intro: admitted_fixed\<close>)
qed

lemma Classify_shape: "Classify mtd path websocket voiceEnabled = Inr kind \<Longrightarrow> admitted mtd path"
  unfolding Classify_def
  by (elim if_resultE; (elim conjE disjE)?)
    (use admitted_ids(1) [of path] in
      \<open>auto intro: admitted_fixed isVoiceRoute_admitted simp: fixed_endpoints_def opaque_prefixes_def\<close>)

lemma fixed_prefix_segments:
  "\<forall>p \<in> set (fixed_endpoints @ opaque_prefixes).
     take 2 (split_on (CHR ''/'') p) = [[], ''v1''] \<and> list_all plain_segment (tl (split_on (CHR ''/'') p))"
  unfolding fixed_endpoints_def opaque_prefixes_def plain_segment_def by code_simp

section \<open>Properties\<close>

text \<open>C9: every admitted request uses GET, POST or OPTIONS on a path whose first segment is
  \<open>v1\<close> and none of whose segments is empty, \<open>.\<close> or \<open>..\<close>; there is no catch-all route and no
  traversal through an opaque id.\<close>

theorem Classify_admits_plain_v1_paths:
  assumes "Classify mtd path websocket voiceEnabled = Inr kind"
  shows "mtd \<in> {''GET'', ''POST'', ''OPTIONS''} \<and>
    take 2 (split_on (CHR ''/'') path) = [[], ''v1''] \<and>
    list_all plain_segment (tl (split_on (CHR ''/'') path))"
proof -
  note shape = Classify_shape [OF assms, unfolded admitted_def]
  then consider "path \<in> set fixed_endpoints"
    | p v where "p \<in> set opaque_prefixes" "validOpaquePath v" "path = p @ CHR ''/'' # v" by blast
  then show ?thesis
  proof cases
    case 1
    with shape fixed_prefix_segments show ?thesis by simp
  next
    case 2
    with fixed_prefix_segments have "take 2 (split_on (CHR ''/'') p) = [[], ''v1'']"
      "list_all plain_segment (tl (split_on (CHR ''/'') p))" by auto
    moreover from this(1) obtain ss where "split_on (CHR ''/'') p = [] # ''v1'' # ss"
      by (cases "split_on (CHR ''/'') p"; cases "tl (split_on (CHR ''/'') p)") auto
    ultimately show ?thesis using shape 2 opaque_plain by (simp add: opaque_segments)
  qed
qed

theorem Classify_admits_plain_v1_paths_witness:
  "Classify ''GET'' ''/v1/opencodex/artifacts/a1'' False False = Inr RouteArtifacts \<and>
   list_all plain_segment (tl (split_on (CHR ''/'') ''/v1/opencodex/artifacts/a1''))"
proof -
  have ok: "Classify ''GET'' ''/v1/opencodex/artifacts/a1'' False False = Inr RouteArtifacts" by code_simp
  with Classify_admits_plain_v1_paths [OF ok] show ?thesis by blast
qed

end
