(* ===== verification/Fifo_Limiter.thy ===== *)
theory Fifo_Limiter
  imports Relay_Prelude
begin

text \<open>
  Package \<open>scheduler\<close>, file \<open>scheduler.go\<close>, first part: lanes, stages, errors, the wait
  \<open>waitUntil\<close>, the contract of a first-in first-out permit queue, and \<open>fifoLimiter\<close>.

  A waiter is a heap object that only its own \<open>acquire\<close> call and the limiter hold; it is named by
  a number. Its flag \<open>granted\<close> and its channel \<open>ready\<close> change together, so both are membership
  in \<open>fl_granted\<close>, and \<open>element != nil\<close> is membership in the queue. Every critical section under
  the mutex is one function; a call of \<open>acquire\<close> that has to wait is two of them, with the
  outcome of \<open>waitUntil\<close> in between. The step relation lets the sections of any number of clients
  interleave.
\<close>

datatype lane = LaneGeneral | LaneInteractive | LaneOther string

definition lane_valid :: "lane \<Rightarrow> bool" where
  "lane_valid l \<longleftrightarrow> l = LaneGeneral \<or> l = LaneInteractive"

datatype stage =
    StageClassification | StagePendingRequest | StagePendingBytes | StageUpstream
  | StageTransform | StageDelivery

datatype sched_error =
    ErrInvalidLimits
  | ErrInvalidLane
  | CapacityTimeoutError stage
  | ErrPendingRequestClosed
  | ErrInvalidByteCount
  | ErrPendingBytesTooLarge
  | ContextErr
  | LifecycleErr

text \<open>The \<open>select\<close> of \<open>waitUntil\<close> takes any ready case, so the case taken is an argument.\<close>

datatype wait_case = WaitReady | WaitCtxDone | WaitLifecycleDone | WaitTimer

definition waitUntil :: "int \<Rightarrow> wait_case \<Rightarrow> stage \<Rightarrow> (sched_error, unit) result" where
  "waitUntil remaining taken st =
     (if remaining \<le> 0 then Inl (CapacityTimeoutError st)
      else (case taken of
              WaitReady \<Rightarrow> Inr ()
            | WaitCtxDone \<Rightarrow> Inl ContextErr
            | WaitLifecycleDone \<Rightarrow> Inl LifecycleErr
            | WaitTimer \<Rightarrow> Inl (CapacityTimeoutError st)))"

datatype enter_result = Entered | Queued

section \<open>The contract of a first-in first-out permit queue\<close>

text \<open>
  The reference behaviour of every dispatch loop of the scheduler: serve the longest prefix of
  the queue whose weights fit into the free capacity, and stop at the first waiter that does not
  fit.
\<close>

fun grant_prefix :: "('w \<Rightarrow> int) \<Rightarrow> int \<Rightarrow> 'w list \<Rightarrow> 'w list \<times> 'w list" where
  "grant_prefix weight free [] = ([], [])"
| "grant_prefix weight free (w # ws) =
     (if weight w \<le> free
      then (let (g, r) = grant_prefix weight (free - weight w) ws in (w # g, r))
      else ([], w # ws))"

lemma grant_prefix_append: "grant_prefix weight free ws = (g, r) \<Longrightarrow> g @ r = ws"
  by (induction weight free ws arbitrary: g r rule: grant_prefix.induct)
    (auto split: if_splits prod.splits)

lemma grant_prefix_fits:
  "0 \<le> free \<Longrightarrow> grant_prefix weight free ws = (g, r) \<Longrightarrow> sum_list (map weight g) \<le> free"
proof (induction weight free ws arbitrary: g r rule: grant_prefix.induct)
  case (2 weight free w ws)
  then show ?case by (cases "weight w \<le> free") (force split: prod.splits)+
qed auto

lemma grant_prefix_blocked:
  "grant_prefix weight free ws = (g, r) \<Longrightarrow> r \<noteq> [] \<Longrightarrow> free - sum_list (map weight g) < weight (hd r)"
  by (induction weight free ws arbitrary: g r rule: grant_prefix.induct)
    (force split: if_splits prod.splits)+

locale permit_queue =
  fixes cap :: "'s \<Rightarrow> int" and used :: "'s \<Rightarrow> int" and queue :: "'s \<Rightarrow> 'w list"
    and granted :: "'s \<Rightarrow> 'w list" and weight :: "'w \<Rightarrow> int" and dispatch :: "'s \<Rightarrow> 's"
  assumes dispatch_cap: "cap (dispatch s) = cap s"
    and dispatch_grants: "grant_prefix weight (cap s - used s) (queue s) = (g, r) \<Longrightarrow>
      queue (dispatch s) = r \<and> granted (dispatch s) = granted s @ g \<and>
      used (dispatch s) = used s + sum_list (map weight g)"
begin

lemma dispatch_obtain:
  obtains g where "queue s = g @ queue (dispatch s)" "granted (dispatch s) = granted s @ g"
    "used (dispatch s) = used s + sum_list (map weight g)"
    "grant_prefix weight (cap s - used s) (queue s) = (g, queue (dispatch s))"
proof (cases "grant_prefix weight (cap s - used s) (queue s)")
  case (Pair g r)
  then have "g @ r = queue s" by (rule grant_prefix_append)
  with dispatch_grants [OF Pair] Pair show ?thesis by (intro that [of g]) auto
qed

lemma dispatch_bound: "used s \<le> cap s \<Longrightarrow> used (dispatch s) \<le> cap (dispatch s)"
proof -
  assume le: "used s \<le> cap s"
  obtain g where "used (dispatch s) = used s + sum_list (map weight g)"
    "grant_prefix weight (cap s - used s) (queue s) = (g, queue (dispatch s))"
    using dispatch_obtain [of s] by metis
  with le grant_prefix_fits [of "cap s - used s" weight "queue s" g] show ?thesis
    by (simp add: dispatch_cap)
qed

lemma dispatch_blocked:
  "queue (dispatch s) \<noteq> [] \<Longrightarrow> cap (dispatch s) - used (dispatch s) < weight (hd (queue (dispatch s)))"
proof -
  assume ne: "queue (dispatch s) \<noteq> []"
  obtain g where "used (dispatch s) = used s + sum_list (map weight g)"
    "grant_prefix weight (cap s - used s) (queue s) = (g, queue (dispatch s))"
    using dispatch_obtain [of s] by metis
  with grant_prefix_blocked [of weight "cap s - used s" "queue s" g] ne show ?thesis
    by (simp add: dispatch_cap)
qed

end

section \<open>fifoLimiter\<close>

record fifo_limiter =
  fl_capacity :: int
  fl_active :: int
  fl_waiters :: "nat list"
  fl_granted :: "nat list"

definition newFIFOLimiter :: "int \<Rightarrow> fifo_limiter" where
  "newFIFOLimiter capacity = \<lparr>fl_capacity = capacity, fl_active = 0, fl_waiters = [], fl_granted = []\<rparr>"

fun fifo_dispatch_loop :: "int \<Rightarrow> int \<Rightarrow> nat list \<Rightarrow> nat list \<Rightarrow> int \<times> nat list \<times> nat list" where
  "fifo_dispatch_loop capacity active [] granted = (active, [], granted)"
| "fifo_dispatch_loop capacity active (w # ws) granted =
     (if active < capacity then fifo_dispatch_loop capacity (active + 1) ws (granted @ [w])
      else (active, w # ws, granted))"

definition fifo_dispatchLocked :: "fifo_limiter \<Rightarrow> fifo_limiter" where
  "fifo_dispatchLocked l =
     (case fifo_dispatch_loop (fl_capacity l) (fl_active l) (fl_waiters l) (fl_granted l) of
        (active, waiters, granted) \<Rightarrow>
          l\<lparr>fl_active := active, fl_waiters := waiters, fl_granted := granted\<rparr>)"

text \<open>\<open>acquire\<close> up to the wait, and after a wait that failed.\<close>

definition fifo_acquire_enter ::
  "fifo_limiter \<Rightarrow> nat \<Rightarrow> bool \<Rightarrow> int \<Rightarrow> int \<Rightarrow> stage \<Rightarrow> (sched_error, enter_result \<times> fifo_limiter) result" where
  "fifo_acquire_enter l w ctxErr started deadline st =
     (if ctxErr then Inl ContextErr
      else if \<not> started < deadline then Inl (CapacityTimeoutError st)
      else if fl_active l < fl_capacity l \<and> length (fl_waiters l) = 0
      then Inr (Entered, l\<lparr>fl_active := fl_active l + 1\<rparr>)
      else Inr (Queued, l\<lparr>fl_waiters := fl_waiters l @ [w]\<rparr>))"

definition fifo_acquire_abandon :: "fifo_limiter \<Rightarrow> nat \<Rightarrow> fifo_limiter" where
  "fifo_acquire_abandon l w =
     (if w \<in> set (fl_granted l) then fifo_dispatchLocked (l\<lparr>fl_active := fl_active l - 1\<rparr>)
      else if w \<in> set (fl_waiters l) then l\<lparr>fl_waiters := remove1 w (fl_waiters l)\<rparr>
      else l)"

definition fifo_release :: "fifo_limiter \<Rightarrow> fifo_limiter" where
  "fifo_release l =
     fifo_dispatchLocked (if fl_active l > 0 then l\<lparr>fl_active := fl_active l - 1\<rparr> else l)"

definition fifo_snapshot :: "fifo_limiter \<Rightarrow> int \<times> int" where
  "fifo_snapshot l = (fl_active l, int (length (fl_waiters l)))"

lemma fifo_dispatch_loop_prefix:
  "grant_prefix (\<lambda>_. 1) (capacity - active) ws = (g, r) \<Longrightarrow>
   fifo_dispatch_loop capacity active ws granted =
     (active + sum_list (map (\<lambda>_. 1) g), r, granted @ g)"
proof (induction capacity active ws granted arbitrary: g r rule: fifo_dispatch_loop.induct)
  case (2 capacity active w ws granted)
  obtain g' r' where step: "grant_prefix (\<lambda>_. 1) (capacity - active - 1) ws = (g', r')"
    by (cases "grant_prefix (\<lambda>_. 1) (capacity - active - 1) ws")
  then have shift: "grant_prefix (\<lambda>_. 1) (capacity - (active + 1)) ws = (g', r')"
    by (simp add: algebra_simps)
  show ?case
  proof (cases "active < capacity")
    case True
    with 2 step have "g = w # g'" "r = r'" by auto
    with True "2.IH" [OF True shift] show ?thesis by simp
  qed (use "2.prems" in auto)
qed auto

interpretation limiter: permit_queue fl_capacity fl_active fl_waiters fl_granted "\<lambda>_. 1" fifo_dispatchLocked
proof unfold_locales
  fix s :: fifo_limiter and g r
  show "fl_capacity (fifo_dispatchLocked s) = fl_capacity s"
    by (simp add: fifo_dispatchLocked_def split: prod.splits)
  assume "grant_prefix (\<lambda>_. 1) (fl_capacity s - fl_active s) (fl_waiters s) = (g, r)"
  from fifo_dispatch_loop_prefix [OF this, of "fl_granted s"]
  show "fl_waiters (fifo_dispatchLocked s) = r \<and> fl_granted (fifo_dispatchLocked s) = fl_granted s @ g \<and>
    fl_active (fifo_dispatchLocked s) = fl_active s + sum_list (map (\<lambda>_. 1) g)"
    by (simp add: fifo_dispatchLocked_def)
qed

section \<open>Clients of one limiter\<close>

text \<open>
  The clients of a limiter: a client is outside, queued or granted inside \<open>acquire\<close>, or holds a
  lease. \<open>ls_leases\<close> are the leases not yet released; a lease releases once
  (\<open>Lease.Release\<close> uses \<open>sync.Once\<close>).
\<close>

record limiter_sys =
  ls_limiter :: fifo_limiter
  ls_leases :: "nat list"

definition client_inside :: "limiter_sys \<Rightarrow> nat \<Rightarrow> bool" where
  "client_inside s w \<longleftrightarrow>
     w \<in> set (fl_waiters (ls_limiter s)) \<or> w \<in> set (fl_granted (ls_limiter s)) \<or> w \<in> set (ls_leases s)"

inductive limiter_step :: "limiter_sys \<Rightarrow> limiter_sys \<Rightarrow> bool" where
  enter: "\<not> client_inside s w \<Longrightarrow> fifo_acquire_enter (ls_limiter s) w False t d st = Inr (Entered, l) \<Longrightarrow>
    limiter_step s (s\<lparr>ls_limiter := l, ls_leases := w # ls_leases s\<rparr>)"
| queue: "\<not> client_inside s w \<Longrightarrow> fifo_acquire_enter (ls_limiter s) w False t d st = Inr (Queued, l) \<Longrightarrow>
    limiter_step s (s\<lparr>ls_limiter := l\<rparr>)"
| wake: "w \<in> set (fl_granted (ls_limiter s)) \<Longrightarrow>
    limiter_step s (s\<lparr>ls_limiter := (ls_limiter s)\<lparr>fl_granted := remove1 w (fl_granted (ls_limiter s))\<rparr>,
      ls_leases := w # ls_leases s\<rparr>)"
| abandon_granted: "w \<in> set (fl_granted (ls_limiter s)) \<Longrightarrow> l = fifo_acquire_abandon (ls_limiter s) w \<Longrightarrow>
    limiter_step s (s\<lparr>ls_limiter := l\<lparr>fl_granted := remove1 w (fl_granted l)\<rparr>\<rparr>)"
| abandon_queued: "w \<in> set (fl_waiters (ls_limiter s)) \<Longrightarrow>
    limiter_step s (s\<lparr>ls_limiter := fifo_acquire_abandon (ls_limiter s) w\<rparr>)"
| release: "w \<in> set (ls_leases s) \<Longrightarrow>
    limiter_step s (s\<lparr>ls_limiter := fifo_release (ls_limiter s), ls_leases := remove1 w (ls_leases s)\<rparr>)"

inductive limiter_reachable :: "int \<Rightarrow> limiter_sys \<Rightarrow> bool" for capacity where
  init: "limiter_reachable capacity \<lparr>ls_limiter = newFIFOLimiter capacity, ls_leases = []\<rparr>"
| step: "limiter_reachable capacity s \<Longrightarrow> limiter_step s t \<Longrightarrow> limiter_reachable capacity t"

definition limiter_inv :: "limiter_sys \<Rightarrow> bool" where
  "limiter_inv s \<longleftrightarrow>
     (let l = ls_limiter s in
      distinct (fl_waiters l @ fl_granted l @ ls_leases s) \<and>
      fl_active l = int (length (fl_granted l)) + int (length (ls_leases s)) \<and>
      fl_active l \<le> fl_capacity l \<and>
      (fl_waiters l \<noteq> [] \<longrightarrow> fl_active l = fl_capacity l))"

lemma sum_list_ones: "sum_list (map (\<lambda>_. 1 :: int) xs) = int (length xs)"
  by (induction xs) auto

lemma limiter_sys_eqs:
  "s\<lparr>ls_limiter := l\<rparr> = \<lparr>ls_limiter = l, ls_leases = ls_leases s\<rparr>"
  "s\<lparr>ls_limiter := l, ls_leases := L\<rparr> = \<lparr>ls_limiter = l, ls_leases = L\<rparr>"
  by (cases s; simp)+

lemma limiter_dispatch_obtain:
  obtains g where "fl_waiters l = g @ fl_waiters (fifo_dispatchLocked l)"
    "fl_granted (fifo_dispatchLocked l) = fl_granted l @ g"
    "fl_active (fifo_dispatchLocked l) = fl_active l + int (length g)"
  by (rule limiter.dispatch_obtain [of l]) (simp add: sum_list_ones)

text \<open>Dispatching after a permit has been given back restores the invariant.\<close>

lemma limiter_inv_dispatch:
  assumes dist: "distinct (fl_waiters l @ fl_granted l @ L)"
    and active: "fl_active l = int (length (fl_granted l)) + int (length L)" "fl_active l \<le> fl_capacity l"
  shows "limiter_inv \<lparr>ls_limiter = fifo_dispatchLocked l, ls_leases = L\<rparr>"
proof -
  obtain g where g: "fl_waiters l = g @ fl_waiters (fifo_dispatchLocked l)"
    "fl_granted (fifo_dispatchLocked l) = fl_granted l @ g"
    "fl_active (fifo_dispatchLocked l) = fl_active l + int (length g)"
    by (rule limiter_dispatch_obtain)
  have "fl_waiters (fifo_dispatchLocked l) \<noteq> [] \<Longrightarrow>
      fl_active (fifo_dispatchLocked l) = fl_capacity (fifo_dispatchLocked l)"
    using limiter.dispatch_blocked [of l] limiter.dispatch_bound [OF active(2)] by linarith
  moreover have "distinct ((g @ fl_waiters (fifo_dispatchLocked l)) @ fl_granted l @ L)"
    using dist g(1) by simp
  ultimately show ?thesis
    using active g(2,3) limiter.dispatch_bound [OF active(2)]
    by (auto simp: limiter_inv_def Let_def)
qed

lemma fifo_abandon_granted:
  assumes "w \<in> set (fl_granted l)" "w \<notin> set (fl_waiters l)"
  shows "(fifo_acquire_abandon l w)\<lparr>fl_granted := remove1 w (fl_granted (fifo_acquire_abandon l w))\<rparr> =
    fifo_dispatchLocked (l\<lparr>fl_active := fl_active l - 1, fl_granted := remove1 w (fl_granted l)\<rparr>)"
proof -
  have frame: "fifo_dispatch_loop c a ws (xs @ gs) =
      (case fifo_dispatch_loop c a ws gs of (a', ws', gs') \<Rightarrow> (a', ws', xs @ gs'))" for c a ws xs gs
    by (induction c a ws gs rule: fifo_dispatch_loop.induct) auto
  show ?thesis
    using assms frame [of "fl_capacity l" "fl_active l - 1" "fl_waiters l" "fl_granted l" "[]"]
      frame [of "fl_capacity l" "fl_active l - 1" "fl_waiters l" "remove1 w (fl_granted l)" "[]"]
    by (auto simp: fifo_acquire_abandon_def fifo_dispatchLocked_def remove1_append split: prod.splits)
qed

lemma length_remove1_int: "x \<in> set xs \<Longrightarrow> int (length (remove1 x xs)) = int (length xs) - 1"
  by (induction xs) auto

lemma limiter_step_inv: "limiter_step s t \<Longrightarrow> limiter_inv s \<Longrightarrow> limiter_inv t"
proof (induction rule: limiter_step.induct)
  case (enter s w t d st l)
  then show ?case
    by (auto simp: limiter_inv_def fifo_acquire_enter_def client_inside_def Let_def split: if_splits)
next
  case (queue s w t d st l)
  then show ?case
    by (auto simp: limiter_inv_def fifo_acquire_enter_def client_inside_def Let_def split: if_splits)
next
  case (wake w s)
  then show ?case by (auto simp: limiter_inv_def Let_def length_remove1_int)
next
  case (abandon_granted w s l)
  let ?l = "(ls_limiter s)\<lparr>fl_active := fl_active (ls_limiter s) - 1,
    fl_granted := remove1 w (fl_granted (ls_limiter s))\<rparr>"
  have "limiter_inv \<lparr>ls_limiter = fifo_dispatchLocked ?l, ls_leases = ls_leases s\<rparr>"
    using abandon_granted by (intro limiter_inv_dispatch)
      (auto simp: limiter_inv_def Let_def length_remove1_int)
  moreover have "w \<notin> set (fl_waiters (ls_limiter s))"
    using abandon_granted by (auto simp: limiter_inv_def Let_def)
  ultimately show ?case
    using abandon_granted fifo_abandon_granted [of w "ls_limiter s"] by (simp add: limiter_sys_eqs)
next
  case (abandon_queued w s)
  then show ?case
    by (auto simp: limiter_inv_def fifo_acquire_abandon_def Let_def dest: set_remove1_subset [THEN subsetD])
next
  case (release w s)
  let ?l = "(ls_limiter s)\<lparr>fl_active := fl_active (ls_limiter s) - 1\<rparr>"
  have "limiter_inv \<lparr>ls_limiter = fifo_dispatchLocked ?l, ls_leases = remove1 w (ls_leases s)\<rparr>"
    using release by (intro limiter_inv_dispatch)
      (auto simp: limiter_inv_def Let_def length_remove1_int dest: set_remove1_subset [THEN subsetD])
  moreover have "fl_active (ls_limiter s) > 0"
    using release by (cases "ls_leases s") (auto simp: limiter_inv_def Let_def)
  ultimately show ?case by (simp add: fifo_release_def limiter_sys_eqs)
qed

lemma limiter_inv_init: "0 \<le> capacity \<Longrightarrow>
  limiter_inv \<lparr>ls_limiter = newFIFOLimiter capacity, ls_leases = []\<rparr>"
  by (simp add: limiter_inv_def newFIFOLimiter_def)

lemma limiter_reachable_inv:
  "limiter_reachable capacity s \<Longrightarrow> 0 \<le> capacity \<Longrightarrow> limiter_inv s"
  by (induction rule: limiter_reachable.induct) (auto intro: limiter_inv_init limiter_step_inv)

lemma limiter_step_capacity:
  "limiter_step s t \<Longrightarrow> fl_capacity (ls_limiter t) = fl_capacity (ls_limiter s)"
  by (induction rule: limiter_step.induct)
    (auto simp: fifo_acquire_enter_def fifo_acquire_abandon_def fifo_release_def limiter.dispatch_cap
      split: if_splits)

lemma limiter_reachable_capacity:
  "limiter_reachable capacity s \<Longrightarrow> fl_capacity (ls_limiter s) = capacity"
  by (induction rule: limiter_reachable.induct) (auto simp: newFIFOLimiter_def limiter_step_capacity)

text \<open>One step serves the queue from the front: what leaves it towards a grant is a prefix.\<close>

lemma limiter_step_queue:
  assumes "limiter_step s t" "limiter_inv s"
  shows "(\<exists>g. fl_waiters (ls_limiter s) = g @ fl_waiters (ls_limiter t) \<and>
        set (fl_granted (ls_limiter t)) \<subseteq> set (fl_granted (ls_limiter s)) \<union> set g) \<or>
     set (fl_granted (ls_limiter t)) \<subseteq> set (fl_granted (ls_limiter s))"
  using assms
proof (induction rule: limiter_step.induct)
  case (abandon_granted w s l)
  let ?l = "(ls_limiter s)\<lparr>fl_active := fl_active (ls_limiter s) - 1\<rparr>"
  obtain g where "fl_waiters ?l = g @ fl_waiters (fifo_dispatchLocked ?l)"
    "fl_granted (fifo_dispatchLocked ?l) = fl_granted ?l @ g"
    by (rule limiter_dispatch_obtain [of ?l])
  with abandon_granted show ?case by (auto simp: fifo_acquire_abandon_def dest: set_remove1_subset [THEN subsetD])
next
  case (abandon_queued w s)
  then show ?case by (auto simp: fifo_acquire_abandon_def limiter_inv_def Let_def)
next
  case (release w s)
  let ?l = "if fl_active (ls_limiter s) > 0
      then (ls_limiter s)\<lparr>fl_active := fl_active (ls_limiter s) - 1\<rparr> else ls_limiter s"
  obtain g where "fl_waiters ?l = g @ fl_waiters (fifo_dispatchLocked ?l)"
    "fl_granted (fifo_dispatchLocked ?l) = fl_granted ?l @ g"
    by (rule limiter_dispatch_obtain [of ?l])
  then show ?case by (auto simp: fifo_release_def split: if_splits)
qed (auto simp: fifo_acquire_enter_def split: if_splits dest: set_remove1_subset [THEN subsetD])

lemma prefix_member_index:
  assumes "distinct (g @ r)" "j < length (g @ r)" "(g @ r) ! j \<in> set g"
  shows "j < length g"
proof (rule ccontr)
  assume "\<not> j < length g"
  with assms(2) have "(g @ r) ! j \<in> set r" by (simp add: nth_append)
  with assms(1,3) show False by auto
qed

section \<open>Properties\<close>

text \<open>C10: in every interleaving of the limiter's clients, the active count is exactly the number
  of unreleased leases plus granted waiters, never exceeds the capacity, and no waiter is left
  queued while a permit is free (no lost wake-up).\<close>

theorem limiter_safe_and_work_conserving:
  assumes "limiter_reachable capacity s" "0 < capacity"
  shows "fl_active (ls_limiter s) = int (length (fl_granted (ls_limiter s))) + int (length (ls_leases s)) \<and>
    int (length (ls_leases s)) \<le> capacity \<and> fl_active (ls_limiter s) \<le> capacity \<and>
    (fl_waiters (ls_limiter s) \<noteq> [] \<longrightarrow> fl_active (ls_limiter s) = capacity)"
  using limiter_reachable_inv [OF assms(1)] limiter_reachable_capacity [OF assms(1)] assms(2)
  by (auto simp: limiter_inv_def Let_def)

text \<open>A run for the witness: with capacity 1, client 0 enters, clients 1 and 2 queue.\<close>

definition busy_limiter :: limiter_sys where
  "busy_limiter = \<lparr>ls_limiter = \<lparr>fl_capacity = 1, fl_active = 1, fl_waiters = [1, 2], fl_granted = []\<rparr>,
     ls_leases = [0]\<rparr>"

lemma busy_limiter_reachable: "limiter_reachable 1 busy_limiter"
proof -
  let ?s0 = "\<lparr>ls_limiter = newFIFOLimiter 1, ls_leases = []\<rparr>"
  let ?s1 = "\<lparr>ls_limiter = \<lparr>fl_capacity = 1, fl_active = 1, fl_waiters = [], fl_granted = []\<rparr>, ls_leases = [0]\<rparr>"
  let ?s2 = "\<lparr>ls_limiter = \<lparr>fl_capacity = 1, fl_active = 1, fl_waiters = [1], fl_granted = []\<rparr>, ls_leases = [0]\<rparr>"
  note simps = newFIFOLimiter_def fifo_acquire_enter_def client_inside_def busy_limiter_def
  have "limiter_step ?s0 ?s1"
    using limiter_step.enter [of ?s0 0 0 1 StageTransform "ls_limiter ?s1"] by (simp add: simps)
  moreover have "limiter_step ?s1 ?s2"
    using limiter_step.queue [of ?s1 1 0 1 StageTransform "ls_limiter ?s2"] by (simp add: simps)
  moreover have "limiter_step ?s2 busy_limiter"
    using limiter_step.queue [of ?s2 2 0 1 StageTransform "ls_limiter busy_limiter"] by (simp add: simps)
  ultimately show ?thesis
    by (meson limiter_reachable.init limiter_reachable.step)
qed

theorem limiter_safe_and_work_conserving_witness:
  "limiter_reachable 1 busy_limiter \<and> fl_waiters (ls_limiter busy_limiter) = [1, 2] \<and>
   fl_active (ls_limiter busy_limiter) = 1"
  using limiter_safe_and_work_conserving [OF busy_limiter_reachable] busy_limiter_reachable
  by (simp add: busy_limiter_def)



end
