(* ===== verification/Pending_Quota.thy ===== *)
theory Pending_Quota
  imports Fifo_Limiter
begin

text \<open>
  Package \<open>scheduler\<close>, file \<open>scheduler.go\<close>, second part: \<open>pendingQuota\<close>, \<open>PendingRequest\<close> and
  \<open>JobLease\<close>. Counts are \<open>int\<close>; the invariant bounds them by the configured limits, so the
  64-bit arithmetic of the code never wraps.

  Several methods update the pending request under its own mutex and call the quota only after
  releasing that mutex. The system below keeps such a call as a separate step (\<open>ps_deferred\<close> for
  quota calls still to be made, \<open>ps_uncommitted\<close> for byte reservations obtained but not yet
  recorded), so that the steps of all clients interleave between the two, as they can in the code.
\<close>

section \<open>pendingQuota\<close>

type_synonym byte_waiter = "nat \<times> int"

record pending_quota =
  pq_maxRequests :: int
  pq_maxBytes :: int
  pq_requests :: int
  pq_bytes :: int
  pq_requestWaiters :: "nat list"
  pq_byteWaiters :: "byte_waiter list"
  pq_grantedRequests :: "nat list"
  pq_grantedBytes :: "byte_waiter list"

definition newPendingQuota :: "int \<Rightarrow> int \<Rightarrow> pending_quota" where
  "newPendingQuota maxRequests maxBytes =
     \<lparr>pq_maxRequests = maxRequests, pq_maxBytes = maxBytes, pq_requests = 0, pq_bytes = 0,
      pq_requestWaiters = [], pq_byteWaiters = [], pq_grantedRequests = [], pq_grantedBytes = []\<rparr>"

fun request_dispatch_loop :: "int \<Rightarrow> int \<Rightarrow> nat list \<Rightarrow> nat list \<Rightarrow> int \<times> nat list \<times> nat list" where
  "request_dispatch_loop maxRequests requests [] granted = (requests, [], granted)"
| "request_dispatch_loop maxRequests requests (w # ws) granted =
     (if requests < maxRequests
      then request_dispatch_loop maxRequests (requests + 1) ws (granted @ [w])
      else (requests, w # ws, granted))"

fun byte_dispatch_loop ::
  "int \<Rightarrow> int \<Rightarrow> byte_waiter list \<Rightarrow> byte_waiter list \<Rightarrow> int \<times> byte_waiter list \<times> byte_waiter list" where
  "byte_dispatch_loop maxBytes bytes [] granted = (bytes, [], granted)"
| "byte_dispatch_loop maxBytes bytes (w # ws) granted =
     (if snd w > maxBytes - bytes then (bytes, w # ws, granted)
      else byte_dispatch_loop maxBytes (bytes + snd w) ws (granted @ [w]))"

definition quota_dispatchLocked :: "pending_quota \<Rightarrow> pending_quota" where
  "quota_dispatchLocked q =
     (case request_dispatch_loop (pq_maxRequests q) (pq_requests q) (pq_requestWaiters q) (pq_grantedRequests q) of
        (requests, requestWaiters, grantedRequests) \<Rightarrow>
      (case byte_dispatch_loop (pq_maxBytes q) (pq_bytes q) (pq_byteWaiters q) (pq_grantedBytes q) of
        (bytes, byteWaiters, grantedBytes) \<Rightarrow>
          q\<lparr>pq_requests := requests, pq_requestWaiters := requestWaiters, pq_grantedRequests := grantedRequests,
            pq_bytes := bytes, pq_byteWaiters := byteWaiters, pq_grantedBytes := grantedBytes\<rparr>))"

definition quota_acquireRequest_enter ::
  "pending_quota \<Rightarrow> nat \<Rightarrow> bool \<Rightarrow> int \<Rightarrow> int \<Rightarrow> (sched_error, enter_result \<times> pending_quota) result" where
  "quota_acquireRequest_enter q w ctxErr now deadline =
     (if ctxErr then Inl ContextErr
      else if \<not> now < deadline then Inl (CapacityTimeoutError StagePendingRequest)
      else if pq_requests q < pq_maxRequests q \<and> length (pq_requestWaiters q) = 0
      then Inr (Entered, q\<lparr>pq_requests := pq_requests q + 1\<rparr>)
      else Inr (Queued, q\<lparr>pq_requestWaiters := pq_requestWaiters q @ [w]\<rparr>))"

definition quota_acquireRequest_abandon :: "pending_quota \<Rightarrow> nat \<Rightarrow> pending_quota" where
  "quota_acquireRequest_abandon q w =
     (if w \<in> set (pq_grantedRequests q)
      then quota_dispatchLocked (q\<lparr>pq_requests := pq_requests q - 1\<rparr>)
      else if w \<in> set (pq_requestWaiters q)
      then q\<lparr>pq_requestWaiters := remove1 w (pq_requestWaiters q)\<rparr>
      else q)"

definition quota_reserveBytes_enter ::
  "pending_quota \<Rightarrow> nat \<Rightarrow> int \<Rightarrow> bool \<Rightarrow> bool \<Rightarrow> int \<Rightarrow> int \<Rightarrow>
   (sched_error, enter_result \<times> pending_quota) result" where
  "quota_reserveBytes_enter q w count ctxErr lifecycleErr now deadline =
     (if count > pq_maxBytes q then Inl ErrPendingBytesTooLarge
      else if ctxErr then Inl ContextErr
      else if lifecycleErr then Inl LifecycleErr
      else if \<not> now < deadline then Inl (CapacityTimeoutError StagePendingBytes)
      else if count \<le> pq_maxBytes q - pq_bytes q \<and> length (pq_byteWaiters q) = 0
      then Inr (Entered, q\<lparr>pq_bytes := pq_bytes q + count\<rparr>)
      else Inr (Queued, q\<lparr>pq_byteWaiters := pq_byteWaiters q @ [(w, count)]\<rparr>))"

definition quota_reserveBytes_abandon :: "pending_quota \<Rightarrow> nat \<Rightarrow> int \<Rightarrow> pending_quota" where
  "quota_reserveBytes_abandon q w count =
     (if (w, count) \<in> set (pq_grantedBytes q)
      then quota_dispatchLocked (q\<lparr>pq_bytes := pq_bytes q - count\<rparr>)
      else if (w, count) \<in> set (pq_byteWaiters q)
      then q\<lparr>pq_byteWaiters := remove1 (w, count) (pq_byteWaiters q)\<rparr>
      else q)"

definition quota_releaseBytes :: "pending_quota \<Rightarrow> int \<Rightarrow> pending_quota" where
  "quota_releaseBytes q count =
     (let bytes = pq_bytes q - count
      in quota_dispatchLocked (q\<lparr>pq_bytes := (if bytes < 0 then 0 else bytes)\<rparr>))"

definition quota_releaseRequest :: "pending_quota \<Rightarrow> int \<Rightarrow> pending_quota" where
  "quota_releaseRequest q reservedBytes =
     (let requests = (if pq_requests q > 0 then pq_requests q - 1 else pq_requests q);
          bytes = pq_bytes q - reservedBytes
      in quota_dispatchLocked
           (q\<lparr>pq_requests := requests, pq_bytes := (if bytes < 0 then 0 else bytes)\<rparr>))"

definition quota_snapshot :: "pending_quota \<Rightarrow> int \<times> int \<times> int \<times> int \<times> int" where
  "quota_snapshot q =
     (pq_requests q, pq_bytes q, int (length (pq_requestWaiters q)), int (length (pq_byteWaiters q)),
      sum_list (map snd (pq_byteWaiters q)))"

lemma request_loop_prefix:
  "grant_prefix (\<lambda>_. 1) (m - n) ws = (g, r) \<Longrightarrow>
   request_dispatch_loop m n ws granted = (n + sum_list (map (\<lambda>_. 1) g), r, granted @ g)"
proof (induction m n ws granted arbitrary: g r rule: request_dispatch_loop.induct)
  case (2 m n w ws granted)
  obtain g' r' where "grant_prefix (\<lambda>_. 1) (m - n - 1) ws = (g', r')"
    by (cases "grant_prefix (\<lambda>_. 1) (m - n - 1) ws")
  with 2 show ?case by (cases "n < m") (auto simp: diff_diff_eq)
qed auto

lemma byte_loop_prefix:
  "grant_prefix snd (m - n) ws = (g, r) \<Longrightarrow>
   byte_dispatch_loop m n ws granted = (n + sum_list (map snd g), r, granted @ g)"
proof (induction m n ws granted arbitrary: g r rule: byte_dispatch_loop.induct)
  case (2 m n w ws granted)
  obtain g' r' where "grant_prefix snd (m - n - snd w) ws = (g', r')"
    by (cases "grant_prefix snd (m - n - snd w) ws")
  with 2 show ?case by (cases "snd w > m - n") (auto simp: diff_diff_eq)
qed auto

lemma request_loop_obtain:
  obtains g r where "grant_prefix (\<lambda>_. 1) (m - n) ws = (g, r)"
    "request_dispatch_loop m n ws granted = (n + sum_list (map (\<lambda>_. 1) g), r, granted @ g)"
  by (cases "grant_prefix (\<lambda>_. 1) (m - n) ws") (auto simp: request_loop_prefix)

lemma byte_loop_obtain:
  obtains g r where "grant_prefix snd (m - n) ws = (g, r)"
    "byte_dispatch_loop m n ws granted = (n + sum_list (map snd g), r, granted @ g)"
  by (cases "grant_prefix snd (m - n) ws") (auto simp: byte_loop_prefix)

interpretation req_queue: permit_queue pq_maxRequests pq_requests pq_requestWaiters pq_grantedRequests
  "\<lambda>_. 1" quota_dispatchLocked
proof unfold_locales
  fix s :: pending_quota and g r
  show "pq_maxRequests (quota_dispatchLocked s) = pq_maxRequests s"
    by (simp add: quota_dispatchLocked_def split: prod.splits)
  assume "grant_prefix (\<lambda>_. 1) (pq_maxRequests s - pq_requests s) (pq_requestWaiters s) = (g, r)"
  from request_loop_prefix [OF this, of "pq_grantedRequests s"]
  show "pq_requestWaiters (quota_dispatchLocked s) = r \<and>
    pq_grantedRequests (quota_dispatchLocked s) = pq_grantedRequests s @ g \<and>
    pq_requests (quota_dispatchLocked s) = pq_requests s + sum_list (map (\<lambda>_. 1) g)"
    by (simp add: quota_dispatchLocked_def split: prod.splits)
qed

interpretation byte_queue: permit_queue pq_maxBytes pq_bytes pq_byteWaiters pq_grantedBytes
  snd quota_dispatchLocked
proof unfold_locales
  fix s :: pending_quota and g r
  show "pq_maxBytes (quota_dispatchLocked s) = pq_maxBytes s"
    by (simp add: quota_dispatchLocked_def split: prod.splits)
  assume "grant_prefix snd (pq_maxBytes s - pq_bytes s) (pq_byteWaiters s) = (g, r)"
  from byte_loop_prefix [OF this, of "pq_grantedBytes s"]
  show "pq_byteWaiters (quota_dispatchLocked s) = r \<and>
    pq_grantedBytes (quota_dispatchLocked s) = pq_grantedBytes s @ g \<and>
    pq_bytes (quota_dispatchLocked s) = pq_bytes s + sum_list (map snd g)"
    by (simp add: quota_dispatchLocked_def split: prod.splits)
qed

section \<open>PendingRequest and JobLease\<close>

record pending_request =
  pr_lane :: lane
  pr_closed :: bool
  pr_reserved :: int

text \<open>A quota call that a method makes after it has released the request's own mutex.\<close>

datatype deferred = DeferBytes int | DeferRequest int

definition openError :: "pending_request \<Rightarrow> (sched_error, unit) result" where
  "openError p = (if pr_closed p then Inl ErrPendingRequestClosed else Inr ())"

text \<open>\<open>ReserveBytes\<close>: the checks (\<open>True\<close> if the quota must be asked), and the part after the quota
  has granted the bytes.\<close>

definition ReserveBytes_begin :: "int \<Rightarrow> pending_request \<Rightarrow> int \<Rightarrow> (sched_error, bool) result" where
  "ReserveBytes_begin maxPendingBytes p count =
     (if count < 0 then Inl ErrInvalidByteCount
      else if count = 0 then (case openError p of Inl e \<Rightarrow> Inl e | Inr _ \<Rightarrow> Inr False)
      else if pr_closed p then Inl ErrPendingRequestClosed
      else if count > maxPendingBytes - pr_reserved p then Inl ErrPendingBytesTooLarge
      else Inr True)"

definition ReserveBytes_commit ::
  "pending_request \<Rightarrow> int \<Rightarrow> pending_request \<times> deferred list \<times> (sched_error, unit) result" where
  "ReserveBytes_commit p count =
     (if pr_closed p then (p, [DeferBytes count], Inl ErrPendingRequestClosed)
      else (p\<lparr>pr_reserved := pr_reserved p + count\<rparr>, [], Inr ()))"

definition ReleaseBytes ::
  "pending_request \<Rightarrow> int \<Rightarrow> (sched_error, pending_request \<times> deferred list) result" where
  "ReleaseBytes p count =
     (if count < 0 then Inl ErrInvalidByteCount
      else if count = 0 then (case openError p of Inl e \<Rightarrow> Inl e | Inr _ \<Rightarrow> Inr (p, []))
      else if pr_closed p then Inl ErrPendingRequestClosed
      else if count > pr_reserved p then Inl ErrInvalidByteCount
      else Inr (p\<lparr>pr_reserved := pr_reserved p - count\<rparr>, [DeferBytes count]))"

definition handoff ::
  "pending_request \<Rightarrow> bool \<Rightarrow> (sched_error, pending_request \<times> deferred list \<times> int) result" where
  "handoff p retainBytes =
     (if pr_closed p then Inl ErrPendingRequestClosed
      else let reserved = pr_reserved p; p' = p\<lparr>pr_closed := True, pr_reserved := 0\<rparr>
           in if retainBytes then Inr (p', [], reserved)
              else Inr (p', [DeferBytes reserved], 0))"

definition finish :: "pending_request \<Rightarrow> pending_request \<times> deferred list" where
  "finish p =
     (if pr_closed p then (p, [])
      else (p\<lparr>pr_closed := True, pr_reserved := 0\<rparr>, [DeferRequest (pr_reserved p)]))"

fun run_deferred :: "deferred \<Rightarrow> pending_quota \<Rightarrow> pending_quota" where
  "run_deferred (DeferBytes n) q = quota_releaseBytes q n"
| "run_deferred (DeferRequest n) q = quota_releaseRequest q n"

section \<open>All clients of one quota\<close>

record pending_sys =
  ps_quota :: pending_quota
  ps_pending :: "pending_request list"
  ps_jobs :: "int option list"
  ps_uncommitted :: "byte_waiter list"
  ps_deferred :: "deferred list"

definition pending_init :: "int \<Rightarrow> int \<Rightarrow> pending_sys" where
  "pending_init maxRequests maxBytes =
     \<lparr>ps_quota = newPendingQuota maxRequests maxBytes, ps_pending = [], ps_jobs = [],
      ps_uncommitted = [], ps_deferred = []\<rparr>"

text \<open>\<open>opMu\<close> serialises the operations of one pending request, so at most one byte reservation of
  it is under way.\<close>

definition op_free :: "pending_sys \<Rightarrow> nat \<Rightarrow> bool" where
  "op_free s i \<longleftrightarrow>
     i \<notin> fst ` set (pq_byteWaiters (ps_quota s) @ pq_grantedBytes (ps_quota s) @ ps_uncommitted s)"

inductive pending_step :: "pending_sys \<Rightarrow> pending_sys \<Rightarrow> bool" where
  admit: "lane_valid ln \<Longrightarrow> quota_acquireRequest_enter (ps_quota s) w False now dl = Inr (Entered, q) \<Longrightarrow>
    pending_step s (s\<lparr>ps_quota := q,
      ps_pending := ps_pending s @ [\<lparr>pr_lane = ln, pr_closed = False, pr_reserved = 0\<rparr>]\<rparr>)"
| admit_queue: "w \<notin> set (pq_requestWaiters (ps_quota s) @ pq_grantedRequests (ps_quota s)) \<Longrightarrow>
    quota_acquireRequest_enter (ps_quota s) w False now dl = Inr (Queued, q) \<Longrightarrow>
    pending_step s (s\<lparr>ps_quota := q\<rparr>)"
| admit_wake: "w \<in> set (pq_grantedRequests (ps_quota s)) \<Longrightarrow> lane_valid ln \<Longrightarrow>
    pending_step s (s\<lparr>ps_quota := (ps_quota s)\<lparr>pq_grantedRequests := remove1 w (pq_grantedRequests (ps_quota s))\<rparr>,
      ps_pending := ps_pending s @ [\<lparr>pr_lane = ln, pr_closed = False, pr_reserved = 0\<rparr>]\<rparr>)"
| admit_abandon_granted: "w \<in> set (pq_grantedRequests (ps_quota s)) \<Longrightarrow>
    q = quota_acquireRequest_abandon (ps_quota s) w \<Longrightarrow>
    pending_step s (s\<lparr>ps_quota := q\<lparr>pq_grantedRequests := remove1 w (pq_grantedRequests q)\<rparr>\<rparr>)"
| admit_abandon_queued: "w \<notin> set (pq_grantedRequests (ps_quota s)) \<Longrightarrow>
    pending_step s (s\<lparr>ps_quota := quota_acquireRequest_abandon (ps_quota s) w\<rparr>)"
| reserve: "i < length (ps_pending s) \<Longrightarrow> op_free s i \<Longrightarrow>
    ReserveBytes_begin (pq_maxBytes (ps_quota s)) (ps_pending s ! i) n = Inr True \<Longrightarrow>
    quota_reserveBytes_enter (ps_quota s) i n False False now dl = Inr (Entered, q) \<Longrightarrow>
    pending_step s (s\<lparr>ps_quota := q, ps_uncommitted := (i, n) # ps_uncommitted s\<rparr>)"
| reserve_queue: "i < length (ps_pending s) \<Longrightarrow> op_free s i \<Longrightarrow>
    ReserveBytes_begin (pq_maxBytes (ps_quota s)) (ps_pending s ! i) n = Inr True \<Longrightarrow>
    quota_reserveBytes_enter (ps_quota s) i n False False now dl = Inr (Queued, q) \<Longrightarrow>
    pending_step s (s\<lparr>ps_quota := q\<rparr>)"
| reserve_wake: "(i, n) \<in> set (pq_grantedBytes (ps_quota s)) \<Longrightarrow>
    pending_step s (s\<lparr>ps_quota := (ps_quota s)\<lparr>pq_grantedBytes := remove1 (i, n) (pq_grantedBytes (ps_quota s))\<rparr>,
      ps_uncommitted := (i, n) # ps_uncommitted s\<rparr>)"
| reserve_abandon_granted: "(i, n) \<in> set (pq_grantedBytes (ps_quota s)) \<Longrightarrow>
    q = quota_reserveBytes_abandon (ps_quota s) i n \<Longrightarrow>
    pending_step s (s\<lparr>ps_quota := q\<lparr>pq_grantedBytes := remove1 (i, n) (pq_grantedBytes q)\<rparr>\<rparr>)"
| reserve_abandon_queued: "(i, n) \<notin> set (pq_grantedBytes (ps_quota s)) \<Longrightarrow>
    pending_step s (s\<lparr>ps_quota := quota_reserveBytes_abandon (ps_quota s) i n\<rparr>)"
| reserve_commit: "(i, n) \<in> set (ps_uncommitted s) \<Longrightarrow> i < length (ps_pending s) \<Longrightarrow>
    ReserveBytes_commit (ps_pending s ! i) n = (p, ds, res) \<Longrightarrow>
    pending_step s (s\<lparr>ps_pending := (ps_pending s)[i := p], ps_deferred := ds @ ps_deferred s,
      ps_uncommitted := remove1 (i, n) (ps_uncommitted s)\<rparr>)"
| release_bytes: "i < length (ps_pending s) \<Longrightarrow> op_free s i \<Longrightarrow> ReleaseBytes (ps_pending s ! i) n = Inr (p, ds) \<Longrightarrow>
    pending_step s (s\<lparr>ps_pending := (ps_pending s)[i := p], ps_deferred := ds @ ps_deferred s\<rparr>)"
| handoff: "i < length (ps_pending s) \<Longrightarrow> op_free s i \<Longrightarrow> handoff (ps_pending s ! i) retain = Inr (p, ds, kept) \<Longrightarrow>
    pending_step s (s\<lparr>ps_pending := (ps_pending s)[i := p], ps_deferred := ds @ ps_deferred s,
      ps_jobs := ps_jobs s @ [Some kept]\<rparr>)"
| finish: "i < length (ps_pending s) \<Longrightarrow> finish (ps_pending s ! i) = (p, ds) \<Longrightarrow>
    pending_step s (s\<lparr>ps_pending := (ps_pending s)[i := p], ps_deferred := ds @ ps_deferred s\<rparr>)"
| run_deferred: "d \<in> set (ps_deferred s) \<Longrightarrow>
    pending_step s (s\<lparr>ps_quota := run_deferred d (ps_quota s), ps_deferred := remove1 d (ps_deferred s)\<rparr>)"
| job_release: "j < length (ps_jobs s) \<Longrightarrow> ps_jobs s ! j = Some kept \<Longrightarrow>
    pending_step s (s\<lparr>ps_quota := quota_releaseRequest (ps_quota s) kept, ps_jobs := (ps_jobs s)[j := None]\<rparr>)"

inductive pending_reachable :: "int \<Rightarrow> int \<Rightarrow> pending_sys \<Rightarrow> bool" for maxRequests maxBytes where
  init: "pending_reachable maxRequests maxBytes (pending_init maxRequests maxBytes)"
| step: "pending_reachable maxRequests maxBytes s \<Longrightarrow> pending_step s t \<Longrightarrow> pending_reachable maxRequests maxBytes t"

section \<open>Accounting\<close>

fun deferred_bytes :: "deferred \<Rightarrow> int" where
  "deferred_bytes (DeferBytes n) = n"
| "deferred_bytes (DeferRequest n) = n"

fun deferred_slots :: "deferred \<Rightarrow> int" where
  "deferred_slots (DeferBytes n) = 0"
| "deferred_slots (DeferRequest n) = 1"

definition job_bytes :: "int option \<Rightarrow> int" where
  "job_bytes j = (case j of None \<Rightarrow> 0 | Some n \<Rightarrow> n)"

definition job_slots :: "int option \<Rightarrow> int" where
  "job_slots j = (case j of None \<Rightarrow> 0 | Some n \<Rightarrow> 1)"

definition open_slots :: "pending_request \<Rightarrow> int" where
  "open_slots p = (if pr_closed p then 0 else 1)"

definition held_bytes :: "pending_sys \<Rightarrow> int" where
  "held_bytes s = sum_list (map pr_reserved (ps_pending s)) + sum_list (map job_bytes (ps_jobs s)) +
     sum_list (map snd (ps_uncommitted s)) + sum_list (map deferred_bytes (ps_deferred s))"

definition held_slots :: "pending_sys \<Rightarrow> int" where
  "held_slots s = sum_list (map open_slots (ps_pending s)) + sum_list (map job_slots (ps_jobs s)) +
     sum_list (map deferred_slots (ps_deferred s))"

definition byte_debt :: "pending_quota \<Rightarrow> int" where
  "byte_debt q = pq_bytes q - sum_list (map snd (pq_grantedBytes q))"

definition slot_debt :: "pending_quota \<Rightarrow> int" where
  "slot_debt q = pq_requests q - int (length (pq_grantedRequests q))"

definition quota_ok :: "pending_quota \<Rightarrow> bool" where
  "quota_ok q \<longleftrightarrow> pq_requests q \<le> pq_maxRequests q \<and> pq_bytes q \<le> pq_maxBytes q \<and>
     (\<forall>w \<in> set (pq_byteWaiters q @ pq_grantedBytes q). 0 \<le> snd w) \<and>
     (pq_requestWaiters q \<noteq> [] \<longrightarrow> pq_requests q = pq_maxRequests q)"

text \<open>The effect of a quota operation: it changes the two debts by given amounts and keeps the
  limits and \<open>quota_ok\<close>.\<close>

definition quota_effect :: "pending_quota \<Rightarrow> pending_quota \<Rightarrow> int \<Rightarrow> int \<Rightarrow> bool" where
  "quota_effect q q' dslots dbytes \<longleftrightarrow> quota_ok q' \<and> slot_debt q' = slot_debt q + dslots \<and>
     byte_debt q' = byte_debt q + dbytes \<and> pq_maxRequests q' = pq_maxRequests q \<and> pq_maxBytes q' = pq_maxBytes q"

lemma dispatch_effect:
  assumes "pq_requests q \<le> pq_maxRequests q" "pq_bytes q \<le> pq_maxBytes q"
    and "\<forall>w \<in> set (pq_byteWaiters q @ pq_grantedBytes q). 0 \<le> snd w"
  shows "quota_effect q (quota_dispatchLocked q) 0 0"
proof -
  obtain g where g: "pq_grantedRequests (quota_dispatchLocked q) = pq_grantedRequests q @ g"
    "pq_requests (quota_dispatchLocked q) = pq_requests q + sum_list (map (\<lambda>_. 1) g)"
    by (rule req_queue.dispatch_obtain [of q])
  obtain b where b: "pq_byteWaiters q = b @ pq_byteWaiters (quota_dispatchLocked q)"
    "pq_grantedBytes (quota_dispatchLocked q) = pq_grantedBytes q @ b"
    "pq_bytes (quota_dispatchLocked q) = pq_bytes q + sum_list (map snd b)"
    by (rule byte_queue.dispatch_obtain [of q])
  have "set (pq_byteWaiters (quota_dispatchLocked q) @ pq_grantedBytes (quota_dispatchLocked q)) =
      set (pq_byteWaiters q @ pq_grantedBytes q)"
    unfolding b(1,2) by auto
  moreover have "pq_requestWaiters (quota_dispatchLocked q) \<noteq> [] \<Longrightarrow>
      pq_requests (quota_dispatchLocked q) = pq_maxRequests (quota_dispatchLocked q)"
    using req_queue.dispatch_blocked [of q] req_queue.dispatch_bound [OF assms(1)] by linarith
  ultimately show ?thesis
    using assms(3) g b(2,3) req_queue.dispatch_bound [OF assms(1)] byte_queue.dispatch_bound [OF assms(2)]
    unfolding quota_effect_def quota_ok_def slot_debt_def byte_debt_def
    by (simp add: req_queue.dispatch_cap byte_queue.dispatch_cap sum_list_ones)
qed

lemmas effect_defs = quota_effect_def quota_ok_def slot_debt_def byte_debt_def

lemma dispatch_effect_shift:
  assumes "quota_ok q" "q' = q\<lparr>pq_requests := r, pq_bytes := b, pq_grantedRequests := gr, pq_grantedBytes := gb\<rparr>"
    and "r \<le> pq_maxRequests q" "b \<le> pq_maxBytes q" "set gb \<subseteq> set (pq_grantedBytes q)"
    and "r - int (length gr) = slot_debt q + dslots" "b - sum_list (map snd gb) = byte_debt q + dbytes"
  shows "quota_effect q (quota_dispatchLocked q') dslots dbytes"
proof -
  have "quota_effect q' (quota_dispatchLocked q') 0 0"
    using assms by (intro dispatch_effect) (auto simp: quota_ok_def)
  with assms show ?thesis by (simp add: quota_effect_def slot_debt_def byte_debt_def)
qed

lemma releaseBytes_effect:
  assumes "quota_ok q" "0 \<le> n" "n \<le> byte_debt q"
  shows "quota_effect q (quota_releaseBytes q n) 0 (- n)"
proof -
  have "0 \<le> sum_list (map snd (pq_grantedBytes q))"
    using assms(1) by (intro sum_list_map_nonneg) (auto simp: quota_ok_def)
  with assms have "\<not> pq_bytes q - n < 0" by (simp add: byte_debt_def)
  then have "quota_releaseBytes q n = quota_dispatchLocked (q\<lparr>pq_bytes := pq_bytes q - n\<rparr>)"
    by (simp add: quota_releaseBytes_def)
  also have "quota_effect q \<dots> 0 (- n)"
    using assms by (intro dispatch_effect_shift [OF assms(1), where r = "pq_requests q" and
        b = "pq_bytes q - n" and gr = "pq_grantedRequests q" and gb = "pq_grantedBytes q"])
      (auto simp: quota_ok_def slot_debt_def byte_debt_def)
  finally show ?thesis .
qed

lemma releaseRequest_effect:
  assumes "quota_ok q" "0 \<le> n" "n \<le> byte_debt q" "0 < slot_debt q"
  shows "quota_effect q (quota_releaseRequest q n) (- 1) (- n)"
proof -
  have "0 \<le> sum_list (map snd (pq_grantedBytes q))"
    using assms(1) by (intro sum_list_map_nonneg) (auto simp: quota_ok_def)
  with assms have "\<not> pq_bytes q - n < 0" "pq_requests q > 0" by (simp_all add: byte_debt_def slot_debt_def)
  then have "quota_releaseRequest q n =
      quota_dispatchLocked (q\<lparr>pq_requests := pq_requests q - 1, pq_bytes := pq_bytes q - n\<rparr>)"
    by (simp add: quota_releaseRequest_def)
  also have "quota_effect q \<dots> (- 1) (- n)"
    using assms by (intro dispatch_effect_shift [OF assms(1), where r = "pq_requests q - 1" and
        b = "pq_bytes q - n" and gr = "pq_grantedRequests q" and gb = "pq_grantedBytes q"])
      (auto simp: quota_ok_def slot_debt_def byte_debt_def)
  finally show ?thesis .
qed

text \<open>The waiter that abandons a grant leaves the granted list; dispatching does not look at it.\<close>

lemma request_loop_frame:
  "request_dispatch_loop m n ws (xs @ gs) =
     (case request_dispatch_loop m n ws gs of (n', ws', gs') \<Rightarrow> (n', ws', xs @ gs'))"
  by (induction m n ws gs rule: request_dispatch_loop.induct) auto

lemma byte_loop_frame:
  "byte_dispatch_loop m n ws (xs @ gs) =
     (case byte_dispatch_loop m n ws gs of (n', ws', gs') \<Rightarrow> (n', ws', xs @ gs'))"
  by (induction m n ws gs rule: byte_dispatch_loop.induct) auto

lemma request_loop_forget:
  "w \<in> set gs \<Longrightarrow> request_dispatch_loop m n ws gs = (n', ws', gs') \<Longrightarrow>
   request_dispatch_loop m n ws (remove1 w gs) = (n', ws', remove1 w gs')"
  using request_loop_frame [of m n ws gs "[]"] request_loop_frame [of m n ws "remove1 w gs" "[]"]
  by (auto simp: remove1_append split: prod.splits)

lemma byte_loop_forget:
  "w \<in> set gs \<Longrightarrow> byte_dispatch_loop m n ws gs = (n', ws', gs') \<Longrightarrow>
   byte_dispatch_loop m n ws (remove1 w gs) = (n', ws', remove1 w gs')"
  using byte_loop_frame [of m n ws gs "[]"] byte_loop_frame [of m n ws "remove1 w gs" "[]"]
  by (auto simp: remove1_append split: prod.splits)

lemma acquireRequest_abandon_granted:
  assumes "w \<in> set (pq_grantedRequests q)" "q' = quota_acquireRequest_abandon q w"
  shows "q'\<lparr>pq_grantedRequests := remove1 w (pq_grantedRequests q')\<rparr> =
    quota_dispatchLocked (q\<lparr>pq_requests := pq_requests q - 1, pq_bytes := pq_bytes q,
      pq_grantedRequests := remove1 w (pq_grantedRequests q), pq_grantedBytes := pq_grantedBytes q\<rparr>)"
  using assms request_loop_forget [OF assms(1)]
  by (auto simp: quota_acquireRequest_abandon_def quota_dispatchLocked_def split: prod.splits)

lemma reserveBytes_abandon_granted:
  assumes "(w, n) \<in> set (pq_grantedBytes q)" "q' = quota_reserveBytes_abandon q w n"
  shows "q'\<lparr>pq_grantedBytes := remove1 (w, n) (pq_grantedBytes q')\<rparr> =
    quota_dispatchLocked (q\<lparr>pq_requests := pq_requests q, pq_bytes := pq_bytes q - n,
      pq_grantedRequests := pq_grantedRequests q, pq_grantedBytes := remove1 (w, n) (pq_grantedBytes q)\<rparr>)"
  using assms byte_loop_forget [OF assms(1)]
  by (auto simp: quota_reserveBytes_abandon_def quota_dispatchLocked_def split: prod.splits)

lemma acquireRequest_abandon_effect:
  assumes "quota_ok q" "w \<in> set (pq_grantedRequests q)" "q' = quota_acquireRequest_abandon q w"
  shows "quota_effect q (q'\<lparr>pq_grantedRequests := remove1 w (pq_grantedRequests q')\<rparr>) 0 0"
  unfolding acquireRequest_abandon_granted [OF assms(2,3)]
  using assms by (intro dispatch_effect_shift [OF assms(1) refl])
    (auto simp: quota_ok_def slot_debt_def byte_debt_def length_remove1_int)

lemma granted_bytes_nonneg: "quota_ok q \<Longrightarrow> u \<in> set (pq_grantedBytes q) \<Longrightarrow> 0 \<le> snd u"
  unfolding quota_ok_def set_append by (meson UnCI)

lemma reserveBytes_abandon_effect:
  assumes "quota_ok q" "(w, n) \<in> set (pq_grantedBytes q)" "q' = quota_reserveBytes_abandon q w n"
  shows "quota_effect q (q'\<lparr>pq_grantedBytes := remove1 (w, n) (pq_grantedBytes q')\<rparr>) 0 0"
proof -
  have "0 \<le> n" using granted_bytes_nonneg [OF assms(1,2)] by simp
  with assms show ?thesis
    unfolding reserveBytes_abandon_granted [OF assms(2,3)]
    by (intro dispatch_effect_shift [OF assms(1) refl])
      (auto simp: quota_ok_def slot_debt_def byte_debt_def sum_list_map_remove1_int
        dest: set_remove1_subset [THEN subsetD])
qed

definition pending_inv :: "pending_sys \<Rightarrow> bool" where
  "pending_inv s \<longleftrightarrow> quota_ok (ps_quota s) \<and>
     byte_debt (ps_quota s) = held_bytes s \<and> slot_debt (ps_quota s) = held_slots s \<and>
     (\<forall>p \<in> set (ps_pending s). 0 \<le> pr_reserved p \<and> (pr_closed p \<longrightarrow> pr_reserved p = 0)) \<and>
     (\<forall>j \<in> set (ps_jobs s). 0 \<le> job_bytes j) \<and>
     (\<forall>u \<in> set (ps_uncommitted s). 0 \<le> snd u) \<and>
     (\<forall>d \<in> set (ps_deferred s). 0 \<le> deferred_bytes d)"

lemma pending_inv_nonneg:
  assumes "pending_inv s"
  shows "0 \<le> sum_list (map pr_reserved (ps_pending s))" "0 \<le> sum_list (map job_bytes (ps_jobs s))"
    "0 \<le> sum_list (map snd (ps_uncommitted s))" "0 \<le> sum_list (map deferred_bytes (ps_deferred s))"
    "0 \<le> sum_list (map open_slots (ps_pending s))" "0 \<le> sum_list (map job_slots (ps_jobs s))"
    "0 \<le> sum_list (map deferred_slots (ps_deferred s))"
proof -
  have "0 \<le> open_slots p" "0 \<le> job_slots j" "0 \<le> deferred_slots d" for p j d
    by (simp_all add: open_slots_def job_slots_def split: option.splits, cases d) simp_all
  then show "0 \<le> sum_list (map open_slots (ps_pending s))" "0 \<le> sum_list (map job_slots (ps_jobs s))"
    "0 \<le> sum_list (map deferred_slots (ps_deferred s))" by (auto intro: sum_list_map_nonneg)
qed (use assms in \<open>auto simp: pending_inv_def intro: sum_list_map_nonneg\<close>)

lemma pending_inv_effect:
  assumes "pending_inv s" "quota_effect (ps_quota s) q dslots dbytes" "ps_quota t = q"
    and "held_slots t = held_slots s + dslots" "held_bytes t = held_bytes s + dbytes"
    and "\<forall>p \<in> set (ps_pending t). 0 \<le> pr_reserved p \<and> (pr_closed p \<longrightarrow> pr_reserved p = 0)"
    and "\<forall>j \<in> set (ps_jobs t). 0 \<le> job_bytes j" "\<forall>u \<in> set (ps_uncommitted t). 0 \<le> snd u"
    and "\<forall>d \<in> set (ps_deferred t). 0 \<le> deferred_bytes d"
  shows "pending_inv t"
  using assms by (simp add: pending_inv_def quota_effect_def)

lemma quota_effect_refl: "quota_ok q \<Longrightarrow> quota_effect q q 0 0"
  by (simp add: quota_effect_def)

lemma acquireRequest_enter_effect:
  assumes "quota_ok q" "quota_acquireRequest_enter q w c now dl = Inr (r, q')"
  shows "quota_effect q q' (if r = Entered then 1 else 0) 0"
  using assms by (auto simp: quota_acquireRequest_enter_def effect_defs split: if_splits)

lemma reserveBytes_enter_effect:
  assumes "quota_ok q" "0 \<le> n" "quota_reserveBytes_enter q w n c c' now dl = Inr (r, q')"
  shows "quota_effect q q' 0 (if r = Entered then n else 0)"
  using assms by (auto simp: quota_reserveBytes_enter_def effect_defs split: if_splits)

lemma wake_request_effect:
  assumes "quota_ok q" "w \<in> set (pq_grantedRequests q)"
  shows "quota_effect q (q\<lparr>pq_grantedRequests := remove1 w (pq_grantedRequests q)\<rparr>) 1 0"
  using assms by (auto simp: effect_defs length_remove1_int)

lemma wake_bytes_effect:
  assumes "quota_ok q" "u \<in> set (pq_grantedBytes q)"
  shows "quota_effect q (q\<lparr>pq_grantedBytes := remove1 u (pq_grantedBytes q)\<rparr>) 0 (snd u)"
  using assms by (auto simp: effect_defs sum_list_map_remove1_int dest: set_remove1_subset [THEN subsetD])

lemma abandon_queued_effect:
  "quota_ok q \<Longrightarrow> w \<notin> set (pq_grantedRequests q) \<Longrightarrow> quota_effect q (quota_acquireRequest_abandon q w) 0 0"
  "quota_ok q \<Longrightarrow> (i, n) \<notin> set (pq_grantedBytes q) \<Longrightarrow> quota_effect q (quota_reserveBytes_abandon q i n) 0 0"
  by (auto simp: quota_acquireRequest_abandon_def quota_reserveBytes_abandon_def effect_defs
      dest: set_remove1_subset [THEN subsetD])

lemma deferred_effect:
  assumes "pending_inv s" "d \<in> set (ps_deferred s)"
  shows "quota_effect (ps_quota s) (run_deferred d (ps_quota s)) (- deferred_slots d) (- deferred_bytes d)"
proof -
  have ok: "quota_ok (ps_quota s)" and d0: "0 \<le> deferred_bytes d"
    using assms by (auto simp: pending_inv_def)
  have "deferred_bytes d \<le> sum_list (map deferred_bytes (ps_deferred s))"
    using assms by (intro sum_list_map_member_le) (auto simp: pending_inv_def)
  then have bytes: "deferred_bytes d \<le> byte_debt (ps_quota s)"
    using assms(1) pending_inv_nonneg [OF assms(1)] by (simp add: pending_inv_def held_bytes_def)
  have pos: "0 \<le> deferred_slots d" for d by (cases d) auto
  have "deferred_slots d \<le> sum_list (map deferred_slots (ps_deferred s))"
    using assms(2) pos by (intro sum_list_map_member_le)
  then have slots: "deferred_slots d \<le> slot_debt (ps_quota s)"
    using assms(1) pending_inv_nonneg [OF assms(1)] by (simp add: pending_inv_def held_slots_def)
  show ?thesis
    using ok d0 bytes slots by (cases d) (auto intro: releaseBytes_effect releaseRequest_effect)
qed

lemma job_release_effect:
  assumes "pending_inv s" "j < length (ps_jobs s)" "ps_jobs s ! j = Some n"
  shows "quota_effect (ps_quota s) (quota_releaseRequest (ps_quota s) n) (- 1) (- n)"
proof (rule releaseRequest_effect)
  have mem: "Some n \<in> set (ps_jobs s)" using assms(2,3) nth_mem by metis
  then show "0 \<le> n" using assms(1) by (force simp: pending_inv_def job_bytes_def)
  have "job_bytes (Some n) \<le> sum_list (map job_bytes (ps_jobs s))"
    using assms(1) mem by (intro sum_list_map_member_le) (auto simp: pending_inv_def)
  then show "n \<le> byte_debt (ps_quota s)"
    using assms(1) pending_inv_nonneg [OF assms(1)]
    by (simp add: pending_inv_def held_bytes_def job_bytes_def)
  have "job_slots (Some n) \<le> sum_list (map job_slots (ps_jobs s))"
    using mem by (intro sum_list_map_member_le) (auto simp: job_slots_def split: option.splits)
  then show "0 < slot_debt (ps_quota s)"
    using assms(1) pending_inv_nonneg [OF assms(1)]
    by (simp add: pending_inv_def held_slots_def job_slots_def)
qed (use assms(1) in \<open>simp add: pending_inv_def\<close>)

lemmas held_defs = held_bytes_def held_slots_def open_slots_def job_bytes_def job_slots_def

lemma all_list_update: "\<forall>x \<in> set xs. P x \<Longrightarrow> P v \<Longrightarrow> \<forall>x \<in> set (xs[i := v]). P x"
  using set_update_subset_insert [of xs i v] by auto

text \<open>A method that moves holdings between a pending request, a job and deferred calls.\<close>

lemma pending_move_inv:
  assumes inv: "pending_inv s" and i: "i < length (ps_pending s)"
    and t: "ps_quota t = ps_quota s" "ps_pending t = (ps_pending s)[i := p]" "ps_jobs t = ps_jobs s @ js"
      "ps_deferred t = ds @ ps_deferred s" "set (ps_uncommitted t) \<subseteq> set (ps_uncommitted s)"
    and p: "0 \<le> pr_reserved p" "pr_closed p \<longrightarrow> pr_reserved p = 0"
    and pos: "\<forall>j \<in> set js. 0 \<le> job_bytes j" "\<forall>d \<in> set ds. 0 \<le> deferred_bytes d"
    and bytes: "pr_reserved p + sum_list (map job_bytes js) + sum_list (map deferred_bytes ds) +
        sum_list (map snd (ps_uncommitted t)) =
      pr_reserved (ps_pending s ! i) + sum_list (map snd (ps_uncommitted s))"
    and slots: "open_slots p + sum_list (map job_slots js) + sum_list (map deferred_slots ds) =
      open_slots (ps_pending s ! i)"
  shows "pending_inv t"
proof (rule pending_inv_effect [OF inv quota_effect_refl t(1)])
  show "held_slots t = held_slots s + 0" "held_bytes t = held_bytes s + 0"
    using bytes slots i by (simp_all add: held_slots_def held_bytes_def t sum_list_map_update)
  show "\<forall>q \<in> set (ps_pending t). 0 \<le> pr_reserved q \<and> (pr_closed q \<longrightarrow> pr_reserved q = 0)"
    unfolding t(2) using inv p by (intro all_list_update) (auto simp: pending_inv_def)
qed (use inv t pos in \<open>auto simp: pending_inv_def\<close>)

lemma ReleaseBytes_moves:
  assumes "ReleaseBytes p n = Inr (p', ds)" "0 \<le> pr_reserved p"
  shows "\<not> pr_closed p \<and> \<not> pr_closed p' \<and> 0 \<le> pr_reserved p' \<and>
    pr_reserved p' + sum_list (map deferred_bytes ds) = pr_reserved p \<and>
    sum_list (map deferred_slots ds) = 0 \<and> (\<forall>d \<in> set ds. 0 \<le> deferred_bytes d)"
  using assms by (auto simp: ReleaseBytes_def openError_def split: if_splits)

lemma handoff_moves:
  assumes "handoff p retain = Inr (p', ds, kept)" "0 \<le> pr_reserved p"
  shows "\<not> pr_closed p \<and> pr_closed p' \<and> pr_reserved p' = 0 \<and> 0 \<le> kept \<and>
    kept + sum_list (map deferred_bytes ds) = pr_reserved p \<and>
    sum_list (map deferred_slots ds) = 0 \<and> (\<forall>d \<in> set ds. 0 \<le> deferred_bytes d)"
  using assms by (auto simp: handoff_def Let_def split: if_splits)

lemma finish_moves:
  assumes "finish p = (p', ds)" "0 \<le> pr_reserved p" "pr_closed p \<longrightarrow> pr_reserved p = 0"
  shows "pr_closed p' \<and> pr_reserved p' = 0 \<and> sum_list (map deferred_bytes ds) = pr_reserved p \<and>
    sum_list (map deferred_slots ds) = open_slots p \<and> (\<forall>d \<in> set ds. 0 \<le> deferred_bytes d)"
  using assms by (auto simp: finish_def open_slots_def split: if_splits)

lemma pending_request_ok:
  "pending_inv s \<Longrightarrow> i < length (ps_pending s) \<Longrightarrow>
   0 \<le> pr_reserved (ps_pending s ! i) \<and> (pr_closed (ps_pending s ! i) \<longrightarrow> pr_reserved (ps_pending s ! i) = 0)"
  by (simp add: pending_inv_def)

lemma pending_step_inv: "pending_step s t \<Longrightarrow> pending_inv s \<Longrightarrow> pending_inv t"
proof (induction rule: pending_step.induct)
  case (admit ln s w now dl q)
  then have eff: "quota_effect (ps_quota s) q 1 0"
    using acquireRequest_enter_effect [of "ps_quota s" w False now dl Entered q]
    by (simp add: pending_inv_def)
  show ?case
    using admit.prems by (intro pending_inv_effect [OF admit.prems eff]) (auto simp: pending_inv_def held_defs)
next
  case (admit_queue w s now dl q)
  then have eff: "quota_effect (ps_quota s) q 0 0"
    using acquireRequest_enter_effect [of "ps_quota s" w False now dl Queued q]
    by (simp add: pending_inv_def)
  show ?case
    using admit_queue.prems by (intro pending_inv_effect [OF admit_queue.prems eff]) (auto simp: pending_inv_def held_bytes_def held_slots_def)
next
  case (admit_wake w s ln)
  then have eff: "quota_effect (ps_quota s)
      ((ps_quota s)\<lparr>pq_grantedRequests := remove1 w (pq_grantedRequests (ps_quota s))\<rparr>) 1 0"
    by (intro wake_request_effect) (simp_all add: pending_inv_def)
  show ?case
    using admit_wake.prems by (intro pending_inv_effect [OF admit_wake.prems eff]) (auto simp: pending_inv_def held_defs)
next
  case (admit_abandon_granted w s q)
  then have eff: "quota_effect (ps_quota s) (q\<lparr>pq_grantedRequests := remove1 w (pq_grantedRequests q)\<rparr>) 0 0"
    by (intro acquireRequest_abandon_effect) (simp_all add: pending_inv_def)
  show ?case
    using admit_abandon_granted.prems by (intro pending_inv_effect [OF admit_abandon_granted.prems eff]) (auto simp: pending_inv_def held_bytes_def held_slots_def)
next
  case (admit_abandon_queued w s)
  then have eff: "quota_effect (ps_quota s) (quota_acquireRequest_abandon (ps_quota s) w) 0 0"
    by (intro abandon_queued_effect) (simp_all add: pending_inv_def)
  show ?case
    using admit_abandon_queued.prems by (intro pending_inv_effect [OF admit_abandon_queued.prems eff]) (auto simp: pending_inv_def held_bytes_def held_slots_def)
next
  case (reserve i s n now dl q)
  then have n: "0 \<le> n" by (auto simp: ReserveBytes_begin_def openError_def split: if_splits)
  with reserve have eff: "quota_effect (ps_quota s) q 0 n"
    using reserveBytes_enter_effect [of "ps_quota s" n i False False now dl Entered q]
    by (simp add: pending_inv_def)
  show ?case
    using reserve.prems n by (intro pending_inv_effect [OF reserve.prems eff]) (auto simp: pending_inv_def held_bytes_def held_slots_def)
next
  case (reserve_queue i s n now dl q)
  then have n: "0 \<le> n" by (auto simp: ReserveBytes_begin_def openError_def split: if_splits)
  with reserve_queue have eff: "quota_effect (ps_quota s) q 0 0"
    using reserveBytes_enter_effect [of "ps_quota s" n i False False now dl Queued q]
    by (simp add: pending_inv_def)
  show ?case
    using reserve_queue.prems by (intro pending_inv_effect [OF reserve_queue.prems eff]) (auto simp: pending_inv_def held_bytes_def held_slots_def)
next
  case (reserve_wake i n s)
  then have eff: "quota_effect (ps_quota s)
      ((ps_quota s)\<lparr>pq_grantedBytes := remove1 (i, n) (pq_grantedBytes (ps_quota s))\<rparr>) 0 n"
    using wake_bytes_effect [of "ps_quota s" "(i, n)"] by (simp add: pending_inv_def)
  have "0 \<le> n" using reserve_wake granted_bytes_nonneg [of "ps_quota s" "(i, n)"] by (simp add: pending_inv_def)
  then show ?case
    using reserve_wake.prems by (intro pending_inv_effect [OF reserve_wake.prems eff]) (auto simp: pending_inv_def held_bytes_def held_slots_def)
next
  case (reserve_abandon_granted i n s q)
  then have eff: "quota_effect (ps_quota s) (q\<lparr>pq_grantedBytes := remove1 (i, n) (pq_grantedBytes q)\<rparr>) 0 0"
    by (intro reserveBytes_abandon_effect) (simp_all add: pending_inv_def)
  show ?case
    using reserve_abandon_granted.prems by (intro pending_inv_effect [OF reserve_abandon_granted.prems eff]) (auto simp: pending_inv_def held_bytes_def held_slots_def)
next
  case (reserve_abandon_queued i n s)
  then have eff: "quota_effect (ps_quota s) (quota_reserveBytes_abandon (ps_quota s) i n) 0 0"
    by (intro abandon_queued_effect) (simp_all add: pending_inv_def)
  show ?case
    using reserve_abandon_queued.prems by (intro pending_inv_effect [OF reserve_abandon_queued.prems eff]) (auto simp: pending_inv_def held_bytes_def held_slots_def)
next
  case (reserve_commit i n s p ds res)
  then have n: "0 \<le> n" "\<forall>q \<in> set (ps_pending s). 0 \<le> pr_reserved q \<and> (pr_closed q \<longrightarrow> pr_reserved q = 0)"
    by (auto simp: pending_inv_def)
  let ?p = "ps_pending s ! i"
  from n(2) reserve_commit(2) have r: "0 \<le> pr_reserved ?p" "pr_closed ?p \<longrightarrow> pr_reserved ?p = 0" by auto
  have "p = (if pr_closed ?p then ?p else ?p\<lparr>pr_reserved := pr_reserved ?p + n\<rparr>)"
    "ds = (if pr_closed ?p then [DeferBytes n] else [])"
    using reserve_commit(3) by (simp_all add: ReserveBytes_commit_def split: if_splits)
  then show ?case using r n(1) reserve_commit(1,2)
    by (intro pending_move_inv [OF reserve_commit.prems, where i = i and p = p and js = "[]" and ds = ds])
      (simp_all add: open_slots_def sum_list_map_remove1_int set_remove1_subset)
next
  case (release_bytes i s n p ds)
  with ReleaseBytes_moves [OF release_bytes(3)] pending_request_ok [OF release_bytes.prems release_bytes(1)]
  show ?case
    by (intro pending_move_inv [OF release_bytes.prems release_bytes(1), where p = p and js = "[]" and ds = ds])
      (simp_all add: open_slots_def)
next
  case (handoff i s retain p ds kept)
  with handoff_moves [OF handoff(3)] pending_request_ok [OF handoff.prems handoff(1)]
  show ?case
    by (intro pending_move_inv [OF handoff.prems handoff(1), where p = p and js = "[Some kept]" and ds = ds])
      (simp_all add: open_slots_def job_bytes_def job_slots_def)
next
  case (finish i s p ds)
  with finish_moves [OF finish(2)] pending_request_ok [OF finish.prems finish(1)]
  show ?case
    by (intro pending_move_inv [OF finish.prems finish(1), where p = p and js = "[]" and ds = ds])
      (simp_all add: open_slots_def)
next
  case (run_deferred d s)
  show ?case using run_deferred
    by (intro pending_inv_effect [OF run_deferred(2) deferred_effect [OF run_deferred(2,1)]])
      (auto simp: pending_inv_def held_bytes_def held_slots_def sum_list_map_remove1_int
        dest: set_remove1_subset [THEN subsetD])
next
  case (job_release j s kept)
  have "\<forall>j \<in> set ((ps_jobs s)[j := None]). 0 \<le> job_bytes j"
    using job_release by (intro all_list_update) (auto simp: pending_inv_def job_bytes_def)
  then show ?case using job_release
    by (intro pending_inv_effect [OF job_release(3) job_release_effect [OF job_release(3,1,2)]])
      (auto simp: pending_inv_def held_defs sum_list_map_update)
qed

lemma pending_step_limits:
  assumes "pending_step s t"
  shows "pq_maxRequests (ps_quota t) = pq_maxRequests (ps_quota s) \<and> pq_maxBytes (ps_quota t) = pq_maxBytes (ps_quota s)"
  using assms
proof (induction rule: pending_step.induct)
  case (run_deferred d s)
  show ?case
    by (cases d) (simp_all add: quota_releaseBytes_def quota_releaseRequest_def
        req_queue.dispatch_cap byte_queue.dispatch_cap Let_def)
qed (auto simp: quota_acquireRequest_enter_def quota_acquireRequest_abandon_def quota_reserveBytes_enter_def
    quota_reserveBytes_abandon_def quota_releaseRequest_def req_queue.dispatch_cap byte_queue.dispatch_cap Let_def
    split: if_splits)

lemma pending_reachable_inv:
  assumes "pending_reachable maxRequests maxBytes s" "0 \<le> maxRequests" "0 \<le> maxBytes"
  shows "pending_inv s \<and> pq_maxRequests (ps_quota s) = maxRequests \<and> pq_maxBytes (ps_quota s) = maxBytes"
  using assms
proof (induction rule: pending_reachable.induct)
  case init
  then show ?case
    by (simp add: pending_init_def newPendingQuota_def pending_inv_def quota_ok_def byte_debt_def
        slot_debt_def held_bytes_def held_slots_def)
next
  case (step s t)
  then show ?case using pending_step_inv pending_step_limits by metis
qed

section \<open>A reachable state with a stalled reservation\<close>

text \<open>Three admitted requests share three bytes: the first holds two, the second queues for two, the
  third queues for one behind it, and the second is then cancelled.\<close>

definition open_request :: pending_request where
  "open_request = \<lparr>pr_lane = LaneGeneral, pr_closed = False, pr_reserved = 0\<rparr>"

definition three_admitted :: pending_sys where
  "three_admitted = (pending_init 3 3)\<lparr>ps_quota := (newPendingQuota 3 3)\<lparr>pq_requests := 3\<rparr>,
     ps_pending := replicate 3 open_request\<rparr>"

definition stalled_state :: pending_sys where
  "stalled_state = three_admitted\<lparr>ps_quota := (newPendingQuota 3 3)\<lparr>pq_requests := 3, pq_bytes := 2,
     pq_byteWaiters := [(2, 1)]\<rparr>, ps_uncommitted := [(0, 2)]\<rparr>"

lemmas stalled_defs = open_request_def three_admitted_def stalled_state_def pending_init_def newPendingQuota_def
  quota_acquireRequest_enter_def quota_reserveBytes_enter_def quota_reserveBytes_abandon_def
  ReserveBytes_begin_def op_free_def numeral_2_eq_2 numeral_3_eq_3

lemma admitted_reachable:
  assumes "n \<le> 3"
  shows "pending_reachable 3 3 ((pending_init 3 3)\<lparr>ps_quota := (newPendingQuota 3 3)\<lparr>pq_requests := int n\<rparr>,
     ps_pending := replicate n open_request\<rparr>)"
  using assms
proof (induction n)
  case 0
  show ?case using pending_reachable.init [of 3 3] by (simp add: pending_init_def newPendingQuota_def)
next
  case (Suc n)
  then have ih: "pending_reachable 3 3 ((pending_init 3 3)\<lparr>ps_quota := (newPendingQuota 3 3)\<lparr>pq_requests := int n\<rparr>,
     ps_pending := replicate n open_request\<rparr>)" by simp
  show ?case
    by (rule pending_reachable.step [OF ih], rule back_subst [where P = "pending_step _"],
        rule pending_step.admit [where ln = LaneGeneral and w = 0 and now = 0 and dl = 1])
      (use Suc.prems in \<open>simp_all add: lane_valid_def quota_acquireRequest_enter_def newPendingQuota_def
        pending_init_def open_request_def replicate_append_same\<close>)
qed

lemma stalled_reachable: "pending_reachable 3 3 stalled_state"
proof -
  let ?q = "(newPendingQuota 3 3)\<lparr>pq_requests := 3\<rparr>"
  let ?q1 = "?q\<lparr>pq_bytes := 2\<rparr>"
  let ?q2 = "?q1\<lparr>pq_byteWaiters := [(1, 2)]\<rparr>"
  let ?q3 = "?q1\<lparr>pq_byteWaiters := [(1, 2), (2, 1)]\<rparr>"
  let ?s1 = "three_admitted\<lparr>ps_quota := ?q1, ps_uncommitted := [(0, 2)]\<rparr>"
  have 0: "pending_reachable 3 3 three_admitted"
    using admitted_reachable [of 3] by (simp add: three_admitted_def)
  have "pending_step three_admitted ?s1"
    using pending_step.reserve [of 0 three_admitted 2 0 1 ?q1] by (simp add: stalled_defs)
  moreover have "pending_step ?s1 (?s1\<lparr>ps_quota := ?q2\<rparr>)"
    using pending_step.reserve_queue [of 1 ?s1 2 0 1 ?q2] by (simp add: stalled_defs)
  moreover have "pending_step (?s1\<lparr>ps_quota := ?q2\<rparr>) (?s1\<lparr>ps_quota := ?q3\<rparr>)"
    using pending_step.reserve_queue [of 2 "?s1\<lparr>ps_quota := ?q2\<rparr>" 1 0 1 ?q3] by (simp add: stalled_defs)
  moreover have "pending_step (?s1\<lparr>ps_quota := ?q3\<rparr>) stalled_state"
    using pending_step.reserve_abandon_queued [of 1 2 "?s1\<lparr>ps_quota := ?q3\<rparr>"] by (simp add: stalled_defs)
  ultimately show ?thesis by (meson 0 pending_reachable.step)
qed

section \<open>Properties\<close>

text \<open>C12: in every interleaving of admissions, byte reservations, cancellations, handoffs,
  releases and concurrent \<open>Close\<close> calls, the quota stays within both limits and accounts exactly
  for what is held: its byte count is what open requests, jobs, reservations in flight and
  releases still to run hold, and its request count likewise. In particular the clamps at zero in
  \<open>releaseBytes\<close> and \<open>releaseRequest\<close> never take effect and no cancellation leaks quota.\<close>

theorem pending_quota_exact:
  assumes "pending_reachable maxRequests maxBytes s" "0 < maxRequests" "0 < maxBytes"
  shows "pq_bytes (ps_quota s) = held_bytes s + sum_list (map snd (pq_grantedBytes (ps_quota s))) \<and>
    pq_requests (ps_quota s) = held_slots s + int (length (pq_grantedRequests (ps_quota s))) \<and>
    0 \<le> pq_bytes (ps_quota s) \<and> pq_bytes (ps_quota s) \<le> maxBytes \<and>
    0 \<le> pq_requests (ps_quota s) \<and> pq_requests (ps_quota s) \<le> maxRequests \<and>
    (\<forall>p \<in> set (ps_pending s). 0 \<le> pr_reserved p \<and> pr_reserved p \<le> maxBytes) \<and>
    (pq_requestWaiters (ps_quota s) \<noteq> [] \<longrightarrow> pq_requests (ps_quota s) = maxRequests)"
proof -
  have inv: "pending_inv s" and max: "pq_maxRequests (ps_quota s) = maxRequests" "pq_maxBytes (ps_quota s) = maxBytes"
    using pending_reachable_inv [OF assms(1)] assms(2,3) by auto
  note nonneg = pending_inv_nonneg [OF inv]
  have ok: "quota_ok (ps_quota s)" using inv by (simp add: pending_inv_def)
  have granted: "0 \<le> sum_list (map snd (pq_grantedBytes (ps_quota s)))"
    by (intro sum_list_map_nonneg granted_bytes_nonneg [OF ok])
  have "pr_reserved p \<le> held_bytes s" if "p \<in> set (ps_pending s)" for p
  proof -
    have "pr_reserved p \<le> sum_list (map pr_reserved (ps_pending s))"
      using inv that by (intro sum_list_map_member_le) (auto simp: pending_inv_def)
    with nonneg show ?thesis by (simp add: held_bytes_def)
  qed
  with inv max nonneg granted show ?thesis
    by (fastforce simp: pending_inv_def quota_ok_def byte_debt_def slot_debt_def held_bytes_def held_slots_def)
qed

theorem pending_quota_exact_witness:
  "pq_bytes (ps_quota stalled_state) = held_bytes stalled_state \<and> held_bytes stalled_state = 2 \<and>
   pq_requests (ps_quota stalled_state) = held_slots stalled_state \<and> held_slots stalled_state = 3"
  using pending_quota_exact [OF stalled_reachable]
  by (simp add: stalled_defs held_bytes_def held_slots_def open_slots_def)

text \<open>C13: cancelling a queued byte reservation does not wake the reservations behind it. There is a
  reachable state in which the reservation at the head of the queue fits the free bytes, nobody has
  been granted anything, and the queue still waits: unlike the upstream pool, \<open>reserveBytes\<close> removes
  a cancelled waiter without dispatching.\<close>

theorem cancelled_reservation_stalls_queue:
  "\<exists>s i n. pending_reachable 3 3 s \<and> pq_byteWaiters (ps_quota s) = [(i, n)] \<and>
     n \<le> pq_maxBytes (ps_quota s) - pq_bytes (ps_quota s) \<and> pq_grantedBytes (ps_quota s) = [] \<and>
     pq_byteWaiters (quota_dispatchLocked (ps_quota s)) = []"
  by (rule exI [of _ stalled_state])
    (use stalled_reachable in \<open>simp add: stalled_defs quota_dispatchLocked_def\<close>)

end
