(* ===== verification/Upstream_Pool.thy ===== *)
theory Upstream_Pool
  imports Fifo_Limiter
begin

text \<open>
  Package \<open>scheduler\<close>, file \<open>scheduler.go\<close>, third part: \<open>upstreamPool\<close>, the permits for upstream
  requests with a reserve that only the interactive lane may use.

  A waiter's lane is fixed when it is created and decides which queue it is pushed on, so a queue
  holds waiters by their number and the queue gives the lane. \<open>up_granted\<close> are the waiters whose
  \<open>granted\<close> flag is set and whose \<open>acquire\<close> has not returned yet, with the lane and the permit
  stored in them. A waiter that gives its grant back leaves that list, since its \<open>acquire\<close>
  returns without looking at the waiter again.
\<close>

datatype permit_kind = PermitGeneral | PermitReserved

type_synonym upstream_grant = "nat \<times> lane \<times> permit_kind"

record upstream_pool =
  up_maxGeneral :: int
  up_maxReserved :: int
  up_usedGeneral :: int
  up_usedReserve :: int
  up_activeGeneralLane :: int
  up_activeInteractiveLane :: int
  up_borrowedInteractive :: int
  up_generalWaiters :: "nat list"
  up_interactiveWaiters :: "nat list"
  up_granted :: "upstream_grant list"

definition newUpstreamPool :: "int \<Rightarrow> int \<Rightarrow> upstream_pool" where
  "newUpstreamPool maxGeneral maxReserved =
     \<lparr>up_maxGeneral = maxGeneral, up_maxReserved = maxReserved, up_usedGeneral = 0, up_usedReserve = 0,
      up_activeGeneralLane = 0, up_activeInteractiveLane = 0, up_borrowedInteractive = 0,
      up_generalWaiters = [], up_interactiveWaiters = [], up_granted = []\<rparr>"

definition grantLocked :: "upstream_pool \<Rightarrow> nat \<Rightarrow> lane \<Rightarrow> permit_kind \<Rightarrow> upstream_pool" where
  "grantLocked p w ln permit =
     (let p1 = (if ln = LaneGeneral
                then p\<lparr>up_generalWaiters := remove1 w (up_generalWaiters p),
                       up_activeGeneralLane := up_activeGeneralLane p + 1\<rparr>
                else p\<lparr>up_interactiveWaiters := remove1 w (up_interactiveWaiters p),
                       up_activeInteractiveLane := up_activeInteractiveLane p + 1\<rparr>);
          p2 = p1\<lparr>up_granted := up_granted p1 @ [(w, ln, permit)]\<rparr>
      in if permit = PermitReserved then p2\<lparr>up_usedReserve := up_usedReserve p2 + 1\<rparr>
         else let p3 = p2\<lparr>up_usedGeneral := up_usedGeneral p2 + 1\<rparr>
              in if ln = LaneInteractive
                 then p3\<lparr>up_borrowedInteractive := up_borrowedInteractive p3 + 1\<rparr>
                 else p3)"

lemma grantLocked_simps [simp]:
  "up_maxGeneral (grantLocked p w ln k) = up_maxGeneral p"
  "up_maxReserved (grantLocked p w ln k) = up_maxReserved p"
  "up_granted (grantLocked p w ln k) = up_granted p @ [(w, ln, k)]"
  "up_usedGeneral (grantLocked p w ln k) = up_usedGeneral p + (if k = PermitGeneral then 1 else 0)"
  "up_usedReserve (grantLocked p w ln k) = up_usedReserve p + (if k = PermitReserved then 1 else 0)"
  "up_generalWaiters (grantLocked p w ln k) =
     (if ln = LaneGeneral then remove1 w (up_generalWaiters p) else up_generalWaiters p)"
  "up_interactiveWaiters (grantLocked p w ln k) =
     (if ln = LaneGeneral then up_interactiveWaiters p else remove1 w (up_interactiveWaiters p))"
  "up_activeGeneralLane (grantLocked p w ln k) = up_activeGeneralLane p + (if ln = LaneGeneral then 1 else 0)"
  "up_activeInteractiveLane (grantLocked p w ln k) = up_activeInteractiveLane p + (if ln = LaneGeneral then 0 else 1)"
  "up_borrowedInteractive (grantLocked p w ln k) =
     up_borrowedInteractive p + (if k = PermitGeneral \<and> ln = LaneInteractive then 1 else 0)"
  by (cases k; simp add: grantLocked_def Let_def)+

text \<open>The two loops of \<open>dispatchLocked\<close>. Each round takes a permit, so the free permits decrease.\<close>

function reserved_loop :: "upstream_pool \<Rightarrow> upstream_pool" where
  "reserved_loop p =
     (if up_usedReserve p < up_maxReserved p
      then (case up_interactiveWaiters p of
              [] \<Rightarrow> p
            | w # _ \<Rightarrow> reserved_loop (grantLocked p w LaneInteractive PermitReserved))
      else p)"
  by pat_completeness auto
termination by (relation "measure (\<lambda>p. nat (up_maxReserved p - up_usedReserve p))") auto

function general_loop :: "upstream_pool \<Rightarrow> upstream_pool" where
  "general_loop p =
     (if up_usedGeneral p < up_maxGeneral p
      then (case up_generalWaiters p of
              w # _ \<Rightarrow> general_loop (grantLocked p w LaneGeneral PermitGeneral)
            | [] \<Rightarrow> (case up_interactiveWaiters p of
                      w # _ \<Rightarrow> general_loop (grantLocked p w LaneInteractive PermitGeneral)
                    | [] \<Rightarrow> p))
      else p)"
  by pat_completeness auto
termination by (relation "measure (\<lambda>p. nat (up_maxGeneral p - up_usedGeneral p))") auto

declare reserved_loop.simps [simp del] general_loop.simps [simp del]

definition upstream_dispatchLocked :: "upstream_pool \<Rightarrow> upstream_pool" where
  "upstream_dispatchLocked p = general_loop (reserved_loop p)"

definition releaseGrantLocked :: "upstream_pool \<Rightarrow> lane \<Rightarrow> permit_kind \<Rightarrow> upstream_pool" where
  "releaseGrantLocked p ln permit =
     (let p1 = (if permit = PermitReserved
                then (if up_usedReserve p > 0 then p\<lparr>up_usedReserve := up_usedReserve p - 1\<rparr> else p)
                else let q = (if up_usedGeneral p > 0 then p\<lparr>up_usedGeneral := up_usedGeneral p - 1\<rparr> else p)
                     in if ln = LaneInteractive \<and> up_borrowedInteractive q > 0
                        then q\<lparr>up_borrowedInteractive := up_borrowedInteractive q - 1\<rparr> else q)
      in if ln = LaneGeneral
         then (if up_activeGeneralLane p1 > 0
               then p1\<lparr>up_activeGeneralLane := up_activeGeneralLane p1 - 1\<rparr> else p1)
         else if up_activeInteractiveLane p1 > 0
         then p1\<lparr>up_activeInteractiveLane := up_activeInteractiveLane p1 - 1\<rparr>
         else p1)"

definition upstream_release :: "upstream_pool \<Rightarrow> lane \<Rightarrow> permit_kind \<Rightarrow> upstream_pool" where
  "upstream_release p ln permit = upstream_dispatchLocked (releaseGrantLocked p ln permit)"

text \<open>\<open>acquire\<close> up to the wait, and after a wait that failed.\<close>

definition upstream_acquire_enter ::
  "upstream_pool \<Rightarrow> nat \<Rightarrow> lane \<Rightarrow> bool \<Rightarrow> bool \<Rightarrow> int \<Rightarrow> int \<Rightarrow> (sched_error, upstream_pool) result" where
  "upstream_acquire_enter p w ln ctxErr lifecycleErr started deadline =
     (if \<not> lane_valid ln then Inl ErrInvalidLane
      else if ctxErr then Inl ContextErr
      else if lifecycleErr then Inl LifecycleErr
      else if \<not> started < deadline then Inl (CapacityTimeoutError StageUpstream)
      else Inr (upstream_dispatchLocked
             (if ln = LaneGeneral then p\<lparr>up_generalWaiters := up_generalWaiters p @ [w]\<rparr>
              else p\<lparr>up_interactiveWaiters := up_interactiveWaiters p @ [w]\<rparr>)))"

definition upstream_acquire_abandon :: "upstream_pool \<Rightarrow> nat \<Rightarrow> lane \<Rightarrow> upstream_pool" where
  "upstream_acquire_abandon p w ln =
     (case find (\<lambda>(v, _, _). v = w) (up_granted p) of
        Some (v, l, permit) \<Rightarrow>
          upstream_dispatchLocked
            (releaseGrantLocked (p\<lparr>up_granted := remove1 (v, l, permit) (up_granted p)\<rparr>) l permit)
      | None \<Rightarrow>
          if ln = LaneGeneral
          then (if w \<in> set (up_generalWaiters p)
                then upstream_dispatchLocked (p\<lparr>up_generalWaiters := remove1 w (up_generalWaiters p)\<rparr>) else p)
          else (if w \<in> set (up_interactiveWaiters p)
                then upstream_dispatchLocked (p\<lparr>up_interactiveWaiters := remove1 w (up_interactiveWaiters p)\<rparr>) else p))"

definition upstream_snapshot :: "upstream_pool \<Rightarrow> int \<times> int \<times> int \<times> int \<times> int \<times> int" where
  "upstream_snapshot p =
     (up_activeGeneralLane p, up_activeInteractiveLane p, up_usedReserve p, up_borrowedInteractive p,
      int (length (up_generalWaiters p)), int (length (up_interactiveWaiters p)))"

section \<open>Both loops are first-in first-out permit queues\<close>

definition granted_by :: "permit_kind \<Rightarrow> upstream_pool \<Rightarrow> nat list" where
  "granted_by k p = map fst (filter (\<lambda>(_, _, k'). k' = k) (up_granted p))"

lemma granted_by_grant [simp]:
  "granted_by k (grantLocked p w ln k') = granted_by k p @ (if k' = k then [w] else [])"
  by (simp add: granted_by_def)

lemma reserved_loop_prefix:
  "grant_prefix (\<lambda>_. 1) (up_maxReserved p - up_usedReserve p) (up_interactiveWaiters p) = (g, r) \<Longrightarrow>
   up_interactiveWaiters (reserved_loop p) = r \<and> granted_by PermitReserved (reserved_loop p) = granted_by PermitReserved p @ g \<and>
   up_usedReserve (reserved_loop p) = up_usedReserve p + sum_list (map (\<lambda>_. 1) g)"
proof (induction p arbitrary: g r rule: reserved_loop.induct)
  case (1 p)
  show ?case
  proof (cases "up_usedReserve p < up_maxReserved p \<and> up_interactiveWaiters p \<noteq> []")
    case True
    then obtain w ws where ws: "up_interactiveWaiters p = w # ws" by (cases "up_interactiveWaiters p") auto
    obtain g' r' where gp: "grant_prefix (\<lambda>_. 1) (up_maxReserved p - up_usedReserve p - 1) ws = (g', r')"
      by (cases "grant_prefix (\<lambda>_. 1) (up_maxReserved p - up_usedReserve p - 1) ws")
    let ?q = "grantLocked p w LaneInteractive PermitReserved"
    have "grant_prefix (\<lambda>_. 1) (up_maxReserved ?q - up_usedReserve ?q) (up_interactiveWaiters ?q) = (g', r')"
      using gp ws by (simp add: algebra_simps)
    from "1.IH" [OF _ ws this] True have
      "up_interactiveWaiters (reserved_loop ?q) = r'" "granted_by PermitReserved (reserved_loop ?q) = granted_by PermitReserved ?q @ g'"
      "up_usedReserve (reserved_loop ?q) = up_usedReserve ?q + sum_list (map (\<lambda>_. 1) g')" by auto
    moreover have "g = w # g'" "r = r'" using "1.prems" gp ws True by auto
    moreover have "reserved_loop p = reserved_loop ?q" using True ws by (simp add: reserved_loop.simps [of p])
    ultimately show ?thesis by simp
  next
    case False
    then have "reserved_loop p = p"
      by (auto simp: reserved_loop.simps [of p] split: list.splits)
    moreover have "g = []" "r = up_interactiveWaiters p"
      using "1.prems" False by (cases "up_interactiveWaiters p"; auto)+
    ultimately show ?thesis by simp
  qed
qed

lemma general_loop_prefix:
  "grant_prefix (\<lambda>_. 1) (up_maxGeneral p - up_usedGeneral p) (up_generalWaiters p @ up_interactiveWaiters p) = (g, r) \<Longrightarrow>
   up_generalWaiters (general_loop p) @ up_interactiveWaiters (general_loop p) = r \<and>
   granted_by PermitGeneral (general_loop p) = granted_by PermitGeneral p @ g \<and>
   up_usedGeneral (general_loop p) = up_usedGeneral p + sum_list (map (\<lambda>_. 1) g)"
proof (induction p arbitrary: g r rule: general_loop.induct)
  case (1 p)
  let ?Q = "up_generalWaiters p @ up_interactiveWaiters p"
  show ?case
  proof (cases "up_usedGeneral p < up_maxGeneral p \<and> ?Q \<noteq> []")
    case True
    then obtain w ws where ws: "?Q = w # ws" by (cases ?Q) auto
    obtain g' r' where gp: "grant_prefix (\<lambda>_. 1) (up_maxGeneral p - up_usedGeneral p - 1) ws = (g', r')"
      by (cases "grant_prefix (\<lambda>_. 1) (up_maxGeneral p - up_usedGeneral p - 1) ws")
    have g: "g = w # g'" "r = r'" using "1.prems" gp ws True by auto
    define ln where "ln = (if up_generalWaiters p = [] then LaneInteractive else LaneGeneral)"
    let ?q = "grantLocked p w ln PermitGeneral"
    have wait: "up_generalWaiters ?q @ up_interactiveWaiters ?q = ws"
      using ws by (cases "up_generalWaiters p") (auto simp: ln_def)
    have gq: "grant_prefix (\<lambda>_. 1) (up_maxGeneral ?q - up_usedGeneral ?q) (up_generalWaiters ?q @ up_interactiveWaiters ?q) = (g', r')"
      unfolding wait using gp by (simp add: algebra_simps)
    have "general_loop p = general_loop ?q"
      using True ws by (cases "up_generalWaiters p") (auto simp: ln_def general_loop.simps [of p])
    moreover have "up_generalWaiters (general_loop ?q) @ up_interactiveWaiters (general_loop ?q) = r' \<and>
      granted_by PermitGeneral (general_loop ?q) = granted_by PermitGeneral ?q @ g' \<and>
      up_usedGeneral (general_loop ?q) = up_usedGeneral ?q + sum_list (map (\<lambda>_. 1) g')"
      using "1.IH" gq True ws by (cases "up_generalWaiters p") (auto simp: ln_def)
    ultimately show ?thesis by (simp add: g)
  next
    case False
    then have "general_loop p = p"
      by (auto simp: general_loop.simps [of p] split: list.splits)
    moreover have "g = []" "r = ?Q"
      using "1.prems" False by (cases ?Q; auto)+
    ultimately show ?thesis by simp
  qed
qed

text \<open>What every grant of a loop keeps, the loop keeps.\<close>

lemma reserved_loop_keeps:
  assumes "I p"
    and "\<And>q w ws. I q \<Longrightarrow> up_usedReserve q < up_maxReserved q \<Longrightarrow> up_interactiveWaiters q = w # ws \<Longrightarrow>
      I (grantLocked q w LaneInteractive PermitReserved)"
  shows "I (reserved_loop p)"
  using assms(1)
proof (induction p rule: reserved_loop.induct)
  case (1 p)
  then show ?case by (subst reserved_loop.simps) (auto split: list.splits intro: assms(2))
qed

lemma general_loop_keeps:
  assumes "I p"
    and "\<And>q w ws. I q \<Longrightarrow> up_usedGeneral q < up_maxGeneral q \<Longrightarrow> up_generalWaiters q = w # ws \<Longrightarrow>
      I (grantLocked q w LaneGeneral PermitGeneral)"
    and "\<And>q w ws. I q \<Longrightarrow> up_usedGeneral q < up_maxGeneral q \<Longrightarrow> up_generalWaiters q = [] \<Longrightarrow>
      up_interactiveWaiters q = w # ws \<Longrightarrow> I (grantLocked q w LaneInteractive PermitGeneral)"
  shows "I (general_loop p)"
  using assms(1)
proof (induction p rule: general_loop.induct)
  case (1 p)
  then show ?case by (subst general_loop.simps) (auto simp: assms(2,3) split: list.splits)
qed

lemma reserved_loop_max [simp]:
  "up_maxReserved (reserved_loop p) = up_maxReserved p" "up_maxGeneral (reserved_loop p) = up_maxGeneral p"
  using reserved_loop_keeps [where I = "\<lambda>q. up_maxReserved q = up_maxReserved p \<and> up_maxGeneral q = up_maxGeneral p" and p = p]
  by simp_all

lemma general_loop_max [simp]:
  "up_maxReserved (general_loop p) = up_maxReserved p" "up_maxGeneral (general_loop p) = up_maxGeneral p"
  "up_usedReserve (general_loop p) = up_usedReserve p"
  using general_loop_keeps [where I = "\<lambda>q. up_maxReserved q = up_maxReserved p \<and> up_maxGeneral q = up_maxGeneral p \<and>
    up_usedReserve q = up_usedReserve p" and p = p]
  by simp_all

interpretation reserve: permit_queue up_maxReserved up_usedReserve up_interactiveWaiters
  "granted_by PermitReserved" "\<lambda>_. 1" reserved_loop
  by unfold_locales (simp_all add: reserved_loop_prefix)

interpretation general: permit_queue up_maxGeneral up_usedGeneral
  "\<lambda>p. up_generalWaiters p @ up_interactiveWaiters p" "granted_by PermitGeneral" "\<lambda>_. 1" general_loop
  by unfold_locales (simp_all add: general_loop_prefix)

section \<open>Clients of one pool\<close>

record upstream_sys =
  us_pool :: upstream_pool
  us_leases :: "upstream_grant list"

definition upstream_inside :: "upstream_sys \<Rightarrow> nat \<Rightarrow> bool" where
  "upstream_inside s w \<longleftrightarrow>
     w \<in> set (up_generalWaiters (us_pool s) @ up_interactiveWaiters (us_pool s)) \<or>
     w \<in> fst ` set (up_granted (us_pool s) @ us_leases s)"

inductive upstream_step :: "upstream_sys \<Rightarrow> upstream_sys \<Rightarrow> bool" where
  enter: "\<not> upstream_inside s w \<Longrightarrow> upstream_acquire_enter (us_pool s) w ln False False t d = Inr p \<Longrightarrow>
    upstream_step s (s\<lparr>us_pool := p\<rparr>)"
| wake: "g \<in> set (up_granted (us_pool s)) \<Longrightarrow>
    upstream_step s (s\<lparr>us_pool := (us_pool s)\<lparr>up_granted := remove1 g (up_granted (us_pool s))\<rparr>,
      us_leases := g # us_leases s\<rparr>)"
| abandon: "w \<notin> fst ` set (us_leases s) \<Longrightarrow>
    upstream_step s (s\<lparr>us_pool := upstream_acquire_abandon (us_pool s) w ln\<rparr>)"
| release: "(w, ln, k) \<in> set (us_leases s) \<Longrightarrow>
    upstream_step s (s\<lparr>us_pool := upstream_release (us_pool s) ln k, us_leases := remove1 (w, ln, k) (us_leases s)\<rparr>)"

inductive upstream_reachable :: "int \<Rightarrow> int \<Rightarrow> upstream_sys \<Rightarrow> bool" for maxGeneral maxReserved where
  init: "upstream_reachable maxGeneral maxReserved \<lparr>us_pool = newUpstreamPool maxGeneral maxReserved, us_leases = []\<rparr>"
| step: "upstream_reachable maxGeneral maxReserved s \<Longrightarrow> upstream_step s t \<Longrightarrow> upstream_reachable maxGeneral maxReserved t"

section \<open>Invariant\<close>

definition tally :: "('a \<Rightarrow> bool) \<Rightarrow> 'a list \<Rightarrow> int" where
  "tally P xs = int (length (filter P xs))"

lemma tally_simps [simp]:
  "tally P [] = 0" "tally P (x # xs) = tally P xs + (if P x then 1 else 0)"
  "tally P (xs @ ys) = tally P xs + tally P ys"
  by (simp_all add: tally_def)

lemma tally_nonneg: "0 \<le> tally P xs"
  by (simp add: tally_def)

lemma tally_remove1: "x \<in> set xs \<Longrightarrow> tally P (remove1 x xs) = tally P xs - (if P x then 1 else 0)"
  by (induction xs) auto

lemma tally_pos: "x \<in> set xs \<Longrightarrow> P x \<Longrightarrow> 0 < tally P xs"
  using tally_remove1 [of x xs P] tally_nonneg [of P "remove1 x xs"] by simp

fun uses :: "permit_kind \<Rightarrow> upstream_grant \<Rightarrow> bool" where "uses k (_, _, k') = (k' = k)"
fun in_lane :: "lane \<Rightarrow> upstream_grant \<Rightarrow> bool" where "in_lane l (_, l', _) = (l' = l)"
fun borrows :: "upstream_grant \<Rightarrow> bool" where "borrows (_, l, k) = (l = LaneInteractive \<and> k = PermitGeneral)"
fun grant_ok :: "upstream_grant \<Rightarrow> bool" where
  "grant_ok (_, l, k) = (lane_valid l \<and> (k = PermitReserved \<longrightarrow> l = LaneInteractive))"

definition pool_counts :: "upstream_pool \<Rightarrow> upstream_grant list \<Rightarrow> bool" where
  "pool_counts p held \<longleftrightarrow>
     up_usedGeneral p = tally (uses PermitGeneral) held \<and>
     up_usedReserve p = tally (uses PermitReserved) held \<and>
     up_activeGeneralLane p = tally (in_lane LaneGeneral) held \<and>
     up_activeInteractiveLane p = tally (in_lane LaneInteractive) held \<and>
     up_borrowedInteractive p = tally borrows held"

definition pool_core :: "upstream_grant list \<Rightarrow> upstream_pool \<Rightarrow> bool" where
  "pool_core leases p \<longleftrightarrow>
     pool_counts p (up_granted p @ leases) \<and> (\<forall>g \<in> set (up_granted p @ leases). grant_ok g) \<and>
     distinct (up_generalWaiters p @ up_interactiveWaiters p @ map fst (up_granted p @ leases)) \<and>
     up_usedGeneral p \<le> up_maxGeneral p \<and> up_usedReserve p \<le> up_maxReserved p"

definition pool_idle :: "upstream_pool \<Rightarrow> bool" where
  "pool_idle p \<longleftrightarrow>
     (up_generalWaiters p \<noteq> [] \<longrightarrow> up_usedGeneral p = up_maxGeneral p) \<and>
     (up_interactiveWaiters p \<noteq> [] \<longrightarrow>
        up_usedGeneral p = up_maxGeneral p \<and> up_usedReserve p = up_maxReserved p)"

definition upstream_inv :: "upstream_sys \<Rightarrow> bool" where
  "upstream_inv s \<longleftrightarrow> pool_core (us_leases s) (us_pool s) \<and> pool_idle (us_pool s)"

lemma grant_core:
  assumes "pool_core L p"
  shows "up_interactiveWaiters p = w # ws \<Longrightarrow> up_usedReserve p < up_maxReserved p \<Longrightarrow>
      pool_core L (grantLocked p w LaneInteractive PermitReserved)"
    and "up_interactiveWaiters p = w # ws \<Longrightarrow> up_usedGeneral p < up_maxGeneral p \<Longrightarrow>
      pool_core L (grantLocked p w LaneInteractive PermitGeneral)"
    and "up_generalWaiters p = w # ws \<Longrightarrow> up_usedGeneral p < up_maxGeneral p \<Longrightarrow>
      pool_core L (grantLocked p w LaneGeneral PermitGeneral)"
  using assms by (auto simp: pool_core_def pool_counts_def lane_valid_def)

lemma dispatch_core: "pool_core L p \<Longrightarrow> pool_core L (upstream_dispatchLocked p)"
  unfolding upstream_dispatchLocked_def
  by (rule general_loop_keeps [where I = "pool_core L"], rule reserved_loop_keeps [where I = "pool_core L"])
    (erule (2) grant_core | assumption)+

lemma general_loop_interactive: "up_interactiveWaiters p = [] \<Longrightarrow> up_interactiveWaiters (general_loop p) = []"
  by (rule general_loop_keeps [where I = "\<lambda>q. up_interactiveWaiters q = []"]) auto

lemma dispatch_idle:
  assumes "pool_core L p"
  shows "pool_idle (upstream_dispatchLocked p)"
proof -
  let ?r = "reserved_loop p" and ?d = "upstream_dispatchLocked p"
  have le: "up_usedGeneral ?d \<le> up_maxGeneral ?d" "up_usedReserve ?d \<le> up_maxReserved ?d"
    using dispatch_core [OF assms] by (auto simp: pool_core_def)
  have "up_usedGeneral ?d = up_maxGeneral ?d" if "up_generalWaiters ?d @ up_interactiveWaiters ?d \<noteq> []"
    using general.dispatch_blocked [of ?r] that le by (simp add: upstream_dispatchLocked_def)
  moreover have "up_usedReserve ?d = up_maxReserved ?d" if "up_interactiveWaiters ?d \<noteq> []"
  proof -
    have "up_interactiveWaiters ?r \<noteq> []"
      using that general_loop_interactive [of ?r] by (auto simp: upstream_dispatchLocked_def)
    from reserve.dispatch_blocked [OF this] le show ?thesis by (simp add: upstream_dispatchLocked_def)
  qed
  ultimately show ?thesis by (auto simp: pool_idle_def)
qed

lemma releaseGrant_simps [simp]:
  "up_maxGeneral (releaseGrantLocked p ln k) = up_maxGeneral p"
  "up_maxReserved (releaseGrantLocked p ln k) = up_maxReserved p"
  "up_granted (releaseGrantLocked p ln k) = up_granted p"
  "up_generalWaiters (releaseGrantLocked p ln k) = up_generalWaiters p"
  "up_interactiveWaiters (releaseGrantLocked p ln k) = up_interactiveWaiters p"
  by (simp_all add: releaseGrantLocked_def Let_def)

lemma releaseGrant_counts:
  assumes "pool_counts p (g # held)" "grant_ok g" "g = (w, ln, k)"
  shows "pool_counts (releaseGrantLocked p ln k) held \<and>
    up_usedGeneral (releaseGrantLocked p ln k) \<le> up_usedGeneral p \<and>
    up_usedReserve (releaseGrantLocked p ln k) \<le> up_usedReserve p"
proof -
  have nn: "0 \<le> tally P held" for P by (rule tally_nonneg)
  note n = nn [of "uses PermitGeneral"] nn [of "uses PermitReserved"] nn [of "in_lane LaneGeneral"]
    nn [of "in_lane LaneInteractive"] nn [of borrows]
  show ?thesis
    using assms n by (cases k; cases ln; simp add: pool_counts_def releaseGrantLocked_def Let_def lane_valid_def)
qed

lemma tally_move: "x \<in> set xs \<Longrightarrow> tally P (x # remove1 x xs @ ys) = tally P (xs @ ys)"
  by (simp add: tally_remove1)

lemma counts_move: "x \<in> set xs \<Longrightarrow> pool_counts p (x # remove1 x xs @ ys) = pool_counts p (xs @ ys)"
  by (simp add: pool_counts_def tally_remove1)

lemma counts_move_right: "x \<in> set ys \<Longrightarrow> pool_counts p (x # xs @ remove1 x ys) = pool_counts p (xs @ ys)"
  by (simp add: pool_counts_def tally_remove1)

lemma map_remove1_distinct:
  "distinct (map f xs) \<Longrightarrow> x \<in> set xs \<Longrightarrow> map f (remove1 x xs) = remove1 (f x) (map f xs)"
proof (induction xs)
  case (Cons a xs)
  then have "x \<noteq> a \<Longrightarrow> f x \<noteq> f a" by (metis distinct.simps(2) imageI list.set_map list.simps(9) set_ConsD)
  with Cons show ?case by auto
qed simp

lemma pool_ids: "pool_core L p \<Longrightarrow>
    distinct (up_generalWaiters p @ up_interactiveWaiters p @ map fst (up_granted p @ L))"
  unfolding pool_core_def by blast

lemma pool_grants_ok: "pool_core L p \<Longrightarrow> \<forall>h \<in> set (up_granted p @ L). grant_ok h"
  unfolding pool_core_def by blast

lemma remove_ids:
  assumes "distinct (A @ B @ map fst (G @ L))"
  shows "x \<in> set G \<Longrightarrow> distinct (A @ B @ map fst (remove1 x G @ L))"
    and "x \<in> set G \<Longrightarrow> distinct (A @ B @ map fst (remove1 x G @ x # L))"
    and "x \<in> set L \<Longrightarrow> distinct (A @ B @ map fst (G @ remove1 x L))"
proof -
  have "x \<in> set xs \<Longrightarrow> fst x \<in> set (map fst xs)" for xs by simp
  with assms show "x \<in> set G \<Longrightarrow> distinct (A @ B @ map fst (remove1 x G @ L))"
    "x \<in> set G \<Longrightarrow> distinct (A @ B @ map fst (remove1 x G @ x # L))"
    "x \<in> set L \<Longrightarrow> distinct (A @ B @ map fst (G @ remove1 x L))"
    by (auto simp: map_remove1_distinct simp del: set_map)
qed

text \<open>Every operation of the pool ends with a dispatch, so the core is all it has to restore.\<close>

lemma dispatch_inv: "pool_core L p \<Longrightarrow> upstream_inv \<lparr>us_pool = upstream_dispatchLocked p, us_leases = L\<rparr>"
  by (simp add: upstream_inv_def dispatch_core dispatch_idle)

lemma upstream_sys_eqs:
  "s\<lparr>us_pool := p\<rparr> = \<lparr>us_pool = p, us_leases = us_leases s\<rparr>"
  "s\<lparr>us_pool := p, us_leases := L\<rparr> = \<lparr>us_pool = p, us_leases = L\<rparr>"
  by (cases s; simp)+

lemma enter_inv:
  assumes "upstream_inv s" "\<not> upstream_inside s w" "upstream_acquire_enter (us_pool s) w ln False False t d = Inr p"
  shows "upstream_inv (s\<lparr>us_pool := p\<rparr>)"
proof -
  let ?p = "if ln = LaneGeneral then (us_pool s)\<lparr>up_generalWaiters := up_generalWaiters (us_pool s) @ [w]\<rparr>
    else (us_pool s)\<lparr>up_interactiveWaiters := up_interactiveWaiters (us_pool s) @ [w]\<rparr>"
  have "pool_core (us_leases s) ?p"
    using assms(1,2) by (auto simp: upstream_inv_def pool_core_def pool_counts_def upstream_inside_def)
  moreover have "p = upstream_dispatchLocked ?p"
    using assms(3) by (simp add: upstream_acquire_enter_def split: if_splits)
  ultimately show ?thesis by (simp add: dispatch_inv upstream_sys_eqs)
qed

lemma dequeue_core:
  assumes "pool_core L p"
  shows "pool_core L (p\<lparr>up_generalWaiters := remove1 w (up_generalWaiters p)\<rparr>)"
    "pool_core L (p\<lparr>up_interactiveWaiters := remove1 w (up_interactiveWaiters p)\<rparr>)"
  using assms by (auto simp: pool_core_def pool_counts_def dest: set_remove1_subset [THEN subsetD])

lemma give_back_core:
  assumes "pool_counts p (g # held)" "\<forall>h \<in> set (g # held). grant_ok h" "g = (w, ln, k)" "held = up_granted p @ L"
    "distinct (up_generalWaiters p @ up_interactiveWaiters p @ map fst held)"
    "up_usedGeneral p \<le> up_maxGeneral p" "up_usedReserve p \<le> up_maxReserved p"
  shows "pool_core L (releaseGrantLocked p ln k)"
  using releaseGrant_counts [OF assms(1) _ assms(3)] assms(2,4-7) unfolding pool_core_def by auto

lemma abandon_inv:
  assumes "upstream_inv s"
  shows "upstream_inv (s\<lparr>us_pool := upstream_acquire_abandon (us_pool s) w ln\<rparr>)"
proof (cases "find (\<lambda>(v, _, _). v = w) (up_granted (us_pool s))")
  case None
  have core: "pool_core (us_leases s) (us_pool s)" using assms by (simp add: upstream_inv_def)
  note dispatch_inv [OF dequeue_core(1) [OF core]] dispatch_inv [OF dequeue_core(2) [OF core]]
  moreover have "upstream_inv \<lparr>us_pool = us_pool s, us_leases = us_leases s\<rparr>" using assms by (cases s) simp
  ultimately show ?thesis using None
    by (simp add: upstream_acquire_abandon_def upstream_sys_eqs)
next
  case (Some g)
  obtain v l k where g: "g = (v, l, k)" by (cases g)
  have mem: "g \<in> set (up_granted (us_pool s))" using Some by (auto simp: find_Some_iff in_set_conv_nth)
  let ?p = "(us_pool s)\<lparr>up_granted := remove1 g (up_granted (us_pool s))\<rparr>"
  have core: "pool_core (us_leases s) (us_pool s)" using assms by (simp add: upstream_inv_def)
  have "pool_core (us_leases s) (releaseGrantLocked ?p l k)"
  proof (rule give_back_core [OF _ _ g refl])
    show "pool_counts ?p (g # up_granted ?p @ us_leases s)"
      using core counts_move [OF mem, of "us_pool s" "us_leases s"] by (simp add: pool_core_def pool_counts_def)
    show "distinct (up_generalWaiters ?p @ up_interactiveWaiters ?p @ map fst (up_granted ?p @ us_leases s))"
      using remove_ids(1) [OF pool_ids [OF core] mem] by (simp del: map_append)
  qed (use core mem in \<open>auto simp: pool_core_def dest: set_remove1_subset [THEN subsetD]\<close>)
  then show ?thesis using Some
    by (simp add: upstream_acquire_abandon_def g upstream_sys_eqs dispatch_inv)
qed

lemma upstream_release_inv:
  assumes "upstream_inv s" "(w, ln, k) \<in> set (us_leases s)"
  shows "upstream_inv (s\<lparr>us_pool := upstream_release (us_pool s) ln k, us_leases := remove1 (w, ln, k) (us_leases s)\<rparr>)"
proof -
  have core: "pool_core (us_leases s) (us_pool s)" using assms by (simp add: upstream_inv_def)
  have "pool_core (remove1 (w, ln, k) (us_leases s)) (releaseGrantLocked (us_pool s) ln k)"
  proof (rule give_back_core [OF _ _ refl refl])
    show "pool_counts (us_pool s) ((w, ln, k) # up_granted (us_pool s) @ remove1 (w, ln, k) (us_leases s))"
      using core counts_move_right [OF assms(2)] by (simp add: pool_core_def)
    show "distinct (up_generalWaiters (us_pool s) @ up_interactiveWaiters (us_pool s) @
        map fst (up_granted (us_pool s) @ remove1 (w, ln, k) (us_leases s)))"
      by (rule remove_ids(3) [OF pool_ids [OF core] assms(2)])
    show "\<forall>h \<in> set ((w, ln, k) # up_granted (us_pool s) @ remove1 (w, ln, k) (us_leases s)). grant_ok h"
      using pool_grants_ok [OF core] assms(2) set_remove1_subset [of "(w, ln, k)" "us_leases s"]
      by (simp only: list.set set_append) blast
  qed (use core in \<open>simp_all add: pool_core_def\<close>)
  then show ?thesis by (simp add: upstream_release_def upstream_sys_eqs dispatch_inv)
qed

lemma wake_inv:
  assumes "upstream_inv s" "g \<in> set (up_granted (us_pool s))"
  shows "upstream_inv (s\<lparr>us_pool := (us_pool s)\<lparr>up_granted := remove1 g (up_granted (us_pool s))\<rparr>, us_leases := g # us_leases s\<rparr>)"
proof -
  have core: "pool_core (us_leases s) (us_pool s)" using assms by (simp add: upstream_inv_def)
  have "distinct (up_generalWaiters (us_pool s) @ up_interactiveWaiters (us_pool s) @
      map fst (remove1 g (up_granted (us_pool s)) @ g # us_leases s))"
    by (rule remove_ids(2) [OF pool_ids [OF core] assms(2)])
  moreover have "pool_idle ((us_pool s)\<lparr>up_granted := remove1 g (up_granted (us_pool s))\<rparr>)"
    using assms(1) by (simp add: upstream_inv_def pool_idle_def)
  moreover have "\<forall>h \<in> set (remove1 g (up_granted (us_pool s)) @ g # us_leases s). grant_ok h"
    using core assms(2) by (auto simp: pool_core_def dest: set_remove1_subset [THEN subsetD])
  ultimately show ?thesis using core assms(2)
    by (simp add: upstream_inv_def pool_core_def pool_counts_def tally_remove1 del: map_append)
qed

lemma upstream_step_inv: "upstream_step s t \<Longrightarrow> upstream_inv s \<Longrightarrow> upstream_inv t"
  by (induction rule: upstream_step.induct)
    (blast intro: enter_inv wake_inv abandon_inv upstream_release_inv)+

lemma upstream_step_limits:
  assumes "upstream_step s t"
  shows "up_maxGeneral (us_pool t) = up_maxGeneral (us_pool s) \<and> up_maxReserved (us_pool t) = up_maxReserved (us_pool s)"
  using assms
  by (induction rule: upstream_step.induct)
    (auto simp: upstream_acquire_enter_def upstream_acquire_abandon_def upstream_release_def
      upstream_dispatchLocked_def split: if_splits option.splits)

lemma upstream_reachable_inv:
  assumes "upstream_reachable maxGeneral maxReserved s" "0 \<le> maxGeneral" "0 \<le> maxReserved"
  shows "upstream_inv s \<and> up_maxGeneral (us_pool s) = maxGeneral \<and> up_maxReserved (us_pool s) = maxReserved"
  using assms
proof (induction rule: upstream_reachable.induct)
  case init
  then show ?case
    by (simp add: newUpstreamPool_def upstream_inv_def pool_core_def pool_counts_def pool_idle_def)
next
  case (step s t)
  then show ?case using upstream_step_inv upstream_step_limits by metis
qed

lemma grant_shares:
  assumes "grant_ok g"
  shows "uses PermitGeneral g \<longleftrightarrow> in_lane LaneGeneral g \<or> borrows g"
    and "in_lane LaneInteractive g \<longleftrightarrow> uses PermitReserved g \<or> borrows g"
    and "\<not> (in_lane LaneGeneral g \<and> borrows g)" "\<not> (uses PermitReserved g \<and> borrows g)"
proof -
  obtain w l k where "g = (w, l, k)" by (cases g)
  with assms show "uses PermitGeneral g \<longleftrightarrow> in_lane LaneGeneral g \<or> borrows g"
    "in_lane LaneInteractive g \<longleftrightarrow> uses PermitReserved g \<or> borrows g"
    "\<not> (in_lane LaneGeneral g \<and> borrows g)" "\<not> (uses PermitReserved g \<and> borrows g)"
    by (cases k; auto simp: lane_valid_def)+
qed

lemma tally_lanes:
  assumes "\<forall>g \<in> set gs. grant_ok g"
  shows "tally (uses PermitGeneral) gs = tally (in_lane LaneGeneral) gs + tally borrows gs \<and>
    tally (in_lane LaneInteractive) gs = tally (uses PermitReserved) gs + tally borrows gs"
  using assms
proof (induction gs)
  case (Cons g gs)
  then have "grant_ok g" by simp
  from grant_shares [OF this] Cons show ?case by simp
qed simp

lemma upstream_lane_counts:
  assumes "upstream_inv s"
  shows "up_usedGeneral (us_pool s) = up_activeGeneralLane (us_pool s) + up_borrowedInteractive (us_pool s) \<and>
    up_activeInteractiveLane (us_pool s) = up_usedReserve (us_pool s) + up_borrowedInteractive (us_pool s) \<and>
    0 \<le> up_borrowedInteractive (us_pool s)"
proof -
  let ?held = "up_granted (us_pool s) @ us_leases s"
  have "pool_counts (us_pool s) ?held" "\<forall>g \<in> set ?held. grant_ok g"
    using assms unfolding upstream_inv_def pool_core_def by blast+
  with tally_lanes [of ?held] tally_nonneg [of borrows ?held] show ?thesis
    unfolding pool_counts_def by presburger
qed

lemma dispatch_serves_reserve:
  assumes "up_interactiveWaiters p = w # ws" "up_usedReserve p < up_maxReserved p"
  shows "(w, LaneInteractive, PermitReserved) \<in> set (up_granted (upstream_dispatchLocked p))"
proof -
  let ?I = "\<lambda>q. (w, LaneInteractive, PermitReserved) \<in> set (up_granted q)"
  have "?I (reserved_loop (grantLocked p w LaneInteractive PermitReserved))"
    by (rule reserved_loop_keeps [where I = ?I]) simp_all
  then have "?I (reserved_loop p)" using assms by (simp add: reserved_loop.simps [of p])
  then have "?I (general_loop (reserved_loop p))" by (rule general_loop_keeps [where I = ?I]) simp_all
  then show ?thesis by (simp add: upstream_dispatchLocked_def)
qed

text \<open>A pool with one permit of each kind, the general one in use and one more general request waiting.\<close>

definition busy_general :: upstream_sys where
  "busy_general = \<lparr>us_pool = (newUpstreamPool 1 1)\<lparr>up_usedGeneral := 1, up_activeGeneralLane := 1,
     up_generalWaiters := [1], up_granted := [(0, LaneGeneral, PermitGeneral)]\<rparr>, us_leases = []\<rparr>"

lemmas upstream_eval = newUpstreamPool_def upstream_acquire_enter_def lane_valid_def upstream_dispatchLocked_def
  reserved_loop.simps general_loop.simps grantLocked_def upstream_inside_def

lemma busy_general_reachable: "upstream_reachable 1 1 busy_general"
proof -
  let ?s0 = "\<lparr>us_pool = newUpstreamPool 1 1, us_leases = []\<rparr>"
  let ?p1 = "(newUpstreamPool 1 1)\<lparr>up_usedGeneral := 1, up_activeGeneralLane := 1,
    up_granted := [(0, LaneGeneral, PermitGeneral)]\<rparr>"
  have 1: "upstream_step ?s0 (?s0\<lparr>us_pool := ?p1\<rparr>)"
    using upstream_step.enter [of ?s0 0 LaneGeneral 0 1 ?p1] by (simp add: upstream_eval)
  have 2: "upstream_step (?s0\<lparr>us_pool := ?p1\<rparr>) busy_general"
    using upstream_step.enter [of "?s0\<lparr>us_pool := ?p1\<rparr>" 1 LaneGeneral 0 1 "us_pool busy_general"]
    by (simp add: upstream_eval busy_general_def)
  show ?thesis
    by (rule upstream_reachable.step [OF upstream_reachable.step [OF upstream_reachable.init 1] 2])
qed

section \<open>Properties\<close>

text \<open>C14: in every interleaving of acquisitions, cancellations and releases the upstream pool stays
  within both permit limits, a reserved permit is only ever held by the interactive lane, the general
  lane never has more than \<open>maxGeneral\<close> requests, the counters that \<open>snapshot\<close> reports are exactly
  the grants outstanding (so the clamps at zero never take effect), and nobody waits while a permit
  that it may use is free.\<close>

theorem upstream_pool_exact:
  assumes "upstream_reachable maxGeneral maxReserved s" "0 < maxGeneral" "0 < maxReserved"
  shows "let p = us_pool s; held = up_granted p @ us_leases s in
    up_usedGeneral p = tally (uses PermitGeneral) held \<and> up_usedGeneral p \<le> maxGeneral \<and>
    up_usedReserve p = tally (uses PermitReserved) held \<and> up_usedReserve p \<le> maxReserved \<and>
    upstream_snapshot p =
      (tally (in_lane LaneGeneral) held, tally (in_lane LaneInteractive) held, tally (uses PermitReserved) held,
       tally borrows held, int (length (up_generalWaiters p)), int (length (up_interactiveWaiters p))) \<and>
    (\<forall>w l. (w, l, PermitReserved) \<in> set held \<longrightarrow> l = LaneInteractive) \<and>
    tally (in_lane LaneGeneral) held \<le> maxGeneral \<and>
    tally (in_lane LaneInteractive) held \<le> maxGeneral + maxReserved \<and>
    (up_generalWaiters p \<noteq> [] \<longrightarrow> up_usedGeneral p = maxGeneral) \<and>
    (up_interactiveWaiters p \<noteq> [] \<longrightarrow> up_usedGeneral p = maxGeneral \<and> up_usedReserve p = maxReserved)"
proof -
  have inv: "upstream_inv s" and max: "up_maxGeneral (us_pool s) = maxGeneral" "up_maxReserved (us_pool s) = maxReserved"
    using upstream_reachable_inv [OF assms(1)] assms(2,3) by auto
  note lanes = upstream_lane_counts [OF inv]
  have g: "\<forall>h \<in> set (up_granted (us_pool s) @ us_leases s). grant_ok h"
    and counts: "pool_counts (us_pool s) (up_granted (us_pool s) @ us_leases s)"
    and le: "up_usedGeneral (us_pool s) \<le> maxGeneral" "up_usedReserve (us_pool s) \<le> maxReserved"
    and idle: "pool_idle (us_pool s)"
    using inv max unfolding upstream_inv_def pool_core_def by blast+
  have "0 \<le> up_activeGeneralLane (us_pool s)"
    using counts tally_nonneg [of "in_lane LaneGeneral"] unfolding pool_counts_def by presburger
  moreover have "l = LaneInteractive" if "(w, l, PermitReserved) \<in> set (up_granted (us_pool s) @ us_leases s)" for w l
    using g that by fastforce
  ultimately show ?thesis
    using counts le idle lanes max
    unfolding Let_def pool_counts_def upstream_snapshot_def pool_idle_def by simp
qed

theorem upstream_pool_exact_witness:
  "upstream_snapshot (us_pool busy_general) = (1, 0, 0, 0, 1, 0) \<and> up_usedGeneral (us_pool busy_general) = 1"
  using upstream_pool_exact [OF busy_general_reachable]
  by (simp add: busy_general_def newUpstreamPool_def Let_def)

text \<open>C15: the reserve works. Whatever the load of the general lane, an interactive request that
  arrives while fewer than \<open>maxReserved\<close> interactive requests are active is granted a reserved
  permit in the same critical section, without waiting.\<close>

theorem interactive_reserve_guarantee:
  assumes "upstream_reachable maxGeneral maxReserved s" "0 < maxGeneral" "0 < maxReserved"
    and "up_activeInteractiveLane (us_pool s) < maxReserved" "started < deadline"
  shows "\<exists>p. upstream_acquire_enter (us_pool s) w LaneInteractive False False started deadline = Inr p \<and>
    (w, LaneInteractive, PermitReserved) \<in> set (up_granted p)"
proof -
  have inv: "upstream_inv s" and max: "up_maxReserved (us_pool s) = maxReserved"
    using upstream_reachable_inv [OF assms(1)] assms(2,3) by auto
  have free: "up_usedReserve (us_pool s) < maxReserved"
    using upstream_lane_counts [OF inv] assms(4) by simp
  with inv max have "up_interactiveWaiters (us_pool s) = []"
    by (auto simp: upstream_inv_def pool_idle_def)
  then show ?thesis
    using dispatch_serves_reserve [of "(us_pool s)\<lparr>up_interactiveWaiters := [w]\<rparr>" w] free max assms(5)
    by (simp add: upstream_acquire_enter_def lane_valid_def)
qed

theorem interactive_reserve_guarantee_witness:
  "\<exists>p. upstream_acquire_enter (us_pool busy_general) 2 LaneInteractive False False 0 1 = Inr p \<and>
    (2, LaneInteractive, PermitReserved) \<in> set (up_granted p)"
  using interactive_reserve_guarantee [OF busy_general_reachable, of 0 1 2]
  by (simp add: busy_general_def newUpstreamPool_def)

end
