(* ===== verification/Scheduler.thy ===== *)
theory Scheduler
  imports Pending_Quota Upstream_Pool "HOL-Library.Word"
begin

text \<open>
  Package \<open>scheduler\<close>, file \<open>scheduler.go\<close>, last part: \<open>Limits\<close>, the \<open>Scheduler\<close> that puts the three
  kinds of boundary together, its leases, its entry points and \<open>Snapshot\<close>.

  A call that waits is a \<open>_begin\<close> part and a \<open>_end\<close> part with the outcome of \<open>waitUntil\<close> in between,
  as in the theories below. Times are \<open>int\<close> nanoseconds; the rejection counter is the code's
  \<open>atomic.Uint64\<close>.
\<close>

section \<open>Limits\<close>

record limits =
  MaxClassifications :: int
  MaxPendingRequests :: int
  MaxPendingBytes :: int
  QueueTimeout :: int
  MaxGeneralUpstream :: int
  InteractiveReservedUpstream :: int
  MaxConcurrentTransforms :: int
  MaxOpenDeliveries :: int

definition MiB :: int where "MiB = 1024 * 1024"

definition DefaultLimits :: limits where
  "DefaultLimits = \<lparr>MaxClassifications = 8, MaxPendingRequests = 24, MaxPendingBytes = 512 * MiB,
     QueueTimeout = 60 * 1000000000, MaxGeneralUpstream = 4, InteractiveReservedUpstream = 1,
     MaxConcurrentTransforms = 2, MaxOpenDeliveries = 16\<rparr>"

definition limits_validate :: "limits \<Rightarrow> (sched_error, unit) result" where
  "limits_validate l =
     (if MaxClassifications l \<le> 0 \<or> MaxPendingRequests l \<le> 0 \<or> MaxPendingBytes l \<le> 0 \<or>
         QueueTimeout l \<le> 0 \<or> MaxGeneralUpstream l \<le> 0 \<or> InteractiveReservedUpstream l \<le> 0 \<or>
         MaxConcurrentTransforms l \<le> 0 \<or> MaxOpenDeliveries l \<le> 0
      then Inl ErrInvalidLimits else Inr ())"

section \<open>Scheduler and leases\<close>

record scheduler =
  sc_limits :: limits
  sc_classification :: fifo_limiter
  sc_pending :: pending_quota
  sc_upstream :: upstream_pool
  sc_transform :: fifo_limiter
  sc_delivery :: fifo_limiter
  sc_rejections :: "64 word"

definition New :: "limits \<Rightarrow> (sched_error, scheduler) result" where
  "New l =
     (case limits_validate l of
        Inl e \<Rightarrow> Inl e
      | Inr _ \<Rightarrow> Inr \<lparr>sc_limits = l,
          sc_classification = newFIFOLimiter (MaxClassifications l),
          sc_pending = newPendingQuota (MaxPendingRequests l) (MaxPendingBytes l),
          sc_upstream = newUpstreamPool (MaxGeneralUpstream l) (InteractiveReservedUpstream l),
          sc_transform = newFIFOLimiter (MaxConcurrentTransforms l),
          sc_delivery = newFIFOLimiter (MaxOpenDeliveries l),
          sc_rejections = 0\<rparr>)"

text \<open>The closures stored as \<open>release\<close> in a lease, as data.\<close>

datatype release_action =
    ReleaseClassification | ReleaseTransform | ReleaseDelivery
  | ReleaseUpstream lane permit_kind
  | ReleaseJob int

fun run_release :: "release_action \<Rightarrow> scheduler \<Rightarrow> scheduler" where
  "run_release ReleaseClassification s = s\<lparr>sc_classification := fifo_release (sc_classification s)\<rparr>"
| "run_release ReleaseTransform s = s\<lparr>sc_transform := fifo_release (sc_transform s)\<rparr>"
| "run_release ReleaseDelivery s = s\<lparr>sc_delivery := fifo_release (sc_delivery s)\<rparr>"
| "run_release (ReleaseUpstream ln k) s = s\<lparr>sc_upstream := upstream_release (sc_upstream s) ln k\<rparr>"
| "run_release (ReleaseJob retained) s = s\<lparr>sc_pending := quota_releaseRequest (sc_pending s) retained\<rparr>"

record lease =
  ls_stage :: "stage option"
  ls_lane :: "lane option"
  ls_wait :: int
  ls_done :: bool
  ls_release :: release_action

definition newLease :: "stage \<Rightarrow> lane option \<Rightarrow> int \<Rightarrow> release_action \<Rightarrow> lease" where
  "newLease st ln wait release =
     \<lparr>ls_stage = Some st, ls_lane = ln, ls_wait = wait, ls_done = False, ls_release = release\<rparr>"

definition newJobLease :: "int \<Rightarrow> lease" where
  "newJobLease retained =
     \<lparr>ls_stage = None, ls_lane = None, ls_wait = 0, ls_done = False, ls_release = ReleaseJob retained\<rparr>"

text \<open>\<open>Release\<close> of both kinds of lease: \<open>sync.Once\<close> is the flag \<open>ls_done\<close>, a nil lease is \<open>None\<close>.\<close>

definition Lease_Release :: "lease option \<Rightarrow> scheduler \<Rightarrow> lease option \<times> scheduler" where
  "Lease_Release ol s =
     (case ol of
        None \<Rightarrow> (None, s)
      | Some l \<Rightarrow> if ls_done l then (Some l, s)
                  else (Some (l\<lparr>ls_done := True\<rparr>), run_release (ls_release l) s))"

definition recordRejection :: "scheduler \<Rightarrow> sched_error option \<Rightarrow> scheduler" where
  "recordRejection s err =
     (case err of
        Some (CapacityTimeoutError _) \<Rightarrow> s\<lparr>sc_rejections := sc_rejections s + 1\<rparr>
      | _ \<Rightarrow> s)"

section \<open>The limiter stages\<close>

datatype limiter_stage = AtClassification | AtTransform | AtDelivery

fun stage_limiter :: "limiter_stage \<Rightarrow> scheduler \<Rightarrow> fifo_limiter" where
  "stage_limiter AtClassification s = sc_classification s"
| "stage_limiter AtTransform s = sc_transform s"
| "stage_limiter AtDelivery s = sc_delivery s"

fun stage_put :: "limiter_stage \<Rightarrow> fifo_limiter \<Rightarrow> scheduler \<Rightarrow> scheduler" where
  "stage_put AtClassification l s = s\<lparr>sc_classification := l\<rparr>"
| "stage_put AtTransform l s = s\<lparr>sc_transform := l\<rparr>"
| "stage_put AtDelivery l s = s\<lparr>sc_delivery := l\<rparr>"

fun stage_name :: "limiter_stage \<Rightarrow> stage" where
  "stage_name AtClassification = StageClassification"
| "stage_name AtTransform = StageTransform"
| "stage_name AtDelivery = StageDelivery"

fun stage_release :: "limiter_stage \<Rightarrow> release_action" where
  "stage_release AtClassification = ReleaseClassification"
| "stage_release AtTransform = ReleaseTransform"
| "stage_release AtDelivery = ReleaseDelivery"

text \<open>\<open>AcquireClassification\<close>, \<open>AcquireTransform\<close> and \<open>AcquireDelivery\<close> differ in the limiter only.
  \<open>None\<close> as the result of the first part is a call that waits. When a call returns, its waiter
  object is garbage: it leaves the list of granted waiters.\<close>

definition fifo_drop_waiter :: "nat \<Rightarrow> fifo_limiter \<Rightarrow> fifo_limiter" where
  "fifo_drop_waiter w l = l\<lparr>fl_granted := remove1 w (fl_granted l)\<rparr>"

definition quota_drop_waiter :: "nat \<Rightarrow> pending_quota \<Rightarrow> pending_quota" where
  "quota_drop_waiter w q = q\<lparr>pq_grantedRequests := remove1 w (pq_grantedRequests q)\<rparr>"

definition AcquireStage_begin ::
  "limiter_stage \<Rightarrow> scheduler \<Rightarrow> nat \<Rightarrow> bool \<Rightarrow> int \<Rightarrow> int \<Rightarrow> int \<Rightarrow> scheduler \<times> (sched_error, lease option) result" where
  "AcquireStage_begin at s w ctxErr now started waited =
     (case fifo_acquire_enter (stage_limiter at s) w ctxErr started (now + QueueTimeout (sc_limits s)) (stage_name at) of
        Inl e \<Rightarrow> (recordRejection s (Some e), Inl e)
      | Inr (Entered, l) \<Rightarrow> (stage_put at l s, Inr (Some (newLease (stage_name at) None waited (stage_release at))))
      | Inr (Queued, l) \<Rightarrow> (stage_put at l s, Inr None))"

definition AcquireStage_end ::
  "limiter_stage \<Rightarrow> scheduler \<Rightarrow> nat \<Rightarrow> int \<Rightarrow> wait_case \<Rightarrow> int \<Rightarrow> scheduler \<times> (sched_error, lease) result" where
  "AcquireStage_end at s w remaining taken waited =
     (case waitUntil remaining taken (stage_name at) of
        Inl e \<Rightarrow> (recordRejection (stage_put at (fifo_drop_waiter w (fifo_acquire_abandon (stage_limiter at s) w)) s) (Some e), Inl e)
      | Inr _ \<Rightarrow> (stage_put at (fifo_drop_waiter w (stage_limiter at s)) s,
                  Inr (newLease (stage_name at) None waited (stage_release at))))"

section \<open>Pending requests\<close>

text \<open>\<open>AcquirePendingRequest\<close>; the goroutine that closes the request when its lifecycle ends is a
  later call of \<open>Close\<close> by another client.\<close>

definition AcquirePendingRequest_begin ::
  "scheduler \<Rightarrow> nat \<Rightarrow> lane \<Rightarrow> bool \<Rightarrow> int \<Rightarrow> int \<Rightarrow> scheduler \<times> (sched_error, pending_request option) result" where
  "AcquirePendingRequest_begin s w ln ctxErr now now2 =
     (if \<not> lane_valid ln then (s, Inl ErrInvalidLane)
      else (case quota_acquireRequest_enter (sc_pending s) w ctxErr now2 (now + QueueTimeout (sc_limits s)) of
              Inl e \<Rightarrow> (recordRejection s (Some e), Inl e)
            | Inr (Entered, q) \<Rightarrow>
                (s\<lparr>sc_pending := q\<rparr>, Inr (Some \<lparr>pr_lane = ln, pr_closed = False, pr_reserved = 0\<rparr>))
            | Inr (Queued, q) \<Rightarrow> (s\<lparr>sc_pending := q\<rparr>, Inr None)))"

definition AcquirePendingRequest_end ::
  "scheduler \<Rightarrow> nat \<Rightarrow> lane \<Rightarrow> int \<Rightarrow> wait_case \<Rightarrow> scheduler \<times> (sched_error, pending_request) result" where
  "AcquirePendingRequest_end s w ln remaining taken =
     (case waitUntil remaining taken StagePendingRequest of
        Inl e \<Rightarrow> (recordRejection (s\<lparr>sc_pending := quota_drop_waiter w (quota_acquireRequest_abandon (sc_pending s) w)\<rparr>) (Some e), Inl e)
      | Inr _ \<Rightarrow> (s\<lparr>sc_pending := quota_drop_waiter w (sc_pending s)\<rparr>, Inr \<lparr>pr_lane = ln, pr_closed = False, pr_reserved = 0\<rparr>))"

text \<open>The quota calls a method of the request still has to make, made at once.\<close>

definition run_quota :: "deferred list \<Rightarrow> scheduler \<Rightarrow> scheduler" where
  "run_quota ds s = s\<lparr>sc_pending := foldl (\<lambda>q d. run_deferred d q) (sc_pending s) ds\<rparr>"

definition HandoffPassthrough ::
  "scheduler \<Rightarrow> pending_request \<Rightarrow> scheduler \<times> pending_request \<times> (sched_error, lease) result" where
  "HandoffPassthrough s p =
     (case handoff p True of
        Inl e \<Rightarrow> (s, p, Inl e)
      | Inr (p', ds, retained) \<Rightarrow> (run_quota ds s, p', Inr (newJobLease retained)))"

definition Close :: "scheduler \<Rightarrow> pending_request \<Rightarrow> scheduler \<times> pending_request" where
  "Close s p = (case finish p of (p', ds) \<Rightarrow> (run_quota ds s, p'))"

text \<open>\<open>AcquireUpstream\<close> and \<open>AcquireUpstreamJob\<close> share everything up to the wait.\<close>

definition AcquireUpstream_begin ::
  "scheduler \<Rightarrow> pending_request \<Rightarrow> nat \<Rightarrow> bool \<Rightarrow> bool \<Rightarrow> int \<Rightarrow> int \<Rightarrow>
   scheduler \<times> pending_request \<times> (sched_error, unit) result" where
  "AcquireUpstream_begin s p w ctxErr lifecycleErr started deadline =
     (case openError p of
        Inl e \<Rightarrow> (s, p, Inl e)
      | Inr _ \<Rightarrow>
          (case upstream_acquire_enter (sc_upstream s) w (pr_lane p) ctxErr lifecycleErr started deadline of
             Inl e \<Rightarrow> (case Close s p of (s', p') \<Rightarrow> (recordRejection s' (Some e), p', Inl e))
           | Inr pool \<Rightarrow> (s\<lparr>sc_upstream := pool\<rparr>, p, Inr ())))"

text \<open>The end of \<open>upstreamPool.acquire\<close>: the grant and its lease, or the abandoned wait. The channel
  \<open>ready\<close> is closed when the waiter is granted and never otherwise, so a wait that ends by it finds
  the grant; the branch without one is there to make the function total.\<close>

definition upstream_acquire_end ::
  "scheduler \<Rightarrow> nat \<Rightarrow> lane \<Rightarrow> int \<Rightarrow> wait_case \<Rightarrow> int \<Rightarrow> scheduler \<times> (sched_error, lease) result" where
  "upstream_acquire_end s w ln remaining taken waited =
     (case waitUntil remaining taken StageUpstream of
        Inl e \<Rightarrow> (s\<lparr>sc_upstream := upstream_acquire_abandon (sc_upstream s) w ln\<rparr>, Inl e)
      | Inr _ \<Rightarrow>
          (case find (\<lambda>(v, _, _). v = w) (up_granted (sc_upstream s)) of
             None \<Rightarrow> (s, Inl (CapacityTimeoutError StageUpstream))
           | Some (v, l, permit) \<Rightarrow>
               (s\<lparr>sc_upstream := (sc_upstream s)\<lparr>up_granted := remove1 (v, l, permit) (up_granted (sc_upstream s))\<rparr>\<rparr>,
                Inr (newLease StageUpstream (Some l) waited (ReleaseUpstream l permit)))))"

definition AcquireUpstream_end ::
  "scheduler \<Rightarrow> pending_request \<Rightarrow> nat \<Rightarrow> int \<Rightarrow> wait_case \<Rightarrow> int \<Rightarrow>
   scheduler \<times> pending_request \<times> (sched_error, lease) result" where
  "AcquireUpstream_end s p w remaining taken waited =
     (case upstream_acquire_end s w (pr_lane p) remaining taken waited of
        (s1, r) \<Rightarrow>
          (case Close s1 p of
             (s2, p') \<Rightarrow>
               (case r of Inl e \<Rightarrow> (recordRejection s2 (Some e), p', Inl e) | Inr l \<Rightarrow> (s2, p', Inr l))))"

definition AcquireUpstreamJob_end ::
  "scheduler \<Rightarrow> pending_request \<Rightarrow> nat \<Rightarrow> int \<Rightarrow> wait_case \<Rightarrow> int \<Rightarrow> bool \<Rightarrow> bool \<Rightarrow>
   scheduler \<times> pending_request \<times> (sched_error, lease \<times> lease) result" where
  "AcquireUpstreamJob_end s p w remaining taken waited ctxErr lifecycleErr =
     (case upstream_acquire_end s w (pr_lane p) remaining taken waited of
        (s1, Inl e) \<Rightarrow> (case Close s1 p of (s2, p') \<Rightarrow> (recordRejection s2 (Some e), p', Inl e))
      | (s1, Inr l) \<Rightarrow>
          (case handoff p False of
             Inl e \<Rightarrow>
               (snd (Lease_Release (Some l) s1), p,
                Inl (if ctxErr then ContextErr else if lifecycleErr then LifecycleErr else e))
           | Inr (p', ds, retained) \<Rightarrow> (run_quota ds s1, p', Inr (l, newJobLease retained))))"

section \<open>Snapshot\<close>

record snapshot =
  ActiveClassifications :: int
  WaitingClassifications :: int
  PendingRequests :: int
  PendingBytes :: int
  WaitingPendingRequests :: int
  WaitingPendingByteRequests :: int
  WaitingPendingBytes :: int
  ActiveGeneralUpstream :: int
  ActiveInteractiveUpstream :: int
  ActiveReservedUpstream :: int
  ActiveBorrowedInteractive :: int
  WaitingGeneralUpstream :: int
  WaitingInteractiveUpstream :: int
  ActiveTransforms :: int
  WaitingTransforms :: int
  ActiveDeliveries :: int
  WaitingDeliveries :: int
  CapacityRejections :: "64 word"

definition Snapshot :: "scheduler \<Rightarrow> snapshot" where
  "Snapshot s =
     (case (fifo_snapshot (sc_classification s), quota_snapshot (sc_pending s), upstream_snapshot (sc_upstream s),
            fifo_snapshot (sc_transform s), fifo_snapshot (sc_delivery s)) of
        ((ca, cw), (pr, pb, wr, wbr, wb), (ga, ia, ra, bi, gw, iw), (ta, tw), (da, dw)) \<Rightarrow>
          \<lparr>ActiveClassifications = ca, WaitingClassifications = cw, PendingRequests = pr, PendingBytes = pb,
           WaitingPendingRequests = wr, WaitingPendingByteRequests = wbr, WaitingPendingBytes = wb,
           ActiveGeneralUpstream = ga, ActiveInteractiveUpstream = ia, ActiveReservedUpstream = ra,
           ActiveBorrowedInteractive = bi, WaitingGeneralUpstream = gw, WaitingInteractiveUpstream = iw,
           ActiveTransforms = ta, WaitingTransforms = tw, ActiveDeliveries = da, WaitingDeliveries = dw,
           CapacityRejections = sc_rejections s\<rparr>)"

section \<open>What the entry points do to the parts they do not own\<close>

lemma run_quota_upstream [simp]: "sc_upstream (run_quota ds s) = sc_upstream s"
  by (simp add: run_quota_def)

lemma recordRejection_keeps [simp]:
  "sc_upstream (recordRejection s e) = sc_upstream s" "sc_pending (recordRejection s e) = sc_pending s"
  by (auto simp: recordRejection_def split: option.splits sched_error.splits)

lemma Close_effect:
  assumes "Close s p = (s', p')"
  shows "sc_upstream s' = sc_upstream s \<and> pr_closed p' \<and>
    sc_pending s' = (if pr_closed p then sc_pending s else quota_releaseRequest (sc_pending s) (pr_reserved p))"
  using assms by (auto simp: Close_def finish_def run_quota_def split: prod.splits if_splits)

lemma handoff_effect:
  assumes "handoff p False = Inr (p', ds, retained)"
  shows "pr_closed p' \<and> retained = 0 \<and> \<not> pr_closed p \<and>
    sc_pending (run_quota ds s) = quota_releaseBytes (sc_pending s) (pr_reserved p)"
  using assms by (auto simp: handoff_def run_quota_def Let_def split: if_splits)

lemma handoff_error: "handoff p b = Inl e \<Longrightarrow> pr_closed p"
  by (auto simp: handoff_def Let_def split: if_splits)

section \<open>An upstream wait ends with one lease or none\<close>

text \<open>Dispatching grants waiters only.\<close>

definition pool_knows :: "upstream_pool \<Rightarrow> nat \<Rightarrow> bool" where
  "pool_knows p w \<longleftrightarrow> w \<in> set (up_generalWaiters p) \<union> set (up_interactiveWaiters p) \<union> fst ` set (up_granted p)"

lemma grant_knows: "w' \<in> set (up_generalWaiters p) \<union> set (up_interactiveWaiters p) \<Longrightarrow>
    \<not> pool_knows p w \<Longrightarrow> \<not> pool_knows (grantLocked p w' ln k) w"
  by (auto simp: pool_knows_def dest: set_remove1_subset [THEN subsetD] split: if_splits)

lemma dispatch_knows: "\<not> pool_knows p w \<Longrightarrow> \<not> pool_knows (upstream_dispatchLocked p) w"
  unfolding upstream_dispatchLocked_def
  by (rule general_loop_keeps [where I = "\<lambda>p. \<not> pool_knows p w"],
      rule reserved_loop_keeps [where I = "\<lambda>p. \<not> pool_knows p w"])
    (simp_all add: grant_knows)

lemma find_grant:
  assumes "w \<in> fst ` set gs" "distinct (map fst gs)"
  obtains l k where "find (\<lambda>(v, _, _). v = w) gs = Some (w, l, k)" "(w, l, k) \<in> set gs"
    "w \<notin> fst ` set (remove1 (w, l, k) gs)"
proof -
  obtain l k where m: "(w, l, k) \<in> set gs" using assms(1) by auto
  have "w \<notin> set (map fst (remove1 (w, l, k) gs))"
    using map_remove1_distinct [OF assms(2) m] assms(2) by simp
  moreover have "find (\<lambda>(v, _, _). v = w) gs = Some (w, l, k)"
  proof (cases "find (\<lambda>(v, _, _). v = w) gs")
    case None
    with m show ?thesis by (auto simp: find_None_iff)
  next
    case (Some g)
    then have "g \<in> set gs" "fst g = w" by (auto simp: find_Some_iff in_set_conv_nth)
    then show ?thesis using Some m assms(2) by (metis distinct_map fst_conv inj_onD)
  qed
  ultimately show ?thesis using that m by auto
qed

definition queued_by_lane :: "upstream_pool \<Rightarrow> nat \<Rightarrow> lane \<Rightarrow> bool" where
  "queued_by_lane p w ln \<longleftrightarrow>
     (w \<in> set (up_generalWaiters p) \<longrightarrow> ln = LaneGeneral) \<and> (w \<in> set (up_interactiveWaiters p) \<longrightarrow> ln \<noteq> LaneGeneral)"

lemma abandon_forgets:
  assumes "pool_core L p" "queued_by_lane p w ln"
  shows "\<not> pool_knows (upstream_acquire_abandon p w ln) w"
proof (cases "w \<in> fst ` set (up_granted p)")
  case True
  have d: "distinct (map fst (up_granted p))" "w \<notin> set (up_generalWaiters p)" "w \<notin> set (up_interactiveWaiters p)"
    using pool_ids [OF assms(1)] True by auto
  obtain l k where g: "find (\<lambda>(v, _, _). v = w) (up_granted p) = Some (w, l, k)"
    "w \<notin> fst ` set (remove1 (w, l, k) (up_granted p))"
    using find_grant [OF True d(1)] by metis
  then have "\<not> pool_knows (releaseGrantLocked (p\<lparr>up_granted := remove1 (w, l, k) (up_granted p)\<rparr>) l k) w"
    using d by (auto simp: pool_knows_def)
  with g(1) show ?thesis by (simp add: upstream_acquire_abandon_def dispatch_knows)
next
  case False
  then have none: "find (\<lambda>(v, _, _). v = w) (up_granted p) = None" by (force simp: find_None_iff)
  have d: "distinct (up_generalWaiters p)" "distinct (up_interactiveWaiters p)"
    using pool_ids [OF assms(1)] by auto
  have "\<not> pool_knows (p\<lparr>up_generalWaiters := remove1 w (up_generalWaiters p)\<rparr>) w" if "ln = LaneGeneral"
    using that d False assms(2) by (auto simp: pool_knows_def queued_by_lane_def)
  moreover have "\<not> pool_knows (p\<lparr>up_interactiveWaiters := remove1 w (up_interactiveWaiters p)\<rparr>) w" if "ln \<noteq> LaneGeneral"
    using that d False assms(2) by (auto simp: pool_knows_def queued_by_lane_def)
  ultimately show ?thesis using none False assms(2)
    by (auto simp: upstream_acquire_abandon_def dispatch_knows) (auto simp: pool_knows_def queued_by_lane_def)
qed

text \<open>The end of the wait: an error leaves no trace of the waiter in the pool, a lease is one grant.\<close>

lemma acquire_end_cases:
  assumes inv: "upstream_inv \<lparr>us_pool = sc_upstream s, us_leases = L\<rparr>"
    and granted: "taken = WaitReady \<Longrightarrow> w \<in> fst ` set (up_granted (sc_upstream s))"
    and lane: "queued_by_lane (sc_upstream s) w ln"
    and "upstream_acquire_end s w ln remaining taken waited = (s', r)"
  shows "sc_pending s' = sc_pending s \<and>
    (case r of
       Inl e \<Rightarrow> upstream_inv \<lparr>us_pool = sc_upstream s', us_leases = L\<rparr> \<and> \<not> pool_knows (sc_upstream s') w
     | Inr l \<Rightarrow> \<not> pool_knows (sc_upstream s') w \<and> ls_done l = False \<and>
         (\<exists>k ln'. ls_release l = ReleaseUpstream ln' k \<and>
           upstream_inv \<lparr>us_pool = sc_upstream s', us_leases = (w, ln', k) # L\<rparr>))"
proof -
  have core: "pool_core L (sc_upstream s)" using inv by (simp add: upstream_inv_def)
  show ?thesis
  proof (cases "waitUntil remaining taken StageUpstream")
    case (Inl e)
    with assms(4) abandon_inv [OF inv, of w ln] abandon_forgets [OF core lane] show ?thesis
      by (auto simp: upstream_acquire_end_def)
  next
    case (Inr u)
    then have mem: "w \<in> fst ` set (up_granted (sc_upstream s))"
      by (intro granted) (auto simp: waitUntil_def split: if_splits wait_case.splits)
    have d: "distinct (map fst (up_granted (sc_upstream s)))" "w \<notin> set (up_generalWaiters (sc_upstream s))"
      "w \<notin> set (up_interactiveWaiters (sc_upstream s))"
      using pool_ids [OF core] mem by auto
    obtain l k where g: "find (\<lambda>(v, _, _). v = w) (up_granted (sc_upstream s)) = Some (w, l, k)"
      "(w, l, k) \<in> set (up_granted (sc_upstream s))" "w \<notin> fst ` set (remove1 (w, l, k) (up_granted (sc_upstream s)))"
      using find_grant [OF mem d(1)] by metis
    from g(2) have "upstream_inv \<lparr>us_pool = (sc_upstream s)\<lparr>up_granted := remove1 (w, l, k) (up_granted (sc_upstream s))\<rparr>,
        us_leases = (w, l, k) # L\<rparr>"
      using wake_inv [OF inv, of "(w, l, k)"] by simp
    with assms(4) Inr g(1,3) d(2,3) show ?thesis
      by (auto simp: upstream_acquire_end_def newLease_def pool_knows_def)
  qed
qed

definition busy_scheduler :: scheduler where
  "busy_scheduler = \<lparr>sc_limits = DefaultLimits, sc_classification = newFIFOLimiter 8,
     sc_pending = (newPendingQuota 24 512)\<lparr>pq_requests := 2, pq_bytes := 5\<rparr>, sc_upstream = us_pool busy_general,
     sc_transform = newFIFOLimiter 2, sc_delivery = newFIFOLimiter 16, sc_rejections = 0\<rparr>"

definition general_request :: pending_request where
  "general_request = \<lparr>pr_lane = LaneGeneral, pr_closed = False, pr_reserved = 5\<rparr>"

lemma busy_scheduler_inv: "upstream_inv \<lparr>us_pool = sc_upstream busy_scheduler, us_leases = []\<rparr>"
  using upstream_reachable_inv [OF busy_general_reachable] by (simp add: busy_scheduler_def busy_general_def)

section \<open>Properties\<close>



end
