(* ===== verification/Go_Path.thy ===== *)
theory Go_Path
  imports Relay_Prelude
begin

text \<open>
  The functions of Go's \<open>path/filepath\<close> on Unix that the relay uses to bind files to one canonical
  path: \<open>Clean\<close>, \<open>Join\<close> of two elements, \<open>Abs\<close>, \<open>Dir\<close> and \<open>Base\<close>. The working directory is an argument
  (\<open>None\<close> is a failed \<open>os.Getwd\<close>).
\<close>

definition slash :: char where "slash = CHR ''/''"

text \<open>One part of \<open>Clean\<close>'s loop on the output built so far, last component first.\<close>

definition clean_step :: "bool \<Rightarrow> string list \<Rightarrow> string \<Rightarrow> string list" where
  "clean_step rooted out part =
     (if part = [] \<or> part = ''.'' then out
      else if part = ''..'' then
        (case out of
           c # out' \<Rightarrow> if c = ''..'' then ''..'' # out else out'
         | [] \<Rightarrow> if rooted then [] else [''..''])
      else part # out)"

definition clean_comps :: "bool \<Rightarrow> string list \<Rightarrow> string list" where
  "clean_comps rooted comps = rev (foldl (clean_step rooted) [] comps)"

definition filepath_Clean :: "string \<Rightarrow> string" where
  "filepath_Clean path =
     (let rooted = has_prefix path [slash]; comps = clean_comps rooted (split_on slash path)
      in if rooted then slash # join_with slash comps
         else if comps = [] then ''.'' else join_with slash comps)"

definition filepath_Join :: "string \<Rightarrow> string \<Rightarrow> string" where
  "filepath_Join a b =
     (if a = [] then (if b = [] then [] else filepath_Clean b)
      else if b = [] then filepath_Clean a else filepath_Clean (a @ slash # b))"

definition filepath_Abs :: "string option \<Rightarrow> string \<Rightarrow> string option" where
  "filepath_Abs wd path =
     (if has_prefix path [slash] then Some (filepath_Clean path)
      else (case wd of None \<Rightarrow> None | Some d \<Rightarrow> Some (filepath_Join d path)))"

definition filepath_Dir :: "string \<Rightarrow> string" where
  "filepath_Dir p = filepath_Clean (rev (dropWhile (\<lambda>c. c \<noteq> slash) (rev p)))"

definition filepath_Base :: "string \<Rightarrow> string" where
  "filepath_Base p =
     (if p = [] then ''.''
      else let b = rev (takeWhile (\<lambda>c. c \<noteq> slash) (dropWhile (\<lambda>c. c = slash) (rev p)))
           in if b = [] then [slash] else b)"

definition rooted_path :: "string \<Rightarrow> bool" where
  "rooted_path p \<longleftrightarrow> has_prefix p [slash]"

text \<open>A component that \<open>Clean\<close> keeps in a rooted path.\<close>

definition plain_comp :: "string \<Rightarrow> bool" where
  "plain_comp c \<longleftrightarrow> c \<noteq> [] \<and> c \<noteq> ''.'' \<and> c \<noteq> ''..'' \<and> slash \<notin> set c"

lemma rooted_path_Cons [simp]: "rooted_path (c # s) \<longleftrightarrow> c = slash"
  by (auto simp: rooted_path_def)

lemma rooted_path_Nil [simp]: "\<not> rooted_path []"
  by (simp add: rooted_path_def)

lemma clean_step_plain:
  assumes "list_all plain_comp out" "slash \<notin> set c"
  shows "list_all plain_comp (clean_step True out c)"
  using assms by (cases out) (auto simp: clean_step_def plain_comp_def)

lemma clean_comps_plain:
  assumes "\<forall>c \<in> set comps. slash \<notin> set c"
  shows "list_all plain_comp (clean_comps True comps)"
proof -
  have "list_all plain_comp out \<Longrightarrow> list_all plain_comp (foldl (clean_step True) out comps)" for out
    using assms by (induction comps arbitrary: out) (auto simp: clean_step_plain)
  from this [of "[]"] show ?thesis by (simp add: clean_comps_def list_all_iff)
qed

lemma clean_comps_id: "list_all plain_comp comps \<Longrightarrow> clean_comps True comps = comps"
proof -
  assume p: "list_all plain_comp comps"
  have "foldl (clean_step True) out comps = rev comps @ out" for out
    using p by (induction comps arbitrary: out) (auto simp: clean_step_def plain_comp_def)
  then show ?thesis by (simp add: clean_comps_def)
qed

lemma clean_rooted_form:
  assumes "rooted_path p"
  obtains comps where "filepath_Clean p = slash # join_with slash comps" "list_all plain_comp comps"
  using assms clean_comps_plain [of "split_on slash p"] split_on_parts [of _ slash p]
  by (auto simp: filepath_Clean_def rooted_path_def Let_def)

lemma clean_plain: "list_all plain_comp comps \<Longrightarrow>
    filepath_Clean (slash # join_with slash comps) = slash # join_with slash comps"
proof (cases "comps = []")
  case False
  assume p: "list_all plain_comp comps"
  then have "\<forall>c \<in> set comps. slash \<notin> set c" by (auto simp: list_all_iff plain_comp_def)
  then have "split_on slash (slash # join_with slash comps) = [] # comps"
    using False split_on_append_sep [of slash "[]" "join_with slash comps"] split_join [of comps slash] by (auto simp: list_all_iff)
  then show ?thesis using clean_comps_id [OF p]
    by (simp add: filepath_Clean_def clean_comps_def clean_step_def)
next
  case True
  then show ?thesis by (simp add: filepath_Clean_def slash_def clean_comps_def clean_step_def)
qed

lemma Clean_rooted [simp]: "rooted_path p \<Longrightarrow> rooted_path (filepath_Clean p)"
  by (erule clean_rooted_form) simp

lemma Clean_idem: "rooted_path p \<Longrightarrow> filepath_Clean (filepath_Clean p) = filepath_Clean p"
  by (erule clean_rooted_form) (simp add: clean_plain)

text \<open>\<open>os.Getwd\<close> returns a rooted path name.\<close>

definition getwd_rooted :: "string option \<Rightarrow> bool" where
  "getwd_rooted wd \<longleftrightarrow> (case wd of None \<Rightarrow> True | Some d \<Rightarrow> rooted_path d)"

lemma Abs_clean:
  assumes "filepath_Abs wd p = Some a" "getwd_rooted wd"
  shows "rooted_path a \<and> filepath_Clean a = a"
proof -
  have "rooted_path (d @ slash # p)" if "rooted_path d" for d
    using that by (auto simp: rooted_path_def has_prefix_iff)
  then show ?thesis
    using assms unfolding filepath_Abs_def getwd_rooted_def
    by (auto simp: filepath_Join_def rooted_path_def [symmetric] Clean_idem split: if_splits option.splits)
qed

lemma Abs_id: "rooted_path a \<Longrightarrow> filepath_Clean a = a \<Longrightarrow> filepath_Abs wd a = Some a"
  by (simp add: filepath_Abs_def rooted_path_def)

section \<open>Dir gets shorter\<close>

text \<open>The bytes that the components and a separator after each of them take.\<close>

definition comps_size :: "string list \<Rightarrow> nat" where
  "comps_size cs = sum_list (map (\<lambda>c. if c = [] then 0 else length c + 1) cs)"

lemma clean_step_size: "comps_size (clean_step rooted out c) \<le> comps_size (c # out)"
  by (cases out) (auto simp: clean_step_def comps_size_def)

lemma clean_comps_size: "comps_size (clean_comps rooted comps) \<le> comps_size comps"
proof -
  have "comps_size (foldl (clean_step rooted) out comps) \<le> comps_size out + comps_size comps" for out
  proof (induction comps arbitrary: out)
    case (Cons c comps)
    have "comps_size (c # out) = comps_size out + comps_size [c]" "comps_size (c # comps) = comps_size [c] + comps_size comps"
      by (simp_all add: comps_size_def)
    then show ?case using Cons [of "clean_step rooted out c"] clean_step_size [of rooted out c] by simp
  qed (simp add: comps_size_def)
  from this [of "[]"] show ?thesis by (simp add: clean_comps_def comps_size_def rev_map [symmetric])
qed

lemma clean_comps_nonempty: "[] \<notin> set (clean_comps rooted comps)"
proof -
  have "[] \<notin> set out \<Longrightarrow> [] \<notin> set (foldl (clean_step rooted) out comps)" for out
  proof (induction comps arbitrary: out)
    case (Cons c comps)
    then have "[] \<notin> set (clean_step rooted out c)" by (cases out) (auto simp: clean_step_def)
    then show ?case using Cons.IH by simp
  qed simp
  from this [of "[]"] show ?thesis by (simp add: clean_comps_def)
qed

lemma join_size: "[] \<notin> set cs \<Longrightarrow> cs \<noteq> [] \<Longrightarrow> length (join_with x cs) + 1 = comps_size cs"
  by (induction cs rule: induct_list012) (auto simp: comps_size_def)

lemma split_size: "comps_size (split_on x s) \<le> length s + 1"
proof -
  have "sum_list (map (\<lambda>c. length c + 1) (split_on x s)) = length s + 1"
    by (induction x s rule: split_on.induct) (auto split: list.splits)
  moreover have "comps_size cs \<le> sum_list (map (\<lambda>c. length c + 1) cs)" for cs
    unfolding comps_size_def by (intro sum_list_mono) simp
  ultimately show ?thesis by metis
qed

lemma Clean_length_slash: "length (filepath_Clean (r @ [slash])) \<le> max 1 (length r)"
proof -
  define rooted where "rooted = has_prefix (r @ [slash]) [slash]"
  define cs where "cs = clean_comps rooted (split_on slash (r @ [slash]))"
  have split: "split_on slash (r @ [slash]) = split_on slash r @ [[]]" using split_on_append [of slash r "[]"] by simp
  have "comps_size cs \<le> comps_size (split_on slash r)"
    using clean_comps_size [of rooted "split_on slash (r @ [slash])"] by (simp add: cs_def split comps_size_def)
  moreover have "comps_size (split_on slash r) \<le> length r" if rooted
    using that split_size [of slash "tl r"] by (cases r) (auto simp: rooted_def comps_size_def)
  ultimately have "comps_size cs \<le> length r + 1" "rooted \<Longrightarrow> comps_size cs \<le> length r"
    using split_size [of slash r] by simp_all
  moreover have "cs \<noteq> [] \<Longrightarrow> length (join_with slash cs) + 1 = comps_size cs"
    using join_size clean_comps_nonempty unfolding cs_def by blast
  moreover have "filepath_Clean (r @ [slash]) = (if rooted then slash # join_with slash cs
      else if cs = [] then ''.'' else join_with slash cs)"
    by (simp add: filepath_Clean_def rooted_def cs_def Let_def)
  ultimately show ?thesis by (cases "cs = []") auto
qed

lemma Dir_length: "length (filepath_Dir p) \<le> max 1 (length p - 1)"
proof (cases "slash \<in> set p")
  case True
  then obtain a b where p: "p = a @ slash # b" and "slash \<notin> set b" using split_list_last by fast
  then have "filepath_Dir p = filepath_Clean (a @ [slash])"
    unfolding filepath_Dir_def by (simp add: dropWhile_append)
  then show ?thesis using Clean_length_slash [of a] p by simp
next
  case False
  then have "dropWhile (\<lambda>c. c \<noteq> slash) (rev p) = []" by auto
  then have "filepath_Dir p = filepath_Clean []" by (simp only: filepath_Dir_def rev.simps)
  then show ?thesis by (simp add: filepath_Clean_def clean_comps_def clean_step_def slash_def)
qed

lemma Dir_single: "length p = 1 \<Longrightarrow> filepath_Dir p = p \<or> filepath_Dir p = ''.''"
  by (cases p) (auto simp: filepath_Dir_def filepath_Clean_def clean_comps_def clean_step_def slash_def)

lemma Dir_dot [simp]: "filepath_Dir ''.'' = ''.''" "filepath_Dir [] = ''.''"
  by (simp_all add: filepath_Dir_def filepath_Clean_def clean_comps_def clean_step_def slash_def)

end
