(* ===== verification/Routing_State.thy ===== *)
theory Routing_State
  imports Go_Path "HOL-Library.Word"
begin

text \<open>
  Package \<open>routing\<close>, file \<open>state.go\<close>: the durable routing state, its validation, the decoding of
  a state file with the migrations of the older schemas, and the constructors of fresh states.

  The string types \<open>Mode\<close>, \<open>Backend\<close> and \<open>Phase\<close> are datatypes with one constructor per constant and
  one for every other string; the empty string is an \<open>Other\<close>. \<open>Generation\<close> is the code's
  \<open>uint64\<close>. What \<open>encoding/json\<close> makes of the payload is an argument of \<open>decodeState\<close>.
\<close>

datatype mode = ModeUnknown | ModeRelay | ModeNative | ModeOther string

datatype backend =
    BackendUnknown | BackendExternal | BackendLocalOpenCodex | BackendLocalAppleContainer
  | BackendNone | BackendOther string

datatype phase =
    PhaseRelayActive | PhaseNativePendingRestart | PhaseRelayPendingRestart
  | PhaseBackendPendingRestart | PhaseApplying | PhaseNativeActive | PhaseRecoveryRequired
  | PhaseOther string

datatype routing_error =
    ErrStateCorrupt | ErrStateIncompatible | ErrStateBinding | ErrStateTransition | ErrStateGeneration
  | ErrResolvePath | ErrLockClosed | ErrControlFile
  | ErrTransitionPending | ErrRecoveryRequired | ErrDesktopExitConfirmation
  | ErrRelayAcknowledgement | ErrRelayFinalization | ErrRequestDrain | ErrPreflight
  | ErrUnsupportedBackend | ErrGatewayRoutingChanged | ErrGatewayConfigChanged

record state =
  Schema :: int
  Generation :: "64 word"
  DesiredMode :: mode
  AppliedMode :: mode
  DesiredBackend :: backend
  AppliedBackend :: backend
  Phase :: phase
  KnownLegacy :: bool
  BoundConfigPath :: string
  BoundCodexConfigPath :: string

definition SchemaVersion :: int where "SchemaVersion = 3"
definition legacySchemaVersion :: int where "legacySchemaVersion = 1"
definition explicitBackendSchemaVersion :: int where "explicitBackendSchemaVersion = 2"
definition maxStateBytes :: nat where "maxStateBytes = 65536"

lemmas schema_defs = SchemaVersion_def legacySchemaVersion_def explicitBackendSchemaVersion_def

section \<open>Admission\<close>

definition AllowsDataPlane :: "state \<Rightarrow> bool" where
  "AllowsDataPlane s \<longleftrightarrow>
     Phase s = PhaseRelayActive \<or> Phase s = PhaseNativePendingRestart \<or> Phase s = PhaseBackendPendingRestart"

definition AllowsCatalog :: "state \<Rightarrow> bool" where
  "AllowsCatalog s \<longleftrightarrow> AllowsDataPlane s"

definition IsRecoveryRequired :: "state \<Rightarrow> bool" where
  "IsRecoveryRequired s \<longleftrightarrow> Phase s = PhaseRecoveryRequired"

section \<open>Paths\<close>

definition StatePath :: "string \<Rightarrow> string" where
  "StatePath configPath = filepath_Clean configPath @ ''.routing-state.json''"

definition InitializedPath :: "string \<Rightarrow> string" where
  "InitializedPath configPath = filepath_Clean configPath @ ''.routing-initialized''"

text \<open>\<open>canonicalConfigPath\<close> and \<open>canonicalCodexConfigPath\<close> differ in their messages only.\<close>

definition canonicalConfigPath :: "string option \<Rightarrow> string \<Rightarrow> (routing_error, string) result" where
  "canonicalConfigPath wd configPath =
     (if configPath = [] then Inl ErrStateBinding
      else (case filepath_Abs wd configPath of
              None \<Rightarrow> Inl ErrResolvePath
            | Some absolute \<Rightarrow> Inr (filepath_Clean absolute)))"

definition canonicalCodexConfigPath :: "string option \<Rightarrow> string \<Rightarrow> (routing_error, string) result" where
  "canonicalCodexConfigPath wd configPath =
     (if configPath = [] then Inl ErrStateBinding
      else (case filepath_Abs wd configPath of
              None \<Rightarrow> Inl ErrResolvePath
            | Some absolute \<Rightarrow> Inr (filepath_Clean absolute)))"

section \<open>Backends\<close>

fun modeForBackend :: "backend \<Rightarrow> mode" where
  "modeForBackend BackendExternal = ModeRelay"
| "modeForBackend BackendLocalOpenCodex = ModeRelay"
| "modeForBackend BackendLocalAppleContainer = ModeRelay"
| "modeForBackend BackendNone = ModeNative"
| "modeForBackend _ = ModeUnknown"

fun backendForLegacyMode :: "mode \<Rightarrow> backend" where
  "backendForLegacyMode ModeRelay = BackendExternal"
| "backendForLegacyMode ModeNative = BackendNone"
| "backendForLegacyMode _ = BackendUnknown"

definition validRelayBackend :: "backend \<Rightarrow> bool" where
  "validRelayBackend b \<longleftrightarrow>
     b = BackendExternal \<or> b = BackendLocalOpenCodex \<or> b = BackendLocalAppleContainer"

definition validBackend :: "backend \<Rightarrow> bool" where
  "validBackend b \<longleftrightarrow>
     b = BackendExternal \<or> b = BackendLocalOpenCodex \<or> b = BackendLocalAppleContainer \<or> b = BackendNone"

definition validRecoveryMode :: "mode \<Rightarrow> bool" where
  "validRecoveryMode m \<longleftrightarrow> m = ModeUnknown \<or> m = ModeRelay \<or> m = ModeNative"

definition validRecoveryBackend :: "backend \<Rightarrow> bool" where
  "validRecoveryBackend b \<longleftrightarrow> b = BackendUnknown \<or> validBackend b"

definition validSchemaV2Backend :: "backend \<Rightarrow> bool" where
  "validSchemaV2Backend b \<longleftrightarrow>
     b = BackendUnknown \<or> b = BackendExternal \<or> b = BackendLocalOpenCodex \<or> b = BackendNone"

lemmas backend_defs = validRelayBackend_def validBackend_def validRecoveryBackend_def validRecoveryMode_def

section \<open>Validation\<close>

definition phase_consistent :: "state \<Rightarrow> (routing_error, unit) result" where
  "phase_consistent s =
     (let accept = (\<lambda>ok. if ok then Inr () else Inl ErrStateCorrupt)
      in case Phase s of
        PhaseRelayActive \<Rightarrow>
          accept (DesiredMode s = ModeRelay \<and> AppliedMode s = ModeRelay \<and>
            validRelayBackend (DesiredBackend s) \<and> DesiredBackend s = AppliedBackend s)
      | PhaseNativePendingRestart \<Rightarrow>
          accept (DesiredBackend s = BackendNone \<and> validRelayBackend (AppliedBackend s))
      | PhaseRelayPendingRestart \<Rightarrow>
          accept (validRelayBackend (DesiredBackend s) \<and> AppliedBackend s = BackendNone)
      | PhaseBackendPendingRestart \<Rightarrow>
          accept (validRelayBackend (DesiredBackend s) \<and> validRelayBackend (AppliedBackend s) \<and>
            DesiredBackend s \<noteq> AppliedBackend s)
      | PhaseApplying \<Rightarrow>
          accept ((DesiredBackend s \<noteq> AppliedBackend s \<and> validBackend (DesiredBackend s) \<and> validBackend (AppliedBackend s)) \<or>
            (DesiredBackend s = BackendExternal \<and> AppliedBackend s = BackendExternal) \<or>
            (DesiredBackend s = BackendLocalAppleContainer \<and> AppliedBackend s = BackendLocalAppleContainer))
      | PhaseNativeActive \<Rightarrow>
          accept (DesiredBackend s = BackendNone \<and> AppliedBackend s = BackendNone)
      | PhaseRecoveryRequired \<Rightarrow>
          accept (validRecoveryMode (DesiredMode s) \<and> validRecoveryMode (AppliedMode s) \<and>
            validRecoveryBackend (DesiredBackend s) \<and> validRecoveryBackend (AppliedBackend s))
      | PhaseOther _ \<Rightarrow> Inl ErrStateIncompatible)"

definition validateForBound :: "string option \<Rightarrow> state \<Rightarrow> string \<Rightarrow> (routing_error, unit) result" where
  "validateForBound wd s bound =
     (if Schema s \<noteq> SchemaVersion then Inl ErrStateIncompatible
      else if Generation s = 0 then Inl ErrStateCorrupt
      else if BoundConfigPath s \<noteq> bound then Inl ErrStateBinding
      else (case canonicalCodexConfigPath wd (BoundCodexConfigPath s) of
              Inl e \<Rightarrow> Inl e
            | Inr canonicalCodex \<Rightarrow>
                if BoundCodexConfigPath s \<noteq> canonicalCodex then Inl ErrStateBinding
                else if modeForBackend (DesiredBackend s) \<noteq> DesiredMode s \<or>
                        modeForBackend (AppliedBackend s) \<noteq> AppliedMode s then Inl ErrStateCorrupt
                else if KnownLegacy s \<and> DesiredBackend s \<noteq> BackendExternal then Inl ErrStateCorrupt
                else phase_consistent s))"

definition ValidateFor :: "string option \<Rightarrow> state \<Rightarrow> string \<Rightarrow> (routing_error, unit) result" where
  "ValidateFor wd s configPath =
     (case canonicalConfigPath wd configPath of
        Inl e \<Rightarrow> Inl e
      | Inr bound \<Rightarrow> validateForBound wd s bound)"

definition ValidateForCodexConfig ::
  "string option \<Rightarrow> state \<Rightarrow> string \<Rightarrow> string \<Rightarrow> (routing_error, unit) result" where
  "ValidateForCodexConfig wd s configPath codexConfigPath =
     (case ValidateFor wd s configPath of
        Inl e \<Rightarrow> Inl e
      | Inr _ \<Rightarrow>
          (case canonicalCodexConfigPath wd codexConfigPath of
             Inl e \<Rightarrow> Inl e
           | Inr bound \<Rightarrow> if BoundCodexConfigPath s \<noteq> bound then Inl ErrStateBinding else Inr ()))"

section \<open>Fresh states\<close>

definition NewRelayState :: "string option \<Rightarrow> string \<Rightarrow> (routing_error, state) result" where
  "NewRelayState wd configPath =
     (case canonicalConfigPath wd configPath of
        Inl e \<Rightarrow> Inl e
      | Inr bound \<Rightarrow> Inr \<lparr>Schema = SchemaVersion, Generation = 1, DesiredMode = ModeRelay, AppliedMode = ModeRelay,
          DesiredBackend = BackendExternal, AppliedBackend = BackendExternal, Phase = PhaseRelayActive,
          KnownLegacy = False, BoundConfigPath = bound, BoundCodexConfigPath = []\<rparr>)"

definition BindCodexConfig :: "string option \<Rightarrow> state \<Rightarrow> string \<Rightarrow> (routing_error, state) result" where
  "BindCodexConfig wd s codexConfigPath =
     (case canonicalCodexConfigPath wd codexConfigPath of
        Inl e \<Rightarrow> Inl e
      | Inr bound \<Rightarrow> Inr (s\<lparr>BoundCodexConfigPath := bound\<rparr>))"

definition NewRecoveryState :: "string option \<Rightarrow> string \<Rightarrow> (routing_error, state) result" where
  "NewRecoveryState wd configPath =
     (case canonicalConfigPath wd configPath of
        Inl e \<Rightarrow> Inl e
      | Inr bound \<Rightarrow> Inr \<lparr>Schema = SchemaVersion, Generation = 1, DesiredMode = ModeUnknown, AppliedMode = ModeUnknown,
          DesiredBackend = BackendUnknown, AppliedBackend = BackendUnknown, Phase = PhaseRecoveryRequired,
          KnownLegacy = False, BoundConfigPath = bound, BoundCodexConfigPath = []\<rparr>)"

section \<open>Decoding\<close>

definition migrateSchemaV1 :: "state \<Rightarrow> state" where
  "migrateSchemaV1 s =
     (if Schema s \<noteq> legacySchemaVersion then s
      else s\<lparr>Schema := SchemaVersion,
             DesiredBackend := backendForLegacyMode (DesiredMode s),
             AppliedBackend := backendForLegacyMode (AppliedMode s)\<rparr>)"

definition normalizeStateBackends :: "state \<Rightarrow> state" where
  "normalizeStateBackends s =
     (let s1 = (if DesiredBackend s = BackendOther [] then s\<lparr>DesiredBackend := backendForLegacyMode (DesiredMode s)\<rparr> else s)
      in if AppliedBackend s1 = BackendOther [] then s1\<lparr>AppliedBackend := backendForLegacyMode (AppliedMode s1)\<rparr> else s1)"

text \<open>The first \<open>Decode\<close> into the struct with \<open>DisallowUnknownFields\<close>, and what the second one meets.\<close>

datatype 'a json_decode = DecodeFails | DecodedThenMore 'a | DecodedThenEOF 'a

definition decodeState ::
  "(bytes \<Rightarrow> state json_decode) \<Rightarrow> string option \<Rightarrow> bytes \<Rightarrow> string \<Rightarrow> (routing_error, state) result" where
  "decodeState json wd payload bound =
     (if length payload > maxStateBytes then Inl ErrStateCorrupt
      else (case json payload of
              DecodeFails \<Rightarrow> Inl ErrStateCorrupt
            | DecodedThenMore _ \<Rightarrow> Inl ErrStateCorrupt
            | DecodedThenEOF s \<Rightarrow>
                let finish = (\<lambda>s'. case validateForBound wd s' bound of Inl e \<Rightarrow> Inl e | Inr _ \<Rightarrow> Inr s')
                in if Schema s = legacySchemaVersion then finish (migrateSchemaV1 s)
                   else if Schema s = explicitBackendSchemaVersion then
                     (if \<not> validSchemaV2Backend (DesiredBackend s) \<or> \<not> validSchemaV2Backend (AppliedBackend s)
                      then Inl ErrStateIncompatible
                      else finish (s\<lparr>Schema := SchemaVersion\<rparr>))
                   else finish s))"

section \<open>What validation guarantees\<close>

definition valid_state :: "string option \<Rightarrow> string \<Rightarrow> state \<Rightarrow> bool" where
  "valid_state wd bound s \<longleftrightarrow> validateForBound wd s bound = Inr ()"

lemma valid_state_iff:
  "valid_state wd bound s \<longleftrightarrow>
     Schema s = SchemaVersion \<and> Generation s \<noteq> 0 \<and> BoundConfigPath s = bound \<and>
     canonicalCodexConfigPath wd (BoundCodexConfigPath s) = Inr (BoundCodexConfigPath s) \<and>
     DesiredMode s = modeForBackend (DesiredBackend s) \<and> AppliedMode s = modeForBackend (AppliedBackend s) \<and>
     (KnownLegacy s \<longrightarrow> DesiredBackend s = BackendExternal) \<and> phase_consistent s = Inr ()"
  by (auto simp: valid_state_def validateForBound_def split: sum.splits if_splits)

text \<open>The phases and what they say of the two backends, as a decision table.\<close>

fun phase_backends :: "phase \<Rightarrow> backend \<Rightarrow> backend \<Rightarrow> bool" where
  "phase_backends PhaseRelayActive d a \<longleftrightarrow> validRelayBackend d \<and> d = a"
| "phase_backends PhaseNativePendingRestart d a \<longleftrightarrow> d = BackendNone \<and> validRelayBackend a"
| "phase_backends PhaseRelayPendingRestart d a \<longleftrightarrow> validRelayBackend d \<and> a = BackendNone"
| "phase_backends PhaseBackendPendingRestart d a \<longleftrightarrow> validRelayBackend d \<and> validRelayBackend a \<and> d \<noteq> a"
| "phase_backends PhaseApplying d a \<longleftrightarrow> validBackend d \<and> validBackend a \<and>
     (d = a \<longrightarrow> d = BackendExternal \<or> d = BackendLocalAppleContainer)"
| "phase_backends PhaseNativeActive d a \<longleftrightarrow> d = BackendNone \<and> a = BackendNone"
| "phase_backends PhaseRecoveryRequired d a \<longleftrightarrow> validRecoveryBackend d \<and> validRecoveryBackend a"
| "phase_backends (PhaseOther _) d a \<longleftrightarrow> False"

lemma relay_backend_mode: "validRelayBackend b \<Longrightarrow> modeForBackend b = ModeRelay"
  by (auto simp: validRelayBackend_def)

lemma phase_consistent_iff:
  assumes "DesiredMode s = modeForBackend (DesiredBackend s)" "AppliedMode s = modeForBackend (AppliedBackend s)"
  shows "phase_consistent s = Inr () \<longleftrightarrow> phase_backends (Phase s) (DesiredBackend s) (AppliedBackend s)"
proof -
  have recovery: "validRecoveryBackend b \<Longrightarrow> validRecoveryMode (modeForBackend b)" for b
    by (cases b) (auto simp: backend_defs)
  show ?thesis
    using assms by (cases "Phase s") (auto simp: phase_consistent_def Let_def relay_backend_mode recovery, auto simp: backend_defs)
qed

lemma valid_state_table:
  "valid_state wd bound s \<longleftrightarrow>
     Schema s = SchemaVersion \<and> Generation s \<noteq> 0 \<and> BoundConfigPath s = bound \<and>
     canonicalCodexConfigPath wd (BoundCodexConfigPath s) = Inr (BoundCodexConfigPath s) \<and>
     DesiredMode s = modeForBackend (DesiredBackend s) \<and> AppliedMode s = modeForBackend (AppliedBackend s) \<and>
     (KnownLegacy s \<longrightarrow> DesiredBackend s = BackendExternal) \<and>
     phase_backends (Phase s) (DesiredBackend s) (AppliedBackend s)"
  using phase_consistent_iff [of s] by (auto simp: valid_state_iff)

lemma admission_needs_relay:
  assumes "valid_state wd bound s" "AllowsDataPlane s"
  shows "validRelayBackend (AppliedBackend s) \<and> AppliedMode s = ModeRelay"
  using assms by (auto simp: valid_state_table AllowsDataPlane_def relay_backend_mode)

lemma valid_state_normalized: "valid_state wd bound s \<Longrightarrow> normalizeStateBackends s = s"
  by (cases "Phase s") (auto simp: valid_state_table normalizeStateBackends_def backend_defs)

lemma decodeState_cases:
  assumes "decodeState json wd payload bound = Inr s"
  obtains raw where "json payload = DecodedThenEOF raw" "valid_state wd bound s" "length payload \<le> maxStateBytes"
    "Schema raw = legacySchemaVersion \<Longrightarrow> s = migrateSchemaV1 raw"
    "Schema raw = explicitBackendSchemaVersion \<Longrightarrow>
       s = raw\<lparr>Schema := SchemaVersion\<rparr> \<and> validSchemaV2Backend (DesiredBackend raw) \<and> validSchemaV2Backend (AppliedBackend raw)"
    "Schema raw \<noteq> legacySchemaVersion \<Longrightarrow> Schema raw \<noteq> explicitBackendSchemaVersion \<Longrightarrow> s = raw"
  using assms
  by (auto simp: decodeState_def valid_state_def Let_def schema_defs split: if_splits json_decode.splits sum.splits)

lemma legacy_mode_backend: "backendForLegacyMode m \<noteq> BackendLocalAppleContainer \<and> backendForLegacyMode m \<noteq> BackendLocalOpenCodex"
  by (cases m) auto

lemma canonical_idem:
  assumes "canonicalConfigPath wd p = Inr b" "getwd_rooted wd"
  shows "canonicalConfigPath wd b = Inr b"
proof -
  obtain a where a: "filepath_Abs wd p = Some a" "b = filepath_Clean a"
    using assms(1) by (auto simp: canonicalConfigPath_def split: if_splits option.splits)
  with Abs_clean [OF a(1) assms(2)] have "rooted_path b" "filepath_Clean b = b" by auto
  then show ?thesis using Abs_id [of b wd] by (cases b) (auto simp: canonicalConfigPath_def)
qed

lemma canonicalCodex_same: "canonicalCodexConfigPath wd p = canonicalConfigPath wd p"
  by (simp add: canonicalConfigPath_def canonicalCodexConfigPath_def)

section \<open>Properties\<close>

text \<open>C17: a routing state that \<open>decodeState\<close> accepts is bound to this relay configuration, satisfies
  the whole validation and admits data-plane traffic only if a relay backend is the applied one. A
  file of an older schema cannot name the Apple Container backend: schema 1 maps its modes to
  External or none and schema 2 is refused if it carries the newer label.\<close>

theorem decodeState_sound:
  assumes "decodeState json wd payload bound = Inr s"
  shows "validateForBound wd s bound = Inr () \<and> BoundConfigPath s = bound \<and> Schema s = SchemaVersion \<and>
    length payload \<le> maxStateBytes \<and>
    (AllowsDataPlane s \<longrightarrow> validRelayBackend (AppliedBackend s) \<and> AppliedMode s = ModeRelay) \<and>
    (\<exists>raw. json payload = DecodedThenEOF raw \<and>
      (Schema raw = legacySchemaVersion \<longrightarrow> AppliedBackend s \<in> {BackendExternal, BackendNone, BackendUnknown} \<and>
        DesiredBackend s \<in> {BackendExternal, BackendNone, BackendUnknown}) \<and>
      (Schema raw = explicitBackendSchemaVersion \<longrightarrow>
        AppliedBackend s \<noteq> BackendLocalAppleContainer \<and> DesiredBackend s \<noteq> BackendLocalAppleContainer))"
proof -
  obtain raw where raw: "json payload = DecodedThenEOF raw" "valid_state wd bound s" "length payload \<le> maxStateBytes"
    "Schema raw = legacySchemaVersion \<Longrightarrow> s = migrateSchemaV1 raw"
    "Schema raw = explicitBackendSchemaVersion \<Longrightarrow>
       s = raw\<lparr>Schema := SchemaVersion\<rparr> \<and> validSchemaV2Backend (DesiredBackend raw) \<and> validSchemaV2Backend (AppliedBackend raw)"
    using decodeState_cases [OF assms] by metis
  have modes: "backendForLegacyMode m \<in> {BackendExternal, BackendNone, BackendUnknown}" for m by (cases m) auto
  have "Schema raw = legacySchemaVersion \<longrightarrow> AppliedBackend s \<in> {BackendExternal, BackendNone, BackendUnknown} \<and>
      DesiredBackend s \<in> {BackendExternal, BackendNone, BackendUnknown}"
    using raw(4) modes by (auto simp: migrateSchemaV1_def)
  moreover have "Schema raw = explicitBackendSchemaVersion \<longrightarrow>
      AppliedBackend s \<noteq> BackendLocalAppleContainer \<and> DesiredBackend s \<noteq> BackendLocalAppleContainer"
    using raw(5) by (auto simp: validSchemaV2Backend_def)
  ultimately show ?thesis
    using raw(1-3) admission_needs_relay [OF raw(2)]
    by (simp add: valid_state_def [symmetric]) (simp add: valid_state_iff)
qed

definition v1_state :: state where
  "v1_state = \<lparr>Schema = 1, Generation = 7, DesiredMode = ModeRelay, AppliedMode = ModeRelay,
     DesiredBackend = BackendOther [], AppliedBackend = BackendLocalAppleContainer, Phase = PhaseRelayActive,
     KnownLegacy = False, BoundConfigPath = ''/r'', BoundCodexConfigPath = ''/c''\<rparr>"

theorem decodeState_sound_witness:
  "\<exists>s. decodeState (\<lambda>_. DecodedThenEOF v1_state) None ''{}'' ''/r'' = Inr s \<and>
     AllowsDataPlane s \<and> AppliedBackend s = BackendExternal \<and> validateForBound None s ''/r'' = Inr ()"
proof -
  let ?s = "migrateSchemaV1 v1_state"
  have dec: "decodeState (\<lambda>_. DecodedThenEOF v1_state) None ''{}'' ''/r'' = Inr ?s"
    by code_simp
  have "AllowsDataPlane ?s" "AppliedBackend ?s = BackendExternal" by code_simp+
  with decodeState_sound [OF dec] dec show ?thesis by blast
qed

text \<open>C18: binding is stable. A path that \<open>canonicalConfigPath\<close> produces is a fixed point of it, so a
  state bound by \<open>BindCodexConfig\<close> passes the canonical-path check of the validation in every later
  process, whatever that process's working directory is.\<close>

theorem BindCodexConfig_canonical:
  assumes "BindCodexConfig wd s codexConfigPath = Inr s'" "getwd_rooted wd" "getwd_rooted wd'"
  shows "canonicalCodexConfigPath wd' (BoundCodexConfigPath s') = Inr (BoundCodexConfigPath s') \<and>
    s' = s\<lparr>BoundCodexConfigPath := BoundCodexConfigPath s'\<rparr>"
proof -
  obtain a where a: "filepath_Abs wd codexConfigPath = Some a" "s' = s\<lparr>BoundCodexConfigPath := filepath_Clean a\<rparr>"
    using assms(1) by (auto simp: BindCodexConfig_def canonicalCodexConfigPath_def split: if_splits option.splits)
  have "rooted_path a" "filepath_Clean a = a" using Abs_clean [OF a(1) assms(2)] by auto
  then show ?thesis using a(2) Abs_id [of a wd'] by (cases a) (auto simp: canonicalCodexConfigPath_def)
qed

theorem BindCodexConfig_canonical_witness:
  "\<exists>s'. BindCodexConfig (Some ''/home/u'') v1_state ''.codex//x/../config.toml'' = Inr s' \<and>
     BoundCodexConfigPath s' = ''/home/u/.codex/config.toml'' \<and>
     canonicalCodexConfigPath (Some ''/tmp'') (BoundCodexConfigPath s') = Inr (BoundCodexConfigPath s')"
proof -
  let ?s = "v1_state\<lparr>BoundCodexConfigPath := ''/home/u/.codex/config.toml''\<rparr>"
  have b: "BindCodexConfig (Some ''/home/u'') v1_state ''.codex//x/../config.toml'' = Inr ?s" by code_simp
  have "getwd_rooted (Some ''/home/u'')" "getwd_rooted (Some ''/tmp'')" by code_simp+
  with BindCodexConfig_canonical [OF b, of "Some ''/tmp''"] b show ?thesis by auto
qed

end
