(* ===== verification/Routing_Journals.thy ===== *)
theory Routing_Journals
  imports Routing_State
begin

text \<open>
  Package \<open>routing\<close>: the three crash witnesses that lie beside the routing state. The transaction
  journal of the controller (\<open>controller.go\<close>), the maintenance journal of a live image replacement
  (\<open>maintenance.go\<close>) and the witness of a container-runtime route (\<open>runtime_routing.go\<close>): their
  fields, their validation, and which routing states each of them is compatible with. Generations
  are \<open>uint64\<close> words with Go's wrap-around.
\<close>

definition maxUint64 :: "64 word" where "maxUint64 = -1"

section \<open>Identifiers and digests\<close>

definition isLowerHex :: "string \<Rightarrow> bool" where
  "isLowerHex value = list_all (\<lambda>c. is_digit c \<or> (CHR ''a'' \<le> c \<and> c \<le> CHR ''f'')) value"

definition validSHA256 :: "string \<Rightarrow> bool" where
  "validSHA256 value \<longleftrightarrow> length value = 64 \<and> isLowerHex value"

definition validOCIDigest :: "string \<Rightarrow> bool" where
  "validOCIDigest value \<longleftrightarrow> has_prefix value ''sha256:'' \<and> validSHA256 (trim_prefix value ''sha256:'')"

definition validMaintenanceID :: "string \<Rightarrow> bool" where
  "validMaintenanceID value =
     (if length value < 16 \<or> length value > 128 then False
      else list_all (\<lambda>c. is_lower c \<or> is_upper c \<or> is_digit c \<or> c = CHR ''-'' \<or> c = CHR ''_'' \<or> c = CHR ''.'') value)"

section \<open>The controller's transaction journal\<close>

datatype transaction_kind = KindRoutingSwitch | KindGatewayReload | KindOther string
datatype transaction_stage = StagePrepared | StageConfigMutated | StageOther string

record transaction_journal =
  tj_Schema :: int
  tj_Kind :: transaction_kind
  tj_Generation :: "64 word"
  tj_Target :: mode
  tj_Origin :: mode
  tj_TargetBackend :: backend
  tj_OriginBackend :: backend
  tj_OriginAuthoritative :: bool
  tj_KnownLegacy :: bool
  tj_Stage :: transaction_stage
  tj_RelayConfigFingerprint :: string
  tj_CodexConfigFingerprint :: string
  tj_InteractiveFingerprint :: string
  tj_OriginRelayConfigFingerprint :: string
  tj_TargetRelayConfigFingerprint :: string
  tj_BackupConfigFingerprint :: string

definition fingerprint_ok :: "string \<Rightarrow> bool" where
  "fingerprint_ok f \<longleftrightarrow> f = [] \<or> f = ''absent'' \<or> (length f = 64 \<and> isLowerHex f)"

definition transaction_validate :: "transaction_journal \<Rightarrow> (routing_error, unit) result" where
  "transaction_validate j =
     (if tj_Schema j \<noteq> SchemaVersion \<or> (tj_Kind j \<noteq> KindRoutingSwitch \<and> tj_Kind j \<noteq> KindGatewayReload) \<or>
         tj_Generation j = 0 \<or> \<not> validBackend (tj_TargetBackend j) \<or> \<not> validBackend (tj_OriginBackend j) \<or>
         tj_Target j \<noteq> modeForBackend (tj_TargetBackend j) \<or> tj_Origin j \<noteq> modeForBackend (tj_OriginBackend j) \<or>
         (tj_Stage j \<noteq> StagePrepared \<and> tj_Stage j \<noteq> StageConfigMutated)
      then Inl ErrStateCorrupt
      else if tj_Kind j = KindGatewayReload \<and>
         (tj_TargetBackend j \<noteq> BackendExternal \<or> tj_OriginBackend j \<noteq> BackendExternal \<or>
          tj_OriginRelayConfigFingerprint j = [] \<or> tj_TargetRelayConfigFingerprint j = [] \<or>
          tj_BackupConfigFingerprint j = [])
      then Inl ErrStateCorrupt
      else if tj_KnownLegacy j \<and> (tj_Kind j \<noteq> KindRoutingSwitch \<or> tj_TargetBackend j \<noteq> BackendExternal)
      then Inl ErrStateCorrupt
      else if \<not> list_all fingerprint_ok
         [tj_RelayConfigFingerprint j, tj_CodexConfigFingerprint j, tj_InteractiveFingerprint j,
          tj_OriginRelayConfigFingerprint j, tj_TargetRelayConfigFingerprint j, tj_BackupConfigFingerprint j]
      then Inl ErrStateCorrupt
      else Inr ())"

definition normalizeTransactionJournal :: "transaction_journal \<Rightarrow> transaction_journal" where
  "normalizeTransactionJournal j =
     (let j1 = (if tj_Kind j = KindOther [] then j\<lparr>tj_Kind := KindRoutingSwitch\<rparr> else j)
      in if tj_Schema j1 = legacySchemaVersion then
           j1\<lparr>tj_Schema := SchemaVersion, tj_TargetBackend := backendForLegacyMode (tj_Target j1),
              tj_OriginBackend := backendForLegacyMode (tj_Origin j1), tj_OriginAuthoritative := True\<rparr>
         else if tj_Schema j1 = explicitBackendSchemaVersion then
           (if validSchemaV2Backend (tj_TargetBackend j1) \<and> validSchemaV2Backend (tj_OriginBackend j1)
            then j1\<lparr>tj_Schema := SchemaVersion\<rparr> else j1)
         else j1)"

section \<open>Maintenance\<close>

record runtime_intent =
  ri_OperationID :: string
  ri_InstallationID :: string
  ri_OldManifestSHA256 :: string
  ri_NewManifestSHA256 :: string
  ri_OldImageDigest :: string
  ri_NewImageDigest :: string
  ri_OldStateGeneration :: "64 word"
  ri_NewStateGeneration :: "64 word"

definition MaintenanceIntent_valid :: "runtime_intent \<Rightarrow> bool" where
  "MaintenanceIntent_valid i \<longleftrightarrow> \<not>
     (\<not> validMaintenanceID (ri_OperationID i) \<or> \<not> validMaintenanceID (ri_InstallationID i) \<or>
      \<not> validSHA256 (ri_OldManifestSHA256 i) \<or> \<not> validSHA256 (ri_NewManifestSHA256 i) \<or>
      \<not> validOCIDigest (ri_OldImageDigest i) \<or> \<not> validOCIDigest (ri_NewImageDigest i) \<or>
      ri_OldManifestSHA256 i = ri_NewManifestSHA256 i \<or> ri_OldImageDigest i = ri_NewImageDigest i \<or>
      ri_OldStateGeneration i = 0 \<or> ri_OldStateGeneration i = maxUint64 \<or>
      ri_NewStateGeneration i \<noteq> ri_OldStateGeneration i + 1)"

record maintenance_witness =
  mw_Schema :: int
  mw_Backend :: backend
  mw_OriginRoutingGeneration :: "64 word"
  mw_PreparedRoutingGeneration :: "64 word"
  mw_FinalRoutingGeneration :: "64 word"
  mw_Intent :: runtime_intent

definition maintenanceSchemaVersion :: int where "maintenanceSchemaVersion = 1"

definition newMaintenanceWitness :: "64 word \<Rightarrow> runtime_intent \<Rightarrow> maintenance_witness option" where
  "newMaintenanceWitness generation intent =
     (if generation = 0 \<or> generation > maxUint64 - 2 \<or> \<not> MaintenanceIntent_valid intent then None
      else Some \<lparr>mw_Schema = maintenanceSchemaVersion, mw_Backend = BackendLocalAppleContainer,
        mw_OriginRoutingGeneration = generation, mw_PreparedRoutingGeneration = generation + 1,
        mw_FinalRoutingGeneration = generation + 2, mw_Intent = intent\<rparr>)"

definition MaintenanceWitness_valid :: "maintenance_witness \<Rightarrow> bool" where
  "MaintenanceWitness_valid w \<longleftrightarrow> \<not>
     (mw_Schema w \<noteq> maintenanceSchemaVersion \<or> mw_Backend w \<noteq> BackendLocalAppleContainer \<or>
      mw_OriginRoutingGeneration w = 0 \<or> mw_OriginRoutingGeneration w > maxUint64 - 2 \<or>
      mw_PreparedRoutingGeneration w \<noteq> mw_OriginRoutingGeneration w + 1 \<or>
      mw_FinalRoutingGeneration w \<noteq> mw_PreparedRoutingGeneration w + 1 \<or> \<not> MaintenanceIntent_valid (mw_Intent w))"

record maintenance_journal =
  mj_Schema :: int
  mj_BoundConfigPath :: string
  mj_Witness :: maintenance_witness

definition maintenance_validate :: "string option \<Rightarrow> maintenance_journal \<Rightarrow> string \<Rightarrow> (routing_error, unit) result" where
  "maintenance_validate wd j configPath =
     (case canonicalConfigPath wd configPath of
        Inl _ \<Rightarrow> Inl ErrStateCorrupt
      | Inr bound \<Rightarrow>
          if mj_Schema j \<noteq> maintenanceSchemaVersion \<or> mj_BoundConfigPath j \<noteq> bound \<or>
             \<not> MaintenanceWitness_valid (mj_Witness j)
          then Inl ErrStateCorrupt else Inr ())"

definition maintenance_matchesState :: "maintenance_journal \<Rightarrow> state \<Rightarrow> bool" where
  "maintenance_matchesState j s =
     (if \<not> MaintenanceWitness_valid (mj_Witness j) \<or> DesiredBackend s \<noteq> BackendLocalAppleContainer \<or>
         AppliedBackend s \<noteq> BackendLocalAppleContainer \<or> DesiredMode s \<noteq> ModeRelay \<or> AppliedMode s \<noteq> ModeRelay
      then False
      else if Generation s = mw_OriginRoutingGeneration (mj_Witness j) then Phase s = PhaseRelayActive
      else if Generation s = mw_PreparedRoutingGeneration (mj_Witness j) then Phase s = PhaseApplying
      else if Generation s = mw_FinalRoutingGeneration (mj_Witness j) then Phase s = PhaseRelayActive
      else False)"

section \<open>Container-runtime routes\<close>

datatype runtime_direction = CompleteTarget | RestoreOrigin | DirectionOther string
datatype runtime_phase = RuntimeTransitioning | RuntimeResolved | RuntimePhaseOther string
datatype attempt_kind = AttemptSwitch | AttemptApplyPending | AttemptResumeApplying | AttemptRecover
  | AttemptReplace | AttemptOther string

definition runtimeArtifactAbsent :: "string \<Rightarrow> string \<Rightarrow> 64 word \<Rightarrow> bool" where
  "runtimeArtifactAbsent manifest imageDigest generation \<longleftrightarrow>
     manifest = ''absent'' \<and> imageDigest = ''absent'' \<and> generation = 0"

definition validRuntimeArtifact :: "string \<Rightarrow> string \<Rightarrow> 64 word \<Rightarrow> bool" where
  "validRuntimeArtifact manifest imageDigest generation =
     (if runtimeArtifactAbsent manifest imageDigest generation then True
      else validSHA256 manifest \<and> validOCIDigest imageDigest \<and> generation \<noteq> 0)"

definition RuntimeRoutingIntent_valid :: "runtime_intent \<Rightarrow> bool \<Rightarrow> bool" where
  "RuntimeRoutingIntent_valid i targetAppleActive =
     (if \<not> validMaintenanceID (ri_OperationID i) \<or> \<not> validMaintenanceID (ri_InstallationID i) \<or>
         \<not> validRuntimeArtifact (ri_OldManifestSHA256 i) (ri_OldImageDigest i) (ri_OldStateGeneration i) \<or>
         \<not> validRuntimeArtifact (ri_NewManifestSHA256 i) (ri_NewImageDigest i) (ri_NewStateGeneration i)
      then False
      else let oldAbsent = runtimeArtifactAbsent (ri_OldManifestSHA256 i) (ri_OldImageDigest i) (ri_OldStateGeneration i);
               newAbsent = runtimeArtifactAbsent (ri_NewManifestSHA256 i) (ri_NewImageDigest i) (ri_NewStateGeneration i)
           in if targetAppleActive then \<not> newAbsent else \<not> (oldAbsent \<or> \<not> newAbsent))"

record runtime_request =
  rq_Intent :: runtime_intent
  rq_ExpectedOriginRoutingGeneration :: "64 word"
  rq_TargetAppleActive :: bool
  rq_Direction :: runtime_direction

definition RuntimeRoutingRequest_valid :: "runtime_request \<Rightarrow> bool" where
  "RuntimeRoutingRequest_valid r \<longleftrightarrow> \<not>
     (rq_ExpectedOriginRoutingGeneration r = 0 \<or> rq_ExpectedOriginRoutingGeneration r > maxUint64 - 3 \<or>
      \<not> RuntimeRoutingIntent_valid (rq_Intent r) (rq_TargetAppleActive r) \<or>
      (rq_Direction r \<noteq> CompleteTarget \<and> rq_Direction r \<noteq> RestoreOrigin))"

record runtime_journal =
  rj_Schema :: int
  rj_BoundConfigPath :: string
  rj_BoundCodexConfigPath :: string
  rj_Intent :: runtime_intent
  rj_OriginBackend :: backend
  rj_TargetBackend :: backend
  rj_OriginGeneration :: "64 word"
  rj_TargetAppleActive :: bool
  rj_Phase :: runtime_phase
  rj_AttemptKind :: attempt_kind
  rj_AttemptDirection :: runtime_direction
  rj_AttemptStartGeneration :: "64 word"
  rj_AttemptStartDesiredBackend :: backend
  rj_AttemptStartAppliedBackend :: backend
  rj_AttemptStartPhase :: phase
  rj_AttemptOriginBackend :: backend
  rj_AttemptTargetBackend :: backend
  rj_AttemptRequestedGeneration :: "64 word"
  rj_AttemptRecoveryGeneration :: "64 word"
  rj_AttemptApplyingGeneration :: "64 word"
  rj_AttemptFinalGeneration :: "64 word"
  rj_SourceJournalGeneration :: "64 word"
  rj_SourceJournalOriginBackend :: backend
  rj_SourceJournalTargetBackend :: backend
  rj_ResolvedGeneration :: "64 word"
  rj_ResolvedAppleActive :: bool

definition runtimeRoutingSchemaVersion :: int where "runtimeRoutingSchemaVersion = 1"

definition selectedBackend :: "runtime_journal \<Rightarrow> runtime_direction \<Rightarrow> backend" where
  "selectedBackend j direction =
     (if direction = RestoreOrigin then rj_OriginBackend j else rj_TargetBackend j)"

definition oppositeRuntimeDirection :: "runtime_direction \<Rightarrow> runtime_direction" where
  "oppositeRuntimeDirection d = (if d = RestoreOrigin then CompleteTarget else RestoreOrigin)"

definition validAttemptGenerations :: "runtime_journal \<Rightarrow> bool" where
  "validAttemptGenerations j =
     (let start = rj_AttemptStartGeneration j in
      case rj_AttemptKind j of
        AttemptSwitch \<Rightarrow>
          start \<le> maxUint64 - 3 \<and> rj_AttemptRequestedGeneration j = start + 1 \<and> rj_AttemptRecoveryGeneration j = 0 \<and>
          rj_AttemptApplyingGeneration j = start + 2 \<and> rj_AttemptFinalGeneration j = start + 3
      | AttemptApplyPending \<Rightarrow>
          start \<le> maxUint64 - 2 \<and> rj_AttemptRequestedGeneration j = start \<and> rj_AttemptRecoveryGeneration j = 0 \<and>
          rj_AttemptApplyingGeneration j = start + 1 \<and> rj_AttemptFinalGeneration j = start + 2
      | AttemptResumeApplying \<Rightarrow>
          start \<noteq> maxUint64 \<and> rj_AttemptRequestedGeneration j = 0 \<and> rj_AttemptRecoveryGeneration j = 0 \<and>
          rj_AttemptApplyingGeneration j = start \<and> rj_AttemptFinalGeneration j = start + 1
      | AttemptRecover \<Rightarrow>
          rj_AttemptRequestedGeneration j = 0 \<and> rj_AttemptRecoveryGeneration j \<noteq> 0 \<and>
          rj_AttemptRecoveryGeneration j \<le> maxUint64 - 2 \<and>
          rj_AttemptApplyingGeneration j = rj_AttemptRecoveryGeneration j + 1 \<and>
          rj_AttemptFinalGeneration j = rj_AttemptRecoveryGeneration j + 2
      | AttemptReplace \<Rightarrow>
          start \<noteq> maxUint64 \<and> rj_AttemptRequestedGeneration j = 0 \<and> rj_AttemptRecoveryGeneration j = 0 \<and>
          rj_AttemptApplyingGeneration j = 0 \<and> rj_AttemptFinalGeneration j = start + 1
      | AttemptOther _ \<Rightarrow> False)"

definition runtime_validate :: "string option \<Rightarrow> runtime_journal \<Rightarrow> string \<Rightarrow> string \<Rightarrow> bool" where
  "runtime_validate wd j configPath codexConfigPath =
     (case (canonicalConfigPath wd configPath, canonicalCodexConfigPath wd codexConfigPath) of
        (Inr boundConfig, Inr boundCodex) \<Rightarrow>
          if rj_Schema j \<noteq> runtimeRoutingSchemaVersion \<or> rj_BoundConfigPath j \<noteq> boundConfig \<or>
             rj_BoundCodexConfigPath j \<noteq> boundCodex \<or> rj_OriginGeneration j = 0 \<or> rj_OriginGeneration j > maxUint64 - 3 \<or>
             \<not> RuntimeRoutingIntent_valid (rj_Intent j) (rj_TargetAppleActive j) \<or> \<not> validBackend (rj_OriginBackend j) \<or>
             \<not> validBackend (rj_TargetBackend j) \<or> rj_OriginBackend j = rj_TargetBackend j \<or>
             (rj_TargetAppleActive j \<and> rj_TargetBackend j \<noteq> BackendLocalAppleContainer) \<or>
             (\<not> rj_TargetAppleActive j \<and>
               (rj_TargetBackend j \<noteq> BackendNone \<or> rj_OriginBackend j \<noteq> BackendLocalAppleContainer)) \<or>
             (rj_TargetAppleActive j \<and> rj_OriginBackend j = BackendLocalAppleContainer) \<or>
             (rj_Phase j \<noteq> RuntimeTransitioning \<and> rj_Phase j \<noteq> RuntimeResolved)
          then False
          else if rj_AttemptDirection j \<noteq> CompleteTarget \<and> rj_AttemptDirection j \<noteq> RestoreOrigin then False
          else let selected = selectedBackend j (rj_AttemptDirection j) in
            if rj_AttemptStartGeneration j = 0 \<or> \<not> validBackend (rj_AttemptStartDesiredBackend j) \<or>
               \<not> validBackend (rj_AttemptStartAppliedBackend j) \<or> rj_AttemptTargetBackend j \<noteq> selected \<or>
               \<not> validBackend (rj_AttemptOriginBackend j) \<or>
               (rj_AttemptOriginBackend j = rj_AttemptTargetBackend j \<and> rj_AttemptKind j \<noteq> AttemptReplace) \<or>
               rj_AttemptFinalGeneration j = 0
            then False
            else if (if rj_SourceJournalGeneration j = 0
                     then rj_SourceJournalOriginBackend j \<noteq> BackendOther [] \<or> rj_SourceJournalTargetBackend j \<noteq> BackendOther []
                     else \<not> validBackend (rj_SourceJournalOriginBackend j) \<or> \<not> validBackend (rj_SourceJournalTargetBackend j) \<or>
                       rj_SourceJournalOriginBackend j = rj_SourceJournalTargetBackend j)
            then False
            else if \<not> validAttemptGenerations j then False
            else if rj_Phase j = RuntimeResolved
            then \<not> (rj_ResolvedGeneration j = 0 \<or> rj_ResolvedGeneration j \<noteq> rj_AttemptFinalGeneration j \<or>
                    rj_ResolvedAppleActive j \<noteq> (selected = BackendLocalAppleContainer))
            else \<not> (rj_ResolvedGeneration j \<noteq> 0 \<or> rj_ResolvedAppleActive j)
      | _ \<Rightarrow> False)"

definition matchesRequest :: "runtime_journal \<Rightarrow> runtime_request \<Rightarrow> bool" where
  "matchesRequest j r \<longleftrightarrow>
     RuntimeRoutingRequest_valid r \<and> rj_Intent j = rq_Intent r \<and>
     rj_OriginGeneration j = rq_ExpectedOriginRoutingGeneration r \<and> rj_TargetAppleActive j = rq_TargetAppleActive r"

section \<open>Which states a runtime witness is compatible with\<close>

definition stableStateForBackend :: "state \<Rightarrow> backend \<Rightarrow> bool" where
  "stableStateForBackend s b \<longleftrightarrow>
     (let phase = (if b = BackendNone then PhaseNativeActive else PhaseRelayActive)
      in Generation s \<noteq> 0 \<and> Phase s = phase \<and> DesiredBackend s = b \<and> AppliedBackend s = b \<and>
         DesiredMode s = modeForBackend b \<and> AppliedMode s = modeForBackend b)"

definition stableRoutingState :: "state \<Rightarrow> bool" where
  "stableRoutingState s \<longleftrightarrow> DesiredBackend s = AppliedBackend s \<and> stableStateForBackend s (AppliedBackend s)"

definition pendingRoutingState :: "state \<Rightarrow> bool" where
  "pendingRoutingState s \<longleftrightarrow>
     Phase s = PhaseNativePendingRestart \<or> Phase s = PhaseRelayPendingRestart \<or> Phase s = PhaseBackendPendingRestart"

definition pendingStateForBackends :: "state \<Rightarrow> backend \<Rightarrow> backend \<Rightarrow> bool" where
  "pendingStateForBackends s origin target \<longleftrightarrow>
     pendingRoutingState s \<and> DesiredBackend s = target \<and> AppliedBackend s = origin"

definition applyingStateForBackends :: "state \<Rightarrow> backend \<Rightarrow> backend \<Rightarrow> bool" where
  "applyingStateForBackends s origin target \<longleftrightarrow>
     Phase s = PhaseApplying \<and> DesiredBackend s = target \<and> AppliedBackend s = origin"

definition recoveryStateForBackends :: "state \<Rightarrow> backend \<Rightarrow> backend \<Rightarrow> bool" where
  "recoveryStateForBackends s origin target \<longleftrightarrow>
     Phase s = PhaseRecoveryRequired \<and> DesiredBackend s = target \<and> AppliedBackend s = origin"

definition attemptTransactionMatches :: "runtime_journal \<Rightarrow> transaction_journal \<Rightarrow> bool" where
  "attemptTransactionMatches j t \<longleftrightarrow>
     tj_Kind t = KindRoutingSwitch \<and> tj_Generation t = rj_AttemptApplyingGeneration j \<and>
     tj_OriginBackend t = rj_AttemptOriginBackend j \<and> tj_TargetBackend t = rj_AttemptTargetBackend j"

definition sourceTransactionMatches :: "runtime_journal \<Rightarrow> transaction_journal \<Rightarrow> bool" where
  "sourceTransactionMatches j t \<longleftrightarrow>
     rj_SourceJournalGeneration j \<noteq> 0 \<and> tj_Kind t = KindRoutingSwitch \<and> tj_Generation t = rj_SourceJournalGeneration j \<and>
     tj_OriginBackend t = rj_SourceJournalOriginBackend j \<and> tj_TargetBackend t = rj_SourceJournalTargetBackend j"

definition exactRuntimeAttemptStart :: "runtime_journal \<Rightarrow> state \<Rightarrow> bool" where
  "exactRuntimeAttemptStart j s \<longleftrightarrow>
     Generation s = rj_AttemptStartGeneration j \<and> DesiredBackend s = rj_AttemptStartDesiredBackend j \<and>
     AppliedBackend s = rj_AttemptStartAppliedBackend j \<and> Phase s = rj_AttemptStartPhase j"

text \<open>The transaction journal is \<open>None\<close> where the code passes \<open>transactionFound = false\<close>.\<close>

definition runtime_matchesState ::
  "string option \<Rightarrow> runtime_journal \<Rightarrow> state \<Rightarrow> transaction_journal option \<Rightarrow> bool" where
  "runtime_matchesState wd j s transaction =
     (let found = (transaction \<noteq> None);
          attempt = (case transaction of None \<Rightarrow> False | Some t \<Rightarrow> attemptTransactionMatches j t);
          source = (case transaction of None \<Rightarrow> False | Some t \<Rightarrow> sourceTransactionMatches j t);
          origin = rj_AttemptOriginBackend j; target = rj_AttemptTargetBackend j
      in if ValidateForCodexConfig wd s (rj_BoundConfigPath j) (rj_BoundCodexConfigPath j) \<noteq> Inr () then False
         else if rj_Phase j = RuntimeResolved
         then \<not> found \<and> Generation s = rj_ResolvedGeneration j \<and>
              stableStateForBackend s (selectedBackend j (rj_AttemptDirection j))
         else if exactRuntimeAttemptStart j s then (if \<not> found then True else source)
         else if found \<and> \<not> attempt \<and> \<not> source then False
         else if rj_AttemptRequestedGeneration j \<noteq> 0 \<and> Generation s = rj_AttemptRequestedGeneration j \<and>
                 pendingStateForBackends s origin target then \<not> found
         else if rj_AttemptApplyingGeneration j \<noteq> 0 \<and> Generation s = rj_AttemptApplyingGeneration j \<and>
                 applyingStateForBackends s origin target then \<not> found \<or> attempt \<or> source
         else if rj_AttemptRecoveryGeneration j \<noteq> 0 \<and> Generation s = rj_AttemptRecoveryGeneration j \<and>
                 recoveryStateForBackends s origin target then \<not> found \<or> source
         else if rj_AttemptApplyingGeneration j \<noteq> 0 \<and> rj_AttemptApplyingGeneration j \<noteq> maxUint64 \<and>
                 Generation s = rj_AttemptApplyingGeneration j + 1 \<and>
                 recoveryStateForBackends s origin target then \<not> found \<or> attempt \<or> source
         else if Generation s = rj_AttemptFinalGeneration j \<and> stableStateForBackend s target then \<not> found \<or> attempt
         else if rj_AttemptFinalGeneration j \<noteq> maxUint64 \<and> Generation s = rj_AttemptFinalGeneration j + 1 \<and>
                 Phase s = PhaseRecoveryRequired \<and> DesiredBackend s = target \<and> AppliedBackend s = target then \<not> found
         else False)"

section \<open>Recording an attempt\<close>

definition setAttempt ::
  "runtime_journal \<Rightarrow> attempt_kind \<Rightarrow> runtime_direction \<Rightarrow> state \<Rightarrow> 64 word \<Rightarrow> backend \<Rightarrow> backend \<Rightarrow> runtime_journal option" where
  "setAttempt j kind direction s sourceGeneration sourceOrigin sourceTarget =
     (if (direction \<noteq> CompleteTarget \<and> direction \<noteq> RestoreOrigin) \<or> Generation s = 0 then None
      else let g = Generation s;
               j1 = j\<lparr>rj_Phase := RuntimeTransitioning, rj_AttemptKind := kind, rj_AttemptDirection := direction,
                 rj_AttemptStartGeneration := g, rj_AttemptStartDesiredBackend := DesiredBackend s,
                 rj_AttemptStartAppliedBackend := AppliedBackend s, rj_AttemptStartPhase := Phase s,
                 rj_AttemptOriginBackend := AppliedBackend s, rj_AttemptTargetBackend := selectedBackend j direction,
                 rj_AttemptRequestedGeneration := 0, rj_AttemptRecoveryGeneration := 0, rj_AttemptApplyingGeneration := 0,
                 rj_AttemptFinalGeneration := 0, rj_SourceJournalGeneration := sourceGeneration,
                 rj_SourceJournalOriginBackend := (if sourceGeneration \<noteq> 0 then sourceOrigin else BackendOther []),
                 rj_SourceJournalTargetBackend := (if sourceGeneration \<noteq> 0 then sourceTarget else BackendOther []),
                 rj_ResolvedGeneration := 0, rj_ResolvedAppleActive := False\<rparr>
           in case kind of
                AttemptSwitch \<Rightarrow>
                  if g > maxUint64 - 3 \<or> \<not> stableRoutingState s then None
                  else Some (j1\<lparr>rj_AttemptRequestedGeneration := g + 1, rj_AttemptApplyingGeneration := g + 2,
                    rj_AttemptFinalGeneration := g + 3\<rparr>)
              | AttemptApplyPending \<Rightarrow>
                  if g > maxUint64 - 2 \<or> \<not> pendingRoutingState s then None
                  else Some (j1\<lparr>rj_AttemptRequestedGeneration := g, rj_AttemptApplyingGeneration := g + 1,
                    rj_AttemptFinalGeneration := g + 2\<rparr>)
              | AttemptResumeApplying \<Rightarrow>
                  if g = maxUint64 \<or> Phase s \<noteq> PhaseApplying then None
                  else Some (j1\<lparr>rj_AttemptApplyingGeneration := g, rj_AttemptFinalGeneration := g + 1\<rparr>)
              | AttemptReplace \<Rightarrow>
                  if g = maxUint64 then None else Some (j1\<lparr>rj_AttemptFinalGeneration := g + 1\<rparr>)
              | _ \<Rightarrow> None)"

definition setRecoveryAttempt ::
  "string option \<Rightarrow> runtime_journal \<Rightarrow> runtime_direction \<Rightarrow> state \<Rightarrow> 64 word \<Rightarrow> transaction_journal option \<Rightarrow>
   runtime_journal option" where
  "setRecoveryAttempt wd j direction s recoveryGeneration source =
     (if recoveryGeneration = 0 \<or> recoveryGeneration > maxUint64 - 2 then None
      else let (g, sourceOrigin, sourceTarget) =
             (case source of
                Some t \<Rightarrow> if tj_Schema t \<noteq> 0 then (tj_Generation t, tj_OriginBackend t, tj_TargetBackend t)
                          else (0, BackendUnknown, BackendUnknown)
              | None \<Rightarrow> (0, BackendUnknown, BackendUnknown))
           in case setAttempt j AttemptReplace direction s g sourceOrigin sourceTarget of
                None \<Rightarrow> None
              | Some j1 \<Rightarrow>
                  let j2 = j1\<lparr>rj_AttemptKind := AttemptRecover,
                    rj_AttemptOriginBackend := selectedBackend j1 (oppositeRuntimeDirection direction),
                    rj_AttemptTargetBackend := selectedBackend j1 direction,
                    rj_AttemptRequestedGeneration := 0, rj_AttemptRecoveryGeneration := recoveryGeneration,
                    rj_AttemptApplyingGeneration := recoveryGeneration + 1,
                    rj_AttemptFinalGeneration := recoveryGeneration + 2\<rparr>
                  in if runtime_validate wd j2 (rj_BoundConfigPath j2) (rj_BoundCodexConfigPath j2) then Some j2 else None)"

definition markResolved :: "runtime_journal \<Rightarrow> runtime_direction \<Rightarrow> state \<Rightarrow> runtime_journal option" where
  "markResolved j direction s =
     (if Generation s \<noteq> rj_AttemptFinalGeneration j \<or> \<not> stableStateForBackend s (selectedBackend j direction) then None
      else Some (j\<lparr>rj_Phase := RuntimeResolved, rj_AttemptDirection := direction, rj_ResolvedGeneration := Generation s,
             rj_ResolvedAppleActive := (AppliedBackend s = BackendLocalAppleContainer)\<rparr>))"

section \<open>What a recorded attempt promises\<close>

text \<open>The fields of a witness that no attempt changes, as \<open>validate\<close> checks them.\<close>

definition runtime_identity_ok :: "string option \<Rightarrow> runtime_journal \<Rightarrow> string \<Rightarrow> string \<Rightarrow> bool" where
  "runtime_identity_ok wd j configPath codexConfigPath \<longleftrightarrow>
     canonicalConfigPath wd configPath = Inr (rj_BoundConfigPath j) \<and>
     canonicalCodexConfigPath wd codexConfigPath = Inr (rj_BoundCodexConfigPath j) \<and>
     rj_Schema j = runtimeRoutingSchemaVersion \<and> rj_OriginGeneration j \<noteq> 0 \<and> rj_OriginGeneration j \<le> maxUint64 - 3 \<and>
     RuntimeRoutingIntent_valid (rj_Intent j) (rj_TargetAppleActive j) \<and>
     validBackend (rj_OriginBackend j) \<and> rj_OriginBackend j \<noteq> rj_TargetBackend j \<and>
     (if rj_TargetAppleActive j then rj_TargetBackend j = BackendLocalAppleContainer
      else rj_TargetBackend j = BackendNone \<and> rj_OriginBackend j = BackendLocalAppleContainer)"

definition source_ok :: "64 word \<Rightarrow> backend \<Rightarrow> backend \<Rightarrow> bool" where
  "source_ok g sourceOrigin sourceTarget \<longleftrightarrow>
     g = 0 \<or> (validBackend sourceOrigin \<and> validBackend sourceTarget \<and> sourceOrigin \<noteq> sourceTarget)"

lemma unat_plus_small:
  fixes g :: "64 word"
  assumes "unat g + n < 18446744073709551616"
  shows "unat (g + of_nat n) = unat g + n"
proof -
  have n: "unat (of_nat n :: 64 word) = n" using assms by (simp add: unat_of_nat take_bit_nat_eq_self)
  then show ?thesis using assms by (simp add: unat_plus_simple [THEN iffD1] no_olen_add_nat)
qed

lemma unat_max: "unat maxUint64 = 18446744073709551615" "unat (maxUint64 - 2) = 18446744073709551613"
  "unat (maxUint64 - 3) = 18446744073709551612"
  by (simp_all add: maxUint64_def unsigned_minus_1_eq_mask mask_eq_exp_minus_1)

lemma word_succ_bounds:
  fixes g :: "64 word"
  shows "g \<noteq> maxUint64 \<Longrightarrow> g < g + 1 \<and> g + 1 \<noteq> 0"
    and "g \<le> maxUint64 - 2 \<Longrightarrow> g < g + 2 \<and> g < g + 1 \<and> g + 1 < g + 2 \<and> g + 2 \<noteq> 0 \<and> g + 1 \<noteq> 0"
    and "g \<le> maxUint64 - 3 \<Longrightarrow> g < g + 3 \<and> g + 1 < g + 2 \<and> g + 2 < g + 3 \<and> g + 3 \<noteq> 0 \<and> g + 1 \<noteq> 0 \<and> g + 2 \<noteq> 0"
proof -
  have lt: "unat g < 18446744073709551616" using unsigned_less [of g] by simp
  note p = unat_plus_small [of g 1] unat_plus_small [of g 2] unat_plus_small [of g 3]
  have nz: "x \<noteq> 0" if "unat x \<noteq> 0" for x :: "64 word" using that by auto
  show "g < g + 1 \<and> g + 1 \<noteq> 0" if "g \<noteq> maxUint64"
  proof -
    have "unat g \<noteq> unat maxUint64" using that by (simp add: word_unat_eq_iff)
    with lt p(1) nz [of "g + 1"] show ?thesis by (simp add: unat_max word_less_nat_alt)
  qed
  show "g < g + 2 \<and> g < g + 1 \<and> g + 1 < g + 2 \<and> g + 2 \<noteq> 0 \<and> g + 1 \<noteq> 0" if "g \<le> maxUint64 - 2"
  proof -
    have "unat g \<le> 18446744073709551613" using that by (simp add: word_le_nat_alt unat_max)
    with p(1,2) nz [of "g + 1"] nz [of "g + 2"] show ?thesis by (simp add: word_less_nat_alt)
  qed
  show "g < g + 3 \<and> g + 1 < g + 2 \<and> g + 2 < g + 3 \<and> g + 3 \<noteq> 0 \<and> g + 1 \<noteq> 0 \<and> g + 2 \<noteq> 0" if "g \<le> maxUint64 - 3"
  proof -
    have "unat g \<le> 18446744073709551612" using that by (simp add: word_le_nat_alt unat_max)
    with p nz [of "g + 1"] nz [of "g + 2"] nz [of "g + 3"] show ?thesis by (simp add: word_less_nat_alt)
  qed
qed

lemma setAttempt_fields:
  assumes "setAttempt j kind direction s g so st = Some j'"
  shows "rj_Schema j' = rj_Schema j" "rj_BoundConfigPath j' = rj_BoundConfigPath j"
    "rj_BoundCodexConfigPath j' = rj_BoundCodexConfigPath j" "rj_Intent j' = rj_Intent j"
    "rj_OriginBackend j' = rj_OriginBackend j" "rj_TargetBackend j' = rj_TargetBackend j"
    "rj_OriginGeneration j' = rj_OriginGeneration j" "rj_TargetAppleActive j' = rj_TargetAppleActive j"
    "rj_Phase j' = RuntimeTransitioning" "rj_AttemptKind j' = kind" "rj_AttemptDirection j' = direction"
    "rj_AttemptStartGeneration j' = Generation s" "rj_AttemptStartDesiredBackend j' = DesiredBackend s"
    "rj_AttemptStartAppliedBackend j' = AppliedBackend s" "rj_AttemptStartPhase j' = Phase s"
    "rj_AttemptOriginBackend j' = AppliedBackend s" "rj_AttemptTargetBackend j' = selectedBackend j direction"
    "rj_SourceJournalGeneration j' = g"
    "rj_SourceJournalOriginBackend j' = (if g \<noteq> 0 then so else BackendOther [])"
    "rj_SourceJournalTargetBackend j' = (if g \<noteq> 0 then st else BackendOther [])"
    "rj_ResolvedGeneration j' = 0" "\<not> rj_ResolvedAppleActive j'"
    "direction = CompleteTarget \<or> direction = RestoreOrigin" "Generation s \<noteq> 0"
  using assms by (cases kind; auto simp: setAttempt_def Let_def split: if_splits)+

lemma setAttempt_generations:
  assumes "setAttempt j kind direction s g so st = Some j'"
  shows "validAttemptGenerations j' \<and> rj_AttemptStartGeneration j' < rj_AttemptFinalGeneration j' \<and>
    rj_AttemptFinalGeneration j' \<noteq> 0"
proof (cases kind)
  case AttemptSwitch
  then have "Generation s \<le> maxUint64 - 3" using assms by (auto simp: setAttempt_def Let_def not_less split: if_splits)
  from word_succ_bounds(3) [OF this] this show ?thesis
    using assms AttemptSwitch by (auto simp: setAttempt_def validAttemptGenerations_def Let_def split: if_splits)
next
  case AttemptApplyPending
  then have "Generation s \<le> maxUint64 - 2" using assms by (auto simp: setAttempt_def Let_def not_less split: if_splits)
  from word_succ_bounds(2) [OF this] this show ?thesis
    using assms AttemptApplyPending by (auto simp: setAttempt_def validAttemptGenerations_def Let_def split: if_splits)
next
  case AttemptResumeApplying
  then have "Generation s \<noteq> maxUint64" using assms by (auto simp: setAttempt_def Let_def split: if_splits)
  from word_succ_bounds(1) [OF this] this show ?thesis
    using assms AttemptResumeApplying by (auto simp: setAttempt_def validAttemptGenerations_def Let_def split: if_splits)
next
  case AttemptReplace
  then have "Generation s \<noteq> maxUint64" using assms by (auto simp: setAttempt_def Let_def split: if_splits)
  from word_succ_bounds(1) [OF this] this show ?thesis
    using assms AttemptReplace by (auto simp: setAttempt_def validAttemptGenerations_def Let_def split: if_splits)
qed (use assms in \<open>auto simp: setAttempt_def Let_def split: if_splits\<close>)

lemma target_valid: "runtime_identity_ok wd j c d \<Longrightarrow> validBackend (rj_TargetBackend j)"
  by (auto simp: runtime_identity_ok_def backend_defs split: if_splits)

lemma runtime_validateI:
  assumes identity: "runtime_identity_ok wd j configPath codexConfigPath"
    and "rj_Phase j = RuntimeTransitioning" "rj_AttemptDirection j = CompleteTarget \<or> rj_AttemptDirection j = RestoreOrigin"
    and "rj_AttemptStartGeneration j \<noteq> 0" "validBackend (rj_AttemptStartDesiredBackend j)"
    and "validBackend (rj_AttemptStartAppliedBackend j)" "validBackend (rj_AttemptOriginBackend j)"
    and "rj_AttemptTargetBackend j = selectedBackend j (rj_AttemptDirection j)"
    and "rj_AttemptOriginBackend j = rj_AttemptTargetBackend j \<longrightarrow> rj_AttemptKind j = AttemptReplace"
    and "rj_AttemptFinalGeneration j \<noteq> 0" "validAttemptGenerations j"
    and "if rj_SourceJournalGeneration j = 0
      then rj_SourceJournalOriginBackend j = BackendOther [] \<and> rj_SourceJournalTargetBackend j = BackendOther []
      else source_ok (rj_SourceJournalGeneration j) (rj_SourceJournalOriginBackend j) (rj_SourceJournalTargetBackend j)"
    and "rj_ResolvedGeneration j = 0" "\<not> rj_ResolvedAppleActive j"
  shows "runtime_validate wd j configPath codexConfigPath"
proof -
  have c: "canonicalConfigPath wd configPath = Inr (rj_BoundConfigPath j)"
    "canonicalCodexConfigPath wd codexConfigPath = Inr (rj_BoundCodexConfigPath j)"
    using identity by (simp_all add: runtime_identity_ok_def)
  have id: "rj_Schema j = runtimeRoutingSchemaVersion" "rj_OriginGeneration j \<noteq> 0" "\<not> rj_OriginGeneration j > maxUint64 - 3"
    "RuntimeRoutingIntent_valid (rj_Intent j) (rj_TargetAppleActive j)" "validBackend (rj_OriginBackend j)"
    "rj_OriginBackend j \<noteq> rj_TargetBackend j"
    using identity by (simp_all add: runtime_identity_ok_def not_less)
  have apple: "rj_TargetAppleActive j \<Longrightarrow> rj_TargetBackend j = BackendLocalAppleContainer \<and> rj_OriginBackend j \<noteq> BackendLocalAppleContainer"
    "\<not> rj_TargetAppleActive j \<Longrightarrow> rj_TargetBackend j = BackendNone \<and> rj_OriginBackend j = BackendLocalAppleContainer"
    using identity by (auto simp: runtime_identity_ok_def)
  show ?thesis
    unfolding runtime_validate_def c
    using assms(2-) id apple target_valid [OF identity]
    by (simp add: source_ok_def Let_def split: if_splits) blast+
qed

section \<open>Properties\<close>


text \<open>Stopping an active Apple Container runtime, as an example.\<close>

definition stop_intent :: runtime_intent where
  "stop_intent = \<lparr>ri_OperationID = replicate 16 (CHR ''a''), ri_InstallationID = replicate 16 (CHR ''b''),
     ri_OldManifestSHA256 = replicate 64 (CHR ''a''), ri_NewManifestSHA256 = ''absent'',
     ri_OldImageDigest = ''sha256:'' @ replicate 64 (CHR ''b''), ri_NewImageDigest = ''absent'',
     ri_OldStateGeneration = 3, ri_NewStateGeneration = 0\<rparr>"

definition apple_state :: state where
  "apple_state = \<lparr>Schema = 3, Generation = 5, DesiredMode = ModeRelay, AppliedMode = ModeRelay,
     DesiredBackend = BackendLocalAppleContainer, AppliedBackend = BackendLocalAppleContainer, Phase = PhaseRelayActive,
     KnownLegacy = False, BoundConfigPath = ''/r'', BoundCodexConfigPath = ''/c''\<rparr>"

definition stop_journal :: runtime_journal where
  "stop_journal = \<lparr>rj_Schema = 1, rj_BoundConfigPath = ''/r'', rj_BoundCodexConfigPath = ''/c'', rj_Intent = stop_intent,
     rj_OriginBackend = BackendLocalAppleContainer, rj_TargetBackend = BackendNone, rj_OriginGeneration = 5,
     rj_TargetAppleActive = False, rj_Phase = RuntimeTransitioning, rj_AttemptKind = AttemptOther [],
     rj_AttemptDirection = DirectionOther [], rj_AttemptStartGeneration = 0, rj_AttemptStartDesiredBackend = BackendOther [],
     rj_AttemptStartAppliedBackend = BackendOther [], rj_AttemptStartPhase = PhaseOther [], rj_AttemptOriginBackend = BackendOther [],
     rj_AttemptTargetBackend = BackendOther [], rj_AttemptRequestedGeneration = 0, rj_AttemptRecoveryGeneration = 0,
     rj_AttemptApplyingGeneration = 0, rj_AttemptFinalGeneration = 0, rj_SourceJournalGeneration = 0,
     rj_SourceJournalOriginBackend = BackendOther [], rj_SourceJournalTargetBackend = BackendOther [],
     rj_ResolvedGeneration = 0, rj_ResolvedAppleActive = False\<rparr>"

lemma stop_identity: "runtime_identity_ok None stop_journal ''/r'' ''/c''"
  by code_simp


end
