(* ===== verification/Routing_Store.thy ===== *)
theory Routing_Store
  imports Routing_Journals Json_Keys
begin

text \<open>
  Package \<open>routing\<close>, files \<open>store.go\<close>, \<open>transaction.go\<close>, \<open>security_unix.go\<close> and the load, write and
  remove functions of the three journals: one relay configuration's control files and the checked
  transitions between durable states.

  A control file is absent, refused (a symlink, not a regular file, wrong mode or owner, or not
  readable: every access to it fails), or a regular file with contents. A write replaces the file
  atomically or leaves it alone; whether it succeeds is an argument. \<open>encoding/json\<close> is represented
  by the decoding and encoding functions of the environment.
\<close>

datatype control_file = FileAbsent | FileRefused | FileContents bytes

record disk =
  dk_state :: control_file
  dk_marker :: control_file
  dk_journal :: control_file
  dk_maintenance :: control_file
  dk_runtime :: control_file

record routing_env =
  re_wd :: "string option"
  re_decode_state :: "bytes \<Rightarrow> state json_decode"
  re_encode_state :: "state \<Rightarrow> bytes"
  re_decode_journal :: "bytes \<Rightarrow> transaction_journal json_decode"
  re_encode_journal :: "transaction_journal \<Rightarrow> bytes"
  re_decode_maintenance :: "bytes \<Rightarrow> maintenance_journal json_decode"
  re_encode_maintenance :: "maintenance_journal \<Rightarrow> bytes"
  re_decode_runtime :: "bytes \<Rightarrow> runtime_journal json_decode"
  re_encode_runtime :: "runtime_journal \<Rightarrow> bytes"
  re_tokens :: "bytes \<Rightarrow> token list"
  re_stream_end :: "bytes \<Rightarrow> stream_end"

section \<open>Control files\<close>

text \<open>\<open>Inr None\<close> is \<open>os.ErrNotExist\<close>.\<close>

fun readStateFile :: "control_file \<Rightarrow> (routing_error, bytes option) result" where
  "readStateFile FileAbsent = Inr None"
| "readStateFile FileRefused = Inl ErrControlFile"
| "readStateFile (FileContents payload) = Inr (Some (take (maxStateBytes + 1) payload))"

fun writeControlFileAtomically :: "bool \<Rightarrow> control_file \<Rightarrow> bytes \<Rightarrow> (routing_error, control_file) result" where
  "writeControlFileAtomically ok FileRefused payload = Inl ErrStateCorrupt"
| "writeControlFileAtomically ok f payload = (if ok then Inr (FileContents payload) else Inl ErrControlFile)"

fun removeControlFile :: "bool \<Rightarrow> control_file \<Rightarrow> (routing_error, control_file) result" where
  "removeControlFile ok FileRefused = Inl ErrStateCorrupt"
| "removeControlFile ok FileAbsent = Inr FileAbsent"
| "removeControlFile ok (FileContents payload) = (if ok then Inr FileAbsent else Inl ErrControlFile)"

definition initializedMarkerContents :: bytes where
  "initializedMarkerContents = ''opencodex-relay-routing-initialized-v1'' @ [CHR 0x0A]"

definition initializedMarkerPresent :: "control_file \<Rightarrow> (routing_error, bool) result" where
  "initializedMarkerPresent f =
     (case readStateFile f of
        Inl e \<Rightarrow> Inl e
      | Inr None \<Rightarrow> Inr False
      | Inr (Some payload) \<Rightarrow> if payload \<noteq> initializedMarkerContents then Inl ErrStateCorrupt else Inr True)"

definition writeInitializedMarker :: "bool \<Rightarrow> control_file \<Rightarrow> (routing_error, control_file) result" where
  "writeInitializedMarker ok f =
     (case initializedMarkerPresent f of
        Inl e \<Rightarrow> Inl e
      | Inr True \<Rightarrow> Inr f
      | Inr False \<Rightarrow> writeControlFileAtomically ok f initializedMarkerContents)"

definition writeStateAtomically ::
  "routing_env \<Rightarrow> bool \<Rightarrow> control_file \<Rightarrow> state \<Rightarrow> (routing_error, control_file) result" where
  "writeStateAtomically env ok f s =
     writeControlFileAtomically ok f (re_encode_state env (normalizeStateBackends s))"

section \<open>Store\<close>

record store =
  st_configPath :: string
  st_statePath :: string
  st_initializedPath :: string
  st_lockPath :: string

definition Open :: "string option \<Rightarrow> string \<Rightarrow> (routing_error, store) result" where
  "Open wd configPath =
     (case canonicalConfigPath wd configPath of
        Inl e \<Rightarrow> Inl e
      | Inr bound \<Rightarrow> Inr \<lparr>st_configPath = bound, st_statePath = StatePath bound,
          st_initializedPath = InitializedPath bound, st_lockPath = bound @ ''.routing.lock''\<rparr>)"

text \<open>\<open>Read\<close>; the flag is \<open>legacy\<close>.\<close>

definition Read :: "routing_env \<Rightarrow> store \<Rightarrow> disk \<Rightarrow> (routing_error, state \<times> bool) result" where
  "Read env st d =
     (case readStateFile (dk_state d) of
        Inr None \<Rightarrow>
          (case initializedMarkerPresent (dk_marker d) of
             Inl e \<Rightarrow> Inl e
           | Inr True \<Rightarrow> Inl ErrStateCorrupt
           | Inr False \<Rightarrow>
               (case NewRelayState (re_wd env) (st_configPath st) of Inl e \<Rightarrow> Inl e | Inr s \<Rightarrow> Inr (s, True)))
      | Inl e \<Rightarrow> Inl e
      | Inr (Some payload) \<Rightarrow>
          (case decodeState (re_decode_state env) (re_wd env) payload (st_configPath st) of
             Inl e \<Rightarrow> Inl e
           | Inr s \<Rightarrow> Inr (s, False)))"

definition validateTransition :: "state \<Rightarrow> state \<Rightarrow> (routing_error, unit) result" where
  "validateTransition previous next =
     (if Phase next = PhaseRecoveryRequired then Inr ()
      else if Phase previous = PhaseRecoveryRequired then Inl ErrStateTransition
      else let valid = (case Phase previous of
             PhaseRelayActive \<Rightarrow> Phase next = PhaseRelayActive \<or> Phase next = PhaseNativePendingRestart \<or>
               Phase next = PhaseBackendPendingRestart \<or> Phase next = PhaseApplying
           | PhaseNativePendingRestart \<Rightarrow> Phase next = PhaseNativePendingRestart \<or> Phase next = PhaseRelayActive \<or>
               Phase next = PhaseBackendPendingRestart \<or> Phase next = PhaseApplying
           | PhaseRelayPendingRestart \<Rightarrow> Phase next = PhaseRelayPendingRestart \<or> Phase next = PhaseNativeActive \<or>
               Phase next = PhaseApplying
           | PhaseBackendPendingRestart \<Rightarrow> Phase next = PhaseBackendPendingRestart \<or> Phase next = PhaseRelayActive \<or>
               Phase next = PhaseNativePendingRestart \<or> Phase next = PhaseApplying
           | PhaseApplying \<Rightarrow> (DesiredBackend previous = BackendNone \<and> Phase next = PhaseNativeActive) \<or>
               (validRelayBackend (DesiredBackend previous) \<and> Phase next = PhaseRelayActive)
           | PhaseNativeActive \<Rightarrow> Phase next = PhaseNativeActive \<or> Phase next = PhaseRelayPendingRestart
           | _ \<Rightarrow> False)
      in if valid then Inr () else Inl ErrStateTransition)"

text \<open>The two writes of \<open>Save\<close> and \<open>Replace\<close>: the marker first, then the state.\<close>

definition writeMarkerAndState ::
  "routing_env \<Rightarrow> bool \<Rightarrow> bool \<Rightarrow> disk \<Rightarrow> state \<Rightarrow> disk \<times> (routing_error, unit) result" where
  "writeMarkerAndState env okMarker okState d next =
     (case writeInitializedMarker okMarker (dk_marker d) of
        Inl e \<Rightarrow> (d, Inl e)
      | Inr marker \<Rightarrow>
          let d1 = d\<lparr>dk_marker := marker\<rparr>
          in case writeStateAtomically env okState (dk_state d1) next of
               Inl e \<Rightarrow> (d1, Inl e)
             | Inr f \<Rightarrow> (d1\<lparr>dk_state := f\<rparr>, Inr ()))"

definition Save ::
  "routing_env \<Rightarrow> store \<Rightarrow> bool \<Rightarrow> bool \<Rightarrow> bool \<Rightarrow> disk \<Rightarrow> state \<Rightarrow> disk \<times> (routing_error, unit) result" where
  "Save env st closed okMarker okState d next0 =
     (if closed then (d, Inl ErrLockClosed)
      else let next = normalizeStateBackends next0 in
        case ValidateFor (re_wd env) next (st_configPath st) of
          Inl e \<Rightarrow> (d, Inl e)
        | Inr _ \<Rightarrow>
            (case Read env st d of
               Inl e \<Rightarrow> (d, Inl e)
             | Inr (previous, legacy) \<Rightarrow>
                 if \<not> legacy \<and> Generation next \<le> Generation previous then (d, Inl ErrStateGeneration)
                 else (case (if legacy then Inr () else validateTransition previous next) of
                         Inl e \<Rightarrow> (d, Inl e)
                       | Inr _ \<Rightarrow> writeMarkerAndState env okMarker okState d next)))"

definition Replace ::
  "routing_env \<Rightarrow> store \<Rightarrow> bool \<Rightarrow> bool \<Rightarrow> bool \<Rightarrow> disk \<Rightarrow> state \<Rightarrow> disk \<times> (routing_error, unit) result" where
  "Replace env st closed okMarker okState d next0 =
     (if closed then (d, Inl ErrLockClosed)
      else let next = normalizeStateBackends next0 in
        case ValidateFor (re_wd env) next (st_configPath st) of
          Inl e \<Rightarrow> (d, Inl e)
        | Inr _ \<Rightarrow> writeMarkerAndState env okMarker okState d next)"

section \<open>Journals on disk\<close>

definition routing_rejectDuplicateJSONKeys :: "routing_env \<Rightarrow> bytes \<Rightarrow> bool" where
  "routing_rejectDuplicateJSONKeys env payload =
     (case rejectDuplicateJSONKeys (re_stream_end env payload) (re_tokens env payload) of Inl _ \<Rightarrow> True | Inr _ \<Rightarrow> False)"

definition maxJournalBytes :: nat where "maxJournalBytes = 16384"

definition loadJournal :: "routing_env \<Rightarrow> disk \<Rightarrow> (routing_error, transaction_journal option) result" where
  "loadJournal env d =
     (case readStateFile (dk_journal d) of
        Inr None \<Rightarrow> Inr None
      | Inl e \<Rightarrow> Inl e
      | Inr (Some payload) \<Rightarrow>
          if length payload > maxJournalBytes then Inl ErrStateCorrupt
          else (case re_decode_journal env payload of
                  DecodedThenEOF j \<Rightarrow>
                    let j' = normalizeTransactionJournal j
                    in (case transaction_validate j' of Inl e \<Rightarrow> Inl e | Inr _ \<Rightarrow> Inr (Some j'))
                | _ \<Rightarrow> Inl ErrStateCorrupt))"

definition writeJournal :: "routing_env \<Rightarrow> bool \<Rightarrow> disk \<Rightarrow> transaction_journal \<Rightarrow> disk \<times> (routing_error, unit) result" where
  "writeJournal env ok d j0 =
     (let j = normalizeTransactionJournal j0 in
      case transaction_validate j of
        Inl e \<Rightarrow> (d, Inl e)
      | Inr _ \<Rightarrow>
          (case writeControlFileAtomically ok (dk_journal d) (re_encode_journal env j) of
             Inl e \<Rightarrow> (d, Inl e)
           | Inr f \<Rightarrow> (d\<lparr>dk_journal := f\<rparr>, Inr ())))"

definition removeJournal :: "bool \<Rightarrow> disk \<Rightarrow> disk \<times> (routing_error, unit) result" where
  "removeJournal ok d =
     (case removeControlFile ok (dk_journal d) of
        Inl e \<Rightarrow> (d, Inl e)
      | Inr f \<Rightarrow> (d\<lparr>dk_journal := f\<rparr>, Inr ()))"

text \<open>\<open>ValidateTransaction\<close> reopens the store by its canonical path; \<open>Inr False\<close> is \<open>os.ErrNotExist\<close>.\<close>

definition ValidateTransaction :: "routing_env \<Rightarrow> string \<Rightarrow> disk \<Rightarrow> (routing_error, bool) result" where
  "ValidateTransaction env configPath d =
     (case Open (re_wd env) configPath of
        Inl e \<Rightarrow> Inl e
      | Inr _ \<Rightarrow> (case loadJournal env d of Inl e \<Rightarrow> Inl e | Inr j \<Rightarrow> Inr (j \<noteq> None)))"

definition HasPendingTransaction :: "routing_env \<Rightarrow> store \<Rightarrow> disk \<Rightarrow> (routing_error, bool) result" where
  "HasPendingTransaction env st d =
     (case dk_journal d of
        FileAbsent \<Rightarrow> Inr False
      | FileRefused \<Rightarrow> Inl ErrControlFile
      | FileContents _ \<Rightarrow> ValidateTransaction env (st_configPath st) d)"

definition loadMaintenance :: "routing_env \<Rightarrow> store \<Rightarrow> disk \<Rightarrow> (routing_error, maintenance_journal option) result" where
  "loadMaintenance env st d =
     (case readStateFile (dk_maintenance d) of
        Inr None \<Rightarrow> Inr None
      | Inl e \<Rightarrow> Inl e
      | Inr (Some payload) \<Rightarrow>
          if length payload > maxJournalBytes then Inl ErrStateCorrupt
          else if routing_rejectDuplicateJSONKeys env payload then Inl ErrStateCorrupt
          else (case re_decode_maintenance env payload of
                  DecodedThenEOF j \<Rightarrow>
                    (case maintenance_validate (re_wd env) j (st_configPath st) of Inl e \<Rightarrow> Inl e | Inr _ \<Rightarrow> Inr (Some j))
                | _ \<Rightarrow> Inl ErrStateCorrupt))"

definition writeMaintenance ::
  "routing_env \<Rightarrow> store \<Rightarrow> bool \<Rightarrow> disk \<Rightarrow> maintenance_journal \<Rightarrow> disk \<times> (routing_error, unit) result" where
  "writeMaintenance env st ok d j =
     (case maintenance_validate (re_wd env) j (st_configPath st) of
        Inl e \<Rightarrow> (d, Inl e)
      | Inr _ \<Rightarrow>
          (case writeControlFileAtomically ok (dk_maintenance d) (re_encode_maintenance env j) of
             Inl e \<Rightarrow> (d, Inl e)
           | Inr f \<Rightarrow> (d\<lparr>dk_maintenance := f\<rparr>, Inr ())))"

definition removeMaintenance :: "bool \<Rightarrow> disk \<Rightarrow> disk \<times> (routing_error, unit) result" where
  "removeMaintenance ok d =
     (case removeControlFile ok (dk_maintenance d) of
        Inl e \<Rightarrow> (d, Inl e)
      | Inr f \<Rightarrow> (d\<lparr>dk_maintenance := f\<rparr>, Inr ()))"

definition loadRuntimeRouting ::
  "routing_env \<Rightarrow> store \<Rightarrow> string \<Rightarrow> disk \<Rightarrow> (routing_error, runtime_journal option) result" where
  "loadRuntimeRouting env st codexConfigPath d =
     (case readStateFile (dk_runtime d) of
        Inr None \<Rightarrow> Inr None
      | Inl e \<Rightarrow> Inl e
      | Inr (Some payload) \<Rightarrow>
          if length payload > maxJournalBytes \<or> routing_rejectDuplicateJSONKeys env payload then Inl ErrStateCorrupt
          else (case re_decode_runtime env payload of
                  DecodedThenEOF j \<Rightarrow>
                    if runtime_validate (re_wd env) j (st_configPath st) codexConfigPath then Inr (Some j) else Inl ErrStateCorrupt
                | _ \<Rightarrow> Inl ErrStateCorrupt))"

definition writeRuntimeRouting ::
  "routing_env \<Rightarrow> store \<Rightarrow> string \<Rightarrow> bool \<Rightarrow> disk \<Rightarrow> runtime_journal \<Rightarrow> disk \<times> (routing_error, unit) result" where
  "writeRuntimeRouting env st codexConfigPath ok d j =
     (if \<not> runtime_validate (re_wd env) j (st_configPath st) codexConfigPath then (d, Inl ErrStateCorrupt)
      else (case writeControlFileAtomically ok (dk_runtime d) (re_encode_runtime env j) of
              Inl e \<Rightarrow> (d, Inl e)
            | Inr f \<Rightarrow> (d\<lparr>dk_runtime := f\<rparr>, Inr ())))"

definition removeRuntimeRouting :: "bool \<Rightarrow> disk \<Rightarrow> disk \<times> (routing_error, unit) result" where
  "removeRuntimeRouting ok d =
     (case removeControlFile ok (dk_runtime d) of
        Inl e \<Rightarrow> (d, Inl e)
      | Inr f \<Rightarrow> (d\<lparr>dk_runtime := f\<rparr>, Inr ()))"

section \<open>The contract of a journal on disk\<close>

text \<open>What the users of a crash witness rely on: a successful write is what the next load returns, a
  failed write or removal changes nothing, and after a removal there is nothing to load. \<open>faithful\<close>
  are the values that survive JSON.\<close>

locale control_cell =
  fixes load :: "disk \<Rightarrow> (routing_error, 'a option) result"
    and put :: "bool \<Rightarrow> disk \<Rightarrow> 'a \<Rightarrow> disk \<times> (routing_error, unit) result"
    and clear :: "bool \<Rightarrow> disk \<Rightarrow> disk \<times> (routing_error, unit) result"
    and faithful :: "'a \<Rightarrow> bool"
  assumes put_ok: "faithful x \<Longrightarrow> put ok d x = (d', Inr ()) \<Longrightarrow> load d' = Inr (Some x)"
    and put_err: "put ok d x = (d', Inl e) \<Longrightarrow> d' = d"
    and clear_ok: "clear ok d = (d', Inr ()) \<Longrightarrow> load d' = Inr None"
    and clear_err: "clear ok d = (d', Inl e) \<Longrightarrow> d' = d"
    and state_kept: "dk_state (fst (put ok d x)) = dk_state d \<and> dk_marker (fst (put ok d x)) = dk_marker d"
      "dk_state (fst (clear ok d)) = dk_state d \<and> dk_marker (fst (clear ok d)) = dk_marker d"
begin

text \<open>An update of a witness leaves the old or the new one, never none.\<close>

lemma put_never_loses:
  assumes "load d = Inr (Some x)" "faithful y"
  shows "load (fst (put ok d y)) = Inr (Some x) \<or> load (fst (put ok d y)) = Inr (Some y)"
proof (cases "put ok d y")
  case (Pair d' r)
  then show ?thesis using put_err [of ok d y d'] put_ok [OF assms(2), of ok d d'] assms(1) by (cases r) auto
qed

lemma clear_cases:
  "load (fst (clear ok d)) = Inr None \<or> fst (clear ok d) = d"
proof (cases "clear ok d")
  case (Pair d' r)
  then show ?thesis using clear_ok [of ok d d'] clear_err [of ok d d'] by (cases r) auto
qed

end

definition journal_faithful :: "routing_env \<Rightarrow> transaction_journal \<Rightarrow> bool" where
  "journal_faithful env j \<longleftrightarrow>
     re_decode_journal env (re_encode_journal env j) = DecodedThenEOF j \<and>
     length (re_encode_journal env j) \<le> maxJournalBytes \<and> normalizeTransactionJournal j = j"

definition maintenance_faithful :: "routing_env \<Rightarrow> maintenance_journal \<Rightarrow> bool" where
  "maintenance_faithful env j \<longleftrightarrow>
     re_decode_maintenance env (re_encode_maintenance env j) = DecodedThenEOF j \<and>
     length (re_encode_maintenance env j) \<le> maxJournalBytes \<and>
     \<not> routing_rejectDuplicateJSONKeys env (re_encode_maintenance env j)"

definition runtime_faithful :: "routing_env \<Rightarrow> runtime_journal \<Rightarrow> bool" where
  "runtime_faithful env j \<longleftrightarrow>
     re_decode_runtime env (re_encode_runtime env j) = DecodedThenEOF j \<and>
     length (re_encode_runtime env j) \<le> maxJournalBytes \<and>
     \<not> routing_rejectDuplicateJSONKeys env (re_encode_runtime env j)"

lemma short_payload [simp]: "length p \<le> maxJournalBytes \<Longrightarrow> take (maxStateBytes + 1) p = p"
  "length p \<le> maxJournalBytes \<Longrightarrow> take (Suc maxStateBytes) p = p"
  by (simp_all add: maxJournalBytes_def maxStateBytes_def)

lemma control_write_cases:
  "writeControlFileAtomically ok f p = Inr f' \<Longrightarrow> f' = FileContents p"
  by (cases f) (auto split: if_splits)

lemma control_remove_cases:
  "removeControlFile ok f = Inr f' \<Longrightarrow> f' = FileAbsent"
  by (cases f) (auto split: if_splits)

interpretation transaction: control_cell "loadJournal env" "writeJournal env" removeJournal "journal_faithful env" for env
  by unfold_locales
    (auto simp: loadJournal_def writeJournal_def removeJournal_def journal_faithful_def Let_def
      dest!: control_write_cases control_remove_cases split: sum.splits)

interpretation maintenance: control_cell "loadMaintenance env st" "writeMaintenance env st" removeMaintenance
  "maintenance_faithful env" for env st
  by unfold_locales
    (auto simp: loadMaintenance_def writeMaintenance_def removeMaintenance_def maintenance_faithful_def
      dest!: control_write_cases control_remove_cases split: sum.splits)

interpretation runtime: control_cell "loadRuntimeRouting env st codex" "writeRuntimeRouting env st codex" removeRuntimeRouting
  "runtime_faithful env" for env st codex
  by unfold_locales
    (auto simp: loadRuntimeRouting_def writeRuntimeRouting_def removeRuntimeRouting_def runtime_faithful_def
      dest!: control_write_cases control_remove_cases split: sum.splits if_splits)

section \<open>Saved states\<close>

definition state_faithful :: "routing_env \<Rightarrow> state \<Rightarrow> bool" where
  "state_faithful env s \<longleftrightarrow>
     re_decode_state env (re_encode_state env s) = DecodedThenEOF s \<and> length (re_encode_state env s) \<le> maxStateBytes"

definition store_bound :: "routing_env \<Rightarrow> store \<Rightarrow> bool" where
  "store_bound env st \<longleftrightarrow> canonicalConfigPath (re_wd env) (st_configPath st) = Inr (st_configPath st)"

lemma Open_bound: "Open (re_wd env) p = Inr st \<Longrightarrow> getwd_rooted (re_wd env) \<Longrightarrow> store_bound env st"
  by (auto simp: Open_def store_bound_def canonical_idem split: sum.splits)

lemma ValidateFor_valid: "store_bound env st \<Longrightarrow>
    ValidateFor (re_wd env) s (st_configPath st) = Inr () \<longleftrightarrow> valid_state (re_wd env) (st_configPath st) s"
  by (simp add: ValidateFor_def store_bound_def valid_state_def)

lemma Read_valid: "Read env st d = Inr (s, False) \<Longrightarrow> valid_state (re_wd env) (st_configPath st) s"
  by (auto simp: Read_def elim!: decodeState_cases split: sum.splits option.splits bool.splits)

lemma normalized_idem: "normalizeStateBackends (normalizeStateBackends s) = normalizeStateBackends s"
proof -
  have "backendForLegacyMode m \<noteq> BackendOther []" for m by (cases m) auto
  then show ?thesis by (auto simp: normalizeStateBackends_def Let_def)
qed

lemma Read_written:
  assumes "valid_state (re_wd env) (st_configPath st) s" "state_faithful env s"
    and "readStateFile (dk_state d) = Inr (Some (re_encode_state env s))"
  shows "Read env st d = Inr (s, False)"
proof -
  have "Schema s = 3" "validateForBound (re_wd env) s (st_configPath st) = Inr ()"
    using assms(1) by (simp_all add: valid_state_iff schema_defs) (simp add: valid_state_def [symmetric] valid_state_iff schema_defs)
  with assms(2,3) show ?thesis
    by (simp add: Read_def decodeState_def state_faithful_def Let_def schema_defs)
qed

lemma writeMarkerAndState_cases:
  assumes "writeMarkerAndState env okM okS d s = (d', r)"
  shows "dk_journal d' = dk_journal d \<and> dk_maintenance d' = dk_maintenance d \<and> dk_runtime d' = dk_runtime d \<and>
    (case r of Inl _ \<Rightarrow> dk_state d' = dk_state d
     | Inr _ \<Rightarrow> dk_state d' = FileContents (re_encode_state env (normalizeStateBackends s)) \<and>
         initializedMarkerPresent (dk_marker d') = Inr True)"
proof -
  have m: "initializedMarkerPresent f' = Inr True" if "writeInitializedMarker okM f = Inr f'" for f f'
    using that
    by (auto simp: writeInitializedMarker_def initializedMarkerPresent_def initializedMarkerContents_def maxStateBytes_def
        dest!: control_write_cases split: sum.splits bool.splits option.splits if_splits)
  from assms show ?thesis
    by (auto simp: writeMarkerAndState_def Let_def writeStateAtomically_def
        dest!: control_write_cases m split: sum.splits)
qed

lemma writeMarkerAndState_read:
  assumes "writeMarkerAndState env okM okS d s = (d', Inr ())" "valid_state (re_wd env) (st_configPath st) s"
    and "state_faithful env s"
  shows "Read env st d' = Inr (s, False)"
proof (rule Read_written [OF assms(2,3)])
  have "length (re_encode_state env s) \<le> maxStateBytes" using assms(3) by (simp add: state_faithful_def)
  then show "readStateFile (dk_state d') = Inr (Some (re_encode_state env s))"
    using writeMarkerAndState_cases [OF assms(1)] valid_state_normalized [OF assms(2)] by simp
qed

lemma Save_cases:
  assumes "Save env st closed okM okS d next = (d', r)" "store_bound env st"
  shows "dk_journal d' = dk_journal d \<and> dk_maintenance d' = dk_maintenance d \<and> dk_runtime d' = dk_runtime d \<and>
    (case r of
       Inl _ \<Rightarrow> dk_state d' = dk_state d
     | Inr _ \<Rightarrow> let n = normalizeStateBackends next in
         valid_state (re_wd env) (st_configPath st) n \<and>
         writeMarkerAndState env okM okS d n = (d', Inr ()) \<and>
         (\<exists>prev legacy. Read env st d = Inr (prev, legacy) \<and>
           (\<not> legacy \<longrightarrow> Generation prev < Generation n \<and> validateTransition prev n = Inr ())))"
proof -
  let ?n = "normalizeStateBackends next"
  consider (early) "d' = d" "isl r"
    | (stored) prev legacy where "valid_state (re_wd env) (st_configPath st) ?n" "Read env st d = Inr (prev, legacy)"
      "\<not> legacy \<longrightarrow> Generation prev < Generation ?n \<and> validateTransition prev ?n = Inr ()"
      "writeMarkerAndState env okM okS d ?n = (d', r)"
    using assms(1) unfolding Save_def Let_def
    by (auto simp: ValidateFor_valid [OF assms(2)] not_le split: if_splits sum.splits) (metis sum.disc(1))+
  then show ?thesis
  proof cases
    case early
    then show ?thesis by (cases r) simp_all
  next
    case stored
    with writeMarkerAndState_cases [OF stored(4)] show ?thesis by (cases r) (auto simp: Let_def)
  qed
qed

lemma Replace_cases:
  assumes "Replace env st closed okM okS d next = (d', r)" "store_bound env st"
  shows "dk_journal d' = dk_journal d \<and> dk_maintenance d' = dk_maintenance d \<and> dk_runtime d' = dk_runtime d \<and>
    (case r of
       Inl _ \<Rightarrow> dk_state d' = dk_state d
     | Inr _ \<Rightarrow> let n = normalizeStateBackends next in
         valid_state (re_wd env) (st_configPath st) n \<and> writeMarkerAndState env okM okS d n = (d', Inr ()))"
  using assms(1)
  by (auto simp: Replace_def Let_def ValidateFor_valid [OF assms(2)]
      dest: writeMarkerAndState_cases split: if_splits sum.splits)

text \<open>Conversely, nothing but a failing write stops a \<open>Save\<close> whose checks pass.\<close>

lemma writable_state: "Read env st d = Inr (prev, legacy) \<Longrightarrow> dk_state d \<noteq> FileRefused"
  by (auto simp: Read_def)

lemma Save_succeeds:
  assumes "store_bound env st" "valid_state (re_wd env) (st_configPath st) n" "Read env st d = Inr (prev, False)"
    and "Generation prev < Generation n" "validateTransition prev n = Inr ()"
    and "initializedMarkerPresent (dk_marker d) = Inr True"
  shows "Save env st False okM True d n = (d\<lparr>dk_state := FileContents (re_encode_state env n)\<rparr>, Inr ())"
proof -
  have v: "ValidateFor (re_wd env) n (st_configPath st) = Inr ()" using assms(1,2) by (simp add: ValidateFor_valid)
  have n: "normalizeStateBackends n = n" by (rule valid_state_normalized [OF assms(2)])
  have "writeControlFileAtomically True (dk_state d) p = Inr (FileContents p)" for p
    using writable_state [OF assms(3)] by (cases "dk_state d") auto
  then show ?thesis
    using assms(3-6) v
    by (simp add: Save_def n writeMarkerAndState_def writeInitializedMarker_def writeStateAtomically_def Let_def not_le)
qed

text \<open>The durable states reached by any number of \<open>Save\<close> calls, with any of the writes failing.\<close>

inductive saved :: "routing_env \<Rightarrow> store \<Rightarrow> disk \<Rightarrow> disk \<Rightarrow> bool" for env st d where
  none: "saved env st d d"
| save: "saved env st d d1 \<Longrightarrow> state_faithful env (normalizeStateBackends n) \<Longrightarrow>
    Save env st closed okM okS d1 n = (d2, r) \<Longrightarrow> saved env st d d2"

lemma recovery_absorbs: "validateTransition p n = Inr () \<Longrightarrow> Phase p = PhaseRecoveryRequired \<Longrightarrow> Phase n = PhaseRecoveryRequired"
  by (auto simp: validateTransition_def split: if_splits)

lemma Read_same_state_file: "dk_state d' = dk_state d \<Longrightarrow> Read env st d = Inr (s, False) \<Longrightarrow> Read env st d' = Inr (s, False)"
  by (auto simp: Read_def split: sum.splits option.splits bool.splits)

lemma saved_advances:
  assumes "saved env st d d'" "store_bound env st" "Read env st d = Inr (s, False)"
  shows "\<exists>s'. Read env st d' = Inr (s', False) \<and> (s' = s \<or> Generation s < Generation s') \<and>
    (Phase s = PhaseRecoveryRequired \<longrightarrow> Phase s' = PhaseRecoveryRequired)"
  using assms
proof (induction rule: saved.induct)
  case (save d1 n closed okM okS d2 r)
  then obtain s1 where s1: "Read env st d1 = Inr (s1, False)" "s1 = s \<or> Generation s < Generation s1"
    "Phase s = PhaseRecoveryRequired \<longrightarrow> Phase s1 = PhaseRecoveryRequired" by auto
  show ?case
  proof (cases r)
    case (Inl e)
    with Save_cases [OF save.hyps(3) save.prems(1)] have "dk_state d2 = dk_state d1" by simp
    from Read_same_state_file [OF this s1(1)] s1 show ?thesis by auto
  next
    case (Inr u)
    let ?n = "normalizeStateBackends n"
    from Save_cases [OF save.hyps(3) save.prems(1)] Inr s1(1)
    have n: "valid_state (re_wd env) (st_configPath st) ?n" "writeMarkerAndState env okM okS d1 ?n = (d2, Inr ())"
      "Generation s1 < Generation ?n" "validateTransition s1 ?n = Inr ()" by (auto simp: Let_def)
    from writeMarkerAndState_read [OF n(2,1) save.hyps(2)] n(3,4) s1(2,3) recovery_absorbs [OF n(4)]
    show ?thesis by (auto intro: less_trans)
  qed
qed auto

section \<open>An example environment\<close>

text \<open>A small codec for the states of one installation, in the place of JSON: it shows that the
  hypotheses on encoding can be met, and the examples below run on it.\<close>

fun phase_code :: "phase \<Rightarrow> char" where
  "phase_code PhaseRelayActive = CHR ''r''" | "phase_code PhaseNativePendingRestart = CHR ''n''"
| "phase_code PhaseRelayPendingRestart = CHR ''p''" | "phase_code PhaseBackendPendingRestart = CHR ''b''"
| "phase_code PhaseApplying = CHR ''a''" | "phase_code PhaseNativeActive = CHR ''N''"
| "phase_code PhaseRecoveryRequired = CHR ''R''" | "phase_code (PhaseOther _) = CHR ''?''"

definition phase_decode :: "char \<Rightarrow> phase" where
  "phase_decode c =
     (if c = CHR ''r'' then PhaseRelayActive else if c = CHR ''n'' then PhaseNativePendingRestart
      else if c = CHR ''p'' then PhaseRelayPendingRestart else if c = CHR ''b'' then PhaseBackendPendingRestart
      else if c = CHR ''a'' then PhaseApplying else if c = CHR ''N'' then PhaseNativeActive else PhaseRecoveryRequired)"

fun backend_code :: "backend \<Rightarrow> char" where
  "backend_code BackendExternal = CHR ''e''" | "backend_code BackendLocalOpenCodex = CHR ''l''"
| "backend_code BackendLocalAppleContainer = CHR ''c''" | "backend_code BackendNone = CHR ''n''"
| "backend_code _ = CHR ''u''"

definition backend_decode :: "char \<Rightarrow> backend" where
  "backend_decode c =
     (if c = CHR ''e'' then BackendExternal else if c = CHR ''l'' then BackendLocalOpenCodex
      else if c = CHR ''c'' then BackendLocalAppleContainer else if c = CHR ''n'' then BackendNone else BackendUnknown)"

definition example_state :: "phase \<Rightarrow> backend \<Rightarrow> backend \<Rightarrow> 64 word \<Rightarrow> state" where
  "example_state ph d a g = \<lparr>Schema = 3, Generation = g, DesiredMode = modeForBackend d, AppliedMode = modeForBackend a,
     DesiredBackend = d, AppliedBackend = a, Phase = ph, KnownLegacy = False,
     BoundConfigPath = ''/r'', BoundCodexConfigPath = ''/c''\<rparr>"

definition example_encode :: "state \<Rightarrow> bytes" where
  "example_encode s = phase_code (Phase s) # backend_code (DesiredBackend s) # backend_code (AppliedBackend s) #
     replicate (unat (Generation s)) (CHR ''x'')"

fun example_decode :: "bytes \<Rightarrow> state json_decode" where
  "example_decode (p # d # a # xs) =
     DecodedThenEOF (example_state (phase_decode p) (backend_decode d) (backend_decode a) (of_nat (length xs)))"
| "example_decode _ = DecodeFails"

definition example_env :: routing_env where
  "example_env = \<lparr>re_wd = None, re_decode_state = example_decode, re_encode_state = example_encode,
     re_decode_journal = (\<lambda>_. DecodeFails), re_encode_journal = (\<lambda>_. []),
     re_decode_maintenance = (\<lambda>_. DecodeFails), re_encode_maintenance = (\<lambda>_. []),
     re_decode_runtime = (\<lambda>_. DecodeFails), re_encode_runtime = (\<lambda>_. []),
     re_tokens = (\<lambda>_. [TLit]), re_stream_end = (\<lambda>_. StreamEOF)\<rparr>"

definition example_store :: store where
  "example_store = \<lparr>st_configPath = ''/r'', st_statePath = ''/r.routing-state.json'',
     st_initializedPath = ''/r.routing-initialized'', st_lockPath = ''/r.routing.lock''\<rparr>"

definition example_disk :: "state \<Rightarrow> disk" where
  "example_disk s = \<lparr>dk_state = FileContents (example_encode s), dk_marker = FileContents initializedMarkerContents,
     dk_journal = FileAbsent, dk_maintenance = FileAbsent, dk_runtime = FileAbsent\<rparr>"

lemma example_store_open: "Open None ''/r'' = Inr example_store"
  by code_simp

lemma example_bound: "store_bound example_env example_store"
  by code_simp

lemma phase_decode_code: "(\<forall>x. p \<noteq> PhaseOther x) \<Longrightarrow> phase_decode (phase_code p) = p"
  by (cases p) (auto simp: phase_decode_def)

lemma backend_decode_code: "validRecoveryBackend b \<Longrightarrow> backend_decode (backend_code b) = b"
  by (cases b) (auto simp: backend_decode_def backend_defs)

lemma example_faithful:
  assumes "unat g < 1000" "\<forall>x. ph \<noteq> PhaseOther x" "validRecoveryBackend de" "validRecoveryBackend ap"
  shows "state_faithful example_env (example_state ph de ap g)"
  using assms
  by (simp add: state_faithful_def example_env_def example_encode_def maxStateBytes_def)
    (simp add: example_state_def phase_decode_code backend_decode_code)

lemma example_valid:
  assumes "phase_backends ph de ap" "g \<noteq> 0"
  shows "valid_state (re_wd example_env) (st_configPath example_store) (example_state ph de ap g)"
proof -
  have "canonicalCodexConfigPath None ''/c'' = Inr ''/c''" by code_simp
  with assms show ?thesis
    by (simp add: valid_state_table example_state_def example_env_def example_store_def schema_defs)
qed

lemma phase_backends_recovery: "phase_backends ph d a \<Longrightarrow>
    (\<forall>x. ph \<noteq> PhaseOther x) \<and> validRecoveryBackend d \<and> validRecoveryBackend a"
  by (cases ph) (auto simp: backend_defs)

lemma example_read:
  assumes "phase_backends ph de ap" "g \<noteq> 0" "unat g < 1000"
  shows "Read example_env example_store (example_disk (example_state ph de ap g)) = Inr (example_state ph de ap g, False)"
proof (rule Read_written [OF example_valid [OF assms(1,2)]])
  show "state_faithful example_env (example_state ph de ap g)"
    using assms(3) phase_backends_recovery [OF assms(1)] by (intro example_faithful) auto
  show "readStateFile (dk_state (example_disk (example_state ph de ap g))) =
      Inr (Some (re_encode_state example_env (example_state ph de ap g)))"
    using assms(3) by (simp add: example_disk_def example_env_def example_encode_def example_state_def maxStateBytes_def)
qed

lemma example_marker: "initializedMarkerPresent (dk_marker (example_disk s)) = Inr True"
  by (simp add: example_disk_def initializedMarkerPresent_def initializedMarkerContents_def maxStateBytes_def)

section \<open>Properties\<close>

text \<open>C20: \<open>Save\<close> is a checked, durable step. If it succeeds, the saved state is valid for this
  configuration, its generation is strictly above the one on disk, the phase change is one the state
  machine allows, and the next \<open>Read\<close> returns exactly that state. If it fails at any point, the
  routing state on disk is the one from before; the journals are never touched.\<close>

theorem Save_checked_durable_step:
  assumes "Save env st closed okMarker okState d next = (d', r)" "store_bound env st"
    and "state_faithful env (normalizeStateBackends next)"
  shows "dk_journal d' = dk_journal d \<and> dk_maintenance d' = dk_maintenance d \<and> dk_runtime d' = dk_runtime d \<and>
    (case r of
       Inl e \<Rightarrow> dk_state d' = dk_state d
     | Inr _ \<Rightarrow> Read env st d' = Inr (normalizeStateBackends next, False) \<and>
         validateForBound (re_wd env) (normalizeStateBackends next) (st_configPath st) = Inr () \<and>
         (\<forall>previous. Read env st d = Inr (previous, False) \<longrightarrow>
           Generation previous < Generation next \<and> validateTransition previous (normalizeStateBackends next) = Inr ()))"
proof (cases r)
  case (Inl e)
  then show ?thesis using Save_cases [OF assms(1,2)] by simp
next
  case (Inr u)
  have g: "Generation (normalizeStateBackends next) = Generation next" by (simp add: normalizeStateBackends_def Let_def)
  have n: "valid_state (re_wd env) (st_configPath st) (normalizeStateBackends next)"
    "writeMarkerAndState env okMarker okState d (normalizeStateBackends next) = (d', Inr ())"
    using Save_cases [OF assms(1,2)] Inr by (auto simp: Let_def)
  show ?thesis
    using Save_cases [OF assms(1,2)] Inr writeMarkerAndState_read [OF n(2,1) assms(3)] n(1)
    by (auto simp: Let_def valid_state_def g)
qed

theorem Save_checked_durable_step_witness:
  "\<exists>d'. Save example_env example_store False True True (example_disk (example_state PhaseRelayActive BackendExternal BackendExternal 4))
       (example_state PhaseNativePendingRestart BackendNone BackendExternal 5) = (d', Inr ()) \<and>
     Read example_env example_store d' = Inr (example_state PhaseNativePendingRestart BackendNone BackendExternal 5, False)"
proof -
  let ?s = "example_state PhaseRelayActive BackendExternal BackendExternal 4"
  let ?n = "example_state PhaseNativePendingRestart BackendNone BackendExternal 5"
  have v: "valid_state (re_wd example_env) (st_configPath example_store) ?n"
    by (rule example_valid) (simp_all add: backend_defs)
  have "Read example_env example_store (example_disk ?s) = Inr (?s, False)"
    by (rule example_read) (simp_all add: backend_defs)
  then obtain d' where s: "Save example_env example_store False True True (example_disk ?s) ?n = (d', Inr ())"
    using Save_succeeds [OF example_bound v, of "example_disk ?s" ?s True] example_marker
    by (simp add: example_state_def validateTransition_def)
  have "state_faithful example_env ?n" by (rule example_faithful) (simp_all add: backend_defs)
  with Save_checked_durable_step [OF s example_bound] s valid_state_normalized [OF v] show ?thesis by simp
qed

text \<open>C21: routing never goes back. Along any sequence of \<open>Save\<close> calls, successful or not, the durable
  state stays readable, it is the old one or has a strictly larger generation, and once
  \<open>recovery_required\<close> is durable no \<open>Save\<close> leaves it: only an explicit \<open>Replace\<close> can.\<close>

theorem saved_states_only_advance:
  assumes "saved env st d d'" "store_bound env st" "Read env st d = Inr (s, False)"
  shows "\<exists>s'. Read env st d' = Inr (s', False) \<and> validateForBound (re_wd env) s' (st_configPath st) = Inr () \<and>
    (s' = s \<or> Generation s < Generation s') \<and>
    (Phase s = PhaseRecoveryRequired \<longrightarrow> Phase s' = PhaseRecoveryRequired \<and> \<not> AllowsDataPlane s')"
  using saved_advances [OF assms] Read_valid [of env st d'] by (auto simp: valid_state_def AllowsDataPlane_def)

theorem saved_states_only_advance_witness:
  "\<exists>d' s'. saved example_env example_store (example_disk (example_state PhaseRecoveryRequired BackendExternal BackendNone 4)) d' \<and>
     Read example_env example_store d' = Inr (s', False) \<and> Generation s' = 5 \<and> Phase s' = PhaseRecoveryRequired"
proof -
  let ?s = "example_state PhaseRecoveryRequired BackendExternal BackendNone 4"
  let ?n = "example_state PhaseRecoveryRequired BackendExternal BackendExternal 5"
  have v: "valid_state (re_wd example_env) (st_configPath example_store) ?n"
    by (rule example_valid) (simp_all add: backend_defs)
  have r: "Read example_env example_store (example_disk ?s) = Inr (?s, False)"
    by (rule example_read) (simp_all add: backend_defs)
  then obtain d' where s: "Save example_env example_store False True True (example_disk ?s) ?n = (d', Inr ())"
    using Save_succeeds [OF example_bound v, of "example_disk ?s" ?s True] example_marker
    by (simp add: example_state_def validateTransition_def)
  have f: "state_faithful example_env ?n" by (rule example_faithful) (simp_all add: backend_defs)
  then have sv: "saved example_env example_store (example_disk ?s) d'"
    by (intro saved.save [OF saved.none _ s]) (simp add: valid_state_normalized [OF v])
  have "Read example_env example_store d' = Inr (?n, False)"
    using Save_cases [OF s example_bound] writeMarkerAndState_read [OF _ v f] valid_state_normalized [OF v]
    by (auto simp: Let_def)
  with saved_states_only_advance [OF sv example_bound r] sv show ?thesis
    by (intro exI [of _ d'] exI [of _ ?n]) (simp add: example_state_def)
qed

end
