(* ===== verification/Routing_Watcher.thy ===== *)
theory Routing_Watcher
  imports Routing_Store
begin

text \<open>
  Package \<open>routing\<close>, file \<open>watcher.go\<close>: what the resident relay admits after reading the control
  files. The drift check, the recovery gate and the lifecycle gate are callbacks that the caller may
  leave out; their answers are arguments (\<open>True\<close> is a nil error).
\<close>

record watch_snapshot =
  ws_State :: state
  ws_Legacy :: bool
  ws_Invalid :: bool

definition snapshot_AllowsDataPlane :: "watch_snapshot \<Rightarrow> bool" where
  "snapshot_AllowsDataPlane w \<longleftrightarrow> \<not> ws_Invalid w \<and> AllowsDataPlane (ws_State w)"

definition snapshot_AllowsCatalog :: "watch_snapshot \<Rightarrow> bool" where
  "snapshot_AllowsCatalog w \<longleftrightarrow> \<not> ws_Invalid w \<and> AllowsCatalog (ws_State w)"

record gates =
  g_driftCheck :: "(state \<Rightarrow> bool) option"
  g_recoveryGate :: "bool option"
  g_stateRecoveryGate :: "(state \<Rightarrow> bool) option"

text \<open>The zero value of \<open>State\<close>.\<close>

definition zero_state :: state where
  "zero_state = \<lparr>Schema = 0, Generation = 0, DesiredMode = ModeOther [], AppliedMode = ModeOther [],
     DesiredBackend = BackendOther [], AppliedBackend = BackendOther [], Phase = PhaseOther [],
     KnownLegacy = False, BoundConfigPath = [], BoundCodexConfigPath = []\<rparr>"

definition parked_snapshot :: "routing_env \<Rightarrow> store \<Rightarrow> state \<Rightarrow> watch_snapshot" where
  "parked_snapshot env st s =
     \<lparr>ws_State = (case NewRecoveryState (re_wd env) (st_configPath st) of Inl _ \<Rightarrow> s | Inr r \<Rightarrow> r),
      ws_Legacy = False, ws_Invalid = True\<rparr>"

definition found :: "('e, 'a option) result \<Rightarrow> bool" where
  "found r \<longleftrightarrow> (case r of Inl _ \<Rightarrow> False | Inr x \<Rightarrow> x \<noteq> None)"

text \<open>The checks of \<open>Refresh\<close> on the three witnesses, and those of the callbacks. The code skips a
  callback when an error is already known; the callbacks are functions here, so the disjunction is
  the same.\<close>

definition witness_error :: "routing_env \<Rightarrow> store \<Rightarrow> disk \<Rightarrow> state \<Rightarrow> bool \<Rightarrow> bool" where
  "witness_error env st d s legacy =
     (let pendingR = HasPendingTransaction env st d;
          pending = (pendingR = Inr True);
          maintenanceR = loadMaintenance env st d
      in (isl pendingR \<or> (pending \<and> (legacy \<or> Phase s \<noteq> PhaseApplying))) \<or>
         (case maintenanceR of
            Inl _ \<Rightarrow> True
          | Inr None \<Rightarrow> False
          | Inr (Some m) \<Rightarrow> legacy \<or> Phase s \<noteq> PhaseApplying \<or> \<not> maintenance_matchesState m s) \<or>
         (pending \<and> found maintenanceR) \<or>
         (case loadRuntimeRouting env st (BoundCodexConfigPath s) d of
            Inl _ \<Rightarrow> True
          | Inr None \<Rightarrow> False
          | Inr (Some r) \<Rightarrow>
              (case loadJournal env d of
                 Inl _ \<Rightarrow> True
               | Inr transaction \<Rightarrow> found maintenanceR \<or> \<not> runtime_matchesState (re_wd env) r s transaction)))"

definition gate_error :: "routing_env \<Rightarrow> store \<Rightarrow> gates \<Rightarrow> disk \<Rightarrow> state \<Rightarrow> bool \<Rightarrow> bool" where
  "gate_error env st g d s legacy \<longleftrightarrow>
     (\<not> legacy \<and> HasPendingTransaction env st d \<noteq> Inr True \<and> \<not> found (loadMaintenance env st d) \<and>
      \<not> found (loadRuntimeRouting env st (BoundCodexConfigPath s) d) \<and>
      stableStateForBackend s BackendLocalAppleContainer \<and>
      (case g_stateRecoveryGate g of None \<Rightarrow> True | Some gate \<Rightarrow> \<not> gate s)) \<or>
     (\<not> legacy \<and> Phase s \<noteq> PhaseApplying \<and> Phase s \<noteq> PhaseRecoveryRequired \<and>
      (case g_driftCheck g of None \<Rightarrow> False | Some check \<Rightarrow> \<not> check s)) \<or>
     (case g_recoveryGate g of None \<Rightarrow> False | Some ok \<Rightarrow> \<not> ok)"

definition Refresh :: "routing_env \<Rightarrow> store \<Rightarrow> gates \<Rightarrow> disk \<Rightarrow> watch_snapshot" where
  "Refresh env st g d =
     (case Read env st d of
        Inl _ \<Rightarrow> parked_snapshot env st zero_state
      | Inr (s, legacy) \<Rightarrow>
          if witness_error env st d s legacy \<or> gate_error env st g d s legacy then parked_snapshot env st s
          else \<lparr>ws_State = s, ws_Legacy = legacy, ws_Invalid = False\<rparr>)"

section \<open>Admission\<close>

lemma parked_denies [simp]:
  "\<not> snapshot_AllowsDataPlane (parked_snapshot env st s)" "\<not> snapshot_AllowsCatalog (parked_snapshot env st s)"
  by (simp_all add: parked_snapshot_def snapshot_AllowsDataPlane_def snapshot_AllowsCatalog_def)

lemma not_applying: "AllowsDataPlane s \<Longrightarrow> Phase s \<noteq> PhaseApplying \<and> Phase s \<noteq> PhaseRecoveryRequired"
  by (auto simp: AllowsDataPlane_def)

lemma transaction_reads: "HasPendingTransaction env st d = Inr False \<Longrightarrow> dk_journal d = FileAbsent \<and> loadJournal env d = Inr None"
  by (auto simp: HasPendingTransaction_def ValidateTransaction_def loadJournal_def Let_def
      split: control_file.splits sum.splits option.splits if_splits json_decode.splits)

lemma no_maintenance: "loadMaintenance env st d = Inr None \<Longrightarrow> dk_maintenance d = FileAbsent"
  by (cases "dk_maintenance d")
    (auto simp: loadMaintenance_def split: sum.splits if_splits json_decode.splits)

lemma witnesses_clear:
  assumes "\<not> witness_error env st d s legacy" "Phase s \<noteq> PhaseApplying"
  shows "HasPendingTransaction env st d = Inr False" "loadMaintenance env st d = Inr None"
    "loadRuntimeRouting env st (BoundCodexConfigPath s) d = Inr None \<or>
      (\<exists>r. loadRuntimeRouting env st (BoundCodexConfigPath s) d = Inr (Some r) \<and> runtime_matchesState (re_wd env) r s None)"
proof -
  show p: "HasPendingTransaction env st d = Inr False"
  proof (cases "HasPendingTransaction env st d")
    case (Inr b)
    then show ?thesis using assms by (cases b) (auto simp: witness_error_def Let_def)
  qed (use assms in \<open>auto simp: witness_error_def Let_def\<close>)
  show m: "loadMaintenance env st d = Inr None"
    using assms by (auto simp: witness_error_def Let_def split: sum.splits option.splits)
  show "loadRuntimeRouting env st (BoundCodexConfigPath s) d = Inr None \<or>
      (\<exists>r. loadRuntimeRouting env st (BoundCodexConfigPath s) d = Inr (Some r) \<and> runtime_matchesState (re_wd env) r s None)"
    using assms(1) transaction_reads [OF p]
    by (auto simp: witness_error_def Let_def split: sum.splits option.splits)
qed

lemma Refresh_admits:
  assumes "snapshot_AllowsDataPlane (Refresh env st g d)"
  obtains s legacy where "Refresh env st g d = \<lparr>ws_State = s, ws_Legacy = legacy, ws_Invalid = False\<rparr>"
    "Read env st d = Inr (s, legacy)" "AllowsDataPlane s"
    "\<not> witness_error env st d s legacy" "\<not> gate_error env st g d s legacy"
proof (cases "Read env st d")
  case (Inl e)
  with assms show ?thesis by (simp add: Refresh_def)
next
  case (Inr p)
  obtain s legacy where p: "p = (s, legacy)" by (cases p)
  with assms Inr that [of s legacy] show ?thesis
    by (cases "witness_error env st d s legacy \<or> gate_error env st g d s legacy")
      (auto simp: Refresh_def snapshot_AllowsDataPlane_def [of "\<lparr>ws_State = s, ws_Legacy = legacy, ws_Invalid = False\<rparr>"])
qed

text \<open>A journal beside the state parks the relay, whatever is in it.\<close>

lemma journal_parks:
  assumes "dk_journal d \<noteq> FileAbsent \<or> dk_maintenance d \<noteq> FileAbsent"
  shows "\<not> snapshot_AllowsDataPlane (Refresh env st g d)"
proof
  assume "snapshot_AllowsDataPlane (Refresh env st g d)"
  then obtain s legacy where s: "AllowsDataPlane s" "\<not> witness_error env st d s legacy"
    by (rule Refresh_admits)
  have "Phase s \<noteq> PhaseApplying" using not_applying [OF s(1)] by simp
  from witnesses_clear [OF s(2) this] assms show False
    using transaction_reads no_maintenance by metis
qed

text \<open>So does a durable state that does not admit traffic.\<close>

lemma state_parks: "Read env st d = Inr (s, legacy) \<Longrightarrow> \<not> AllowsDataPlane s \<Longrightarrow> \<not> snapshot_AllowsDataPlane (Refresh env st g d)"
  by (erule contrapos_nn, erule Refresh_admits) simp

section \<open>Properties\<close>

text \<open>C22: admission fails closed. The watcher admits data-plane traffic only if the routing state was
  read and is valid (or no controller ever took ownership), a relay backend is the applied one, there
  is no transaction journal and no maintenance journal on disk, a container-runtime witness, if any,
  matches the state exactly, every configured gate and drift check passes, and a stable Apple
  Container route has its lifecycle authority. Any refused, unreadable or malformed control file
  therefore parks the relay.\<close>

theorem Refresh_fails_closed:
  assumes "snapshot_AllowsDataPlane (Refresh env st g d)"
  shows "\<exists>s legacy. Read env st d = Inr (s, legacy) \<and> ws_State (Refresh env st g d) = s \<and>
    dk_journal d = FileAbsent \<and> dk_maintenance d = FileAbsent \<and> dk_state d \<noteq> FileRefused \<and>
    validRelayBackend (AppliedBackend s) \<and>
    (\<not> legacy \<longrightarrow> validateForBound (re_wd env) s (st_configPath st) = Inr ()) \<and>
    (legacy \<longrightarrow> initializedMarkerPresent (dk_marker d) = Inr False) \<and>
    (loadRuntimeRouting env st (BoundCodexConfigPath s) d = Inr None \<or>
      (\<exists>r. loadRuntimeRouting env st (BoundCodexConfigPath s) d = Inr (Some r) \<and> runtime_matchesState (re_wd env) r s None)) \<and>
    (\<not> legacy \<longrightarrow> loadRuntimeRouting env st (BoundCodexConfigPath s) d = Inr None \<longrightarrow>
      stableStateForBackend s BackendLocalAppleContainer \<longrightarrow> (\<exists>gate. g_stateRecoveryGate g = Some gate \<and> gate s)) \<and>
    (\<forall>check. \<not> legacy \<longrightarrow> g_driftCheck g = Some check \<longrightarrow> check s) \<and> g_recoveryGate g \<noteq> Some False"
proof -
  obtain s legacy where r: "Refresh env st g d = \<lparr>ws_State = s, ws_Legacy = legacy, ws_Invalid = False\<rparr>"
    "Read env st d = Inr (s, legacy)" "AllowsDataPlane s"
    "\<not> witness_error env st d s legacy" "\<not> gate_error env st g d s legacy"
    using Refresh_admits [OF assms] by metis
  note ph = not_applying [OF r(3)]
  have w: "HasPendingTransaction env st d = Inr False" "loadMaintenance env st d = Inr None"
    "loadRuntimeRouting env st (BoundCodexConfigPath s) d = Inr None \<or>
      (\<exists>r. loadRuntimeRouting env st (BoundCodexConfigPath s) d = Inr (Some r) \<and> runtime_matchesState (re_wd env) r s None)"
    using witnesses_clear [OF r(4)] ph by auto
  have relay: "validRelayBackend (AppliedBackend s) \<and> (\<not> legacy \<longrightarrow> validateForBound (re_wd env) s (st_configPath st) = Inr ()) \<and>
      (legacy \<longrightarrow> initializedMarkerPresent (dk_marker d) = Inr False)"
  proof (cases legacy)
    case True
    with r(2) have "NewRelayState (re_wd env) (st_configPath st) = Inr s \<and> initializedMarkerPresent (dk_marker d) = Inr False"
      by (auto simp: Read_def split: sum.splits option.splits bool.splits)
    with True show ?thesis by (auto simp: NewRelayState_def validRelayBackend_def split: sum.splits)
  next
    case False
    with Read_valid r(2) have "valid_state (re_wd env) (st_configPath st) s" by simp
    with admission_needs_relay [OF this r(3)] False show ?thesis by (simp add: valid_state_def)
  qed
  have gate: "\<exists>gate. g_stateRecoveryGate g = Some gate \<and> gate s"
    if "\<not> legacy" "loadRuntimeRouting env st (BoundCodexConfigPath s) d = Inr None" "stableStateForBackend s BackendLocalAppleContainer"
    using that r(5) w(1,2) by (auto simp: gate_error_def found_def split: option.splits)
  have "\<forall>check. \<not> legacy \<longrightarrow> g_driftCheck g = Some check \<longrightarrow> check s" "g_recoveryGate g \<noteq> Some False"
    using r(5) ph by (auto simp: gate_error_def)
  then show ?thesis
    using r(1,2) w relay gate transaction_reads [OF w(1)] no_maintenance [OF w(2)] writable_state [OF r(2)] by auto
qed

definition open_gates :: gates where
  "open_gates = \<lparr>g_driftCheck = Some (\<lambda>s. BoundCodexConfigPath s = ''/c''), g_recoveryGate = Some True, g_stateRecoveryGate = None\<rparr>"

theorem Refresh_fails_closed_witness:
  "\<exists>s. Read example_env example_store (example_disk (example_state PhaseNativePendingRestart BackendNone BackendExternal 4)) = Inr (s, False) \<and>
     ws_State (Refresh example_env example_store open_gates
       (example_disk (example_state PhaseNativePendingRestart BackendNone BackendExternal 4))) = s \<and>
     validRelayBackend (AppliedBackend s) \<and> validateForBound (re_wd example_env) s (st_configPath example_store) = Inr ()"
proof -
  let ?s = "example_state PhaseNativePendingRestart BackendNone BackendExternal 4"
  have r: "Read example_env example_store (example_disk ?s) = Inr (?s, False)"
    by (rule example_read) (simp_all add: backend_defs)
  have "dk_journal (example_disk ?s) = FileAbsent" "dk_maintenance (example_disk ?s) = FileAbsent"
    "dk_runtime (example_disk ?s) = FileAbsent" by (simp_all add: example_disk_def)
  then have "\<not> witness_error example_env example_store (example_disk ?s) ?s False"
    "\<not> gate_error example_env example_store open_gates (example_disk ?s) ?s False"
    by (simp_all add: witness_error_def gate_error_def HasPendingTransaction_def loadMaintenance_def
        loadRuntimeRouting_def open_gates_def stableStateForBackend_def) (simp add: example_state_def)
  then have "Refresh example_env example_store open_gates (example_disk ?s) = \<lparr>ws_State = ?s, ws_Legacy = False, ws_Invalid = False\<rparr>"
    by (simp add: Refresh_def r)
  then have "snapshot_AllowsDataPlane (Refresh example_env example_store open_gates (example_disk ?s))"
    by (simp add: snapshot_AllowsDataPlane_def AllowsDataPlane_def example_state_def)
  from Refresh_fails_closed [OF this] r show ?thesis by auto
qed

end
