(* ===== verification/Routing_Maintenance.thy ===== *)
theory Routing_Maintenance
  imports Routing_Watcher
begin

text \<open>
  Package \<open>routing\<close>, files \<open>maintenance.go\<close> and the message part of \<open>control.go\<close>: the coordinator that
  parks routing while the lifecycle manager replaces the live Apple Container image.

  A call is one function that returns the disks after each of its durable writes, in order, with
  its result, so that a crash between two writes is one of the disks. The outcomes of the lock, of
  every write and of the resident runtime's \<open>Prepare\<close> and \<open>Verify\<close> are the fields of \<open>maintenance_io\<close>.
\<close>

datatype maintenance_error =
    ErrMaintenanceConflict | ErrMaintenanceRecoveryRequired | ErrMaintenanceWitness
  | ErrControlUnavailable | ErrControlRequest | StoreError routing_error

record maintenance_io =
  io_lock :: bool
  io_journal :: bool
  io_marker :: bool
  io_applying :: bool
  io_final :: bool
  io_remove :: bool
  io_runtimePrepare :: bool
  io_runtimeVerify :: bool

record maintenance_status =
  ms_Schema :: int
  ms_RoutingGeneration :: "64 word"
  ms_Backend :: backend
  ms_Phase :: phase
  ms_Pending :: bool

definition MaintenanceStatus_valid :: "maintenance_status \<Rightarrow> bool" where
  "MaintenanceStatus_valid s =
     (if ms_Schema s \<noteq> maintenanceSchemaVersion \<or> ms_RoutingGeneration s = 0 \<or> \<not> validBackend (ms_Backend s) then False
      else if \<not> (case ms_Phase s of
             PhaseRelayActive \<Rightarrow> validRelayBackend (ms_Backend s)
           | PhaseNativePendingRestart \<Rightarrow> validRelayBackend (ms_Backend s)
           | PhaseBackendPendingRestart \<Rightarrow> validRelayBackend (ms_Backend s)
           | PhaseRelayPendingRestart \<Rightarrow> ms_Backend s = BackendNone
           | PhaseNativeActive \<Rightarrow> ms_Backend s = BackendNone
           | PhaseApplying \<Rightarrow> True
           | PhaseRecoveryRequired \<Rightarrow> True
           | PhaseOther _ \<Rightarrow> False) then False
      else \<not> (ms_Pending s \<and> (ms_Backend s \<noteq> BackendLocalAppleContainer \<or>
             (ms_Phase s \<noteq> PhaseRelayActive \<and> ms_Phase s \<noteq> PhaseApplying))))"

definition stableAppleState :: "state \<Rightarrow> bool" where
  "stableAppleState s \<longleftrightarrow>
     Phase s = PhaseRelayActive \<and> DesiredMode s = ModeRelay \<and> AppliedMode s = ModeRelay \<and>
     DesiredBackend s = BackendLocalAppleContainer \<and> AppliedBackend s = BackendLocalAppleContainer"

definition MaintenanceRecoveryState ::
  "routing_env \<Rightarrow> store \<Rightarrow> disk \<Rightarrow> (maintenance_error, state option) result" where
  "MaintenanceRecoveryState env st d =
     (case Read env st d of
        Inr (s, False) \<Rightarrow>
          if loadRuntimeRouting env st (BoundCodexConfigPath s) d \<noteq> Inr None then Inl ErrMaintenanceRecoveryRequired
          else (case loadMaintenance env st d of
                  Inl _ \<Rightarrow> Inl ErrMaintenanceRecoveryRequired
                | Inr None \<Rightarrow> Inr None
                | Inr (Some j) \<Rightarrow>
                    if HasPendingTransaction env st d \<noteq> Inr False \<or> \<not> maintenance_matchesState j s
                    then Inl ErrMaintenanceRecoveryRequired else Inr (Some s))
      | _ \<Rightarrow> Inl ErrMaintenanceRecoveryRequired)"

definition Status :: "routing_env \<Rightarrow> store \<Rightarrow> bool \<Rightarrow> disk \<Rightarrow> (maintenance_error, maintenance_status) result" where
  "Status env st lockOK d =
     (if \<not> lockOK then Inl ErrControlUnavailable
      else (case Read env st d of
        Inr (s, False) \<Rightarrow>
          if ValidateFor (re_wd env) s (st_configPath st) \<noteq> Inr () then Inl ErrMaintenanceRecoveryRequired
          else if isl (loadRuntimeRouting env st (BoundCodexConfigPath s) d) then Inl ErrMaintenanceRecoveryRequired
          else (case loadMaintenance env st d of
                  Inl _ \<Rightarrow> Inl ErrMaintenanceRecoveryRequired
                | Inr j \<Rightarrow>
                    if (case j of None \<Rightarrow> False | Some m \<Rightarrow> \<not> maintenance_matchesState m s) then Inl ErrMaintenanceRecoveryRequired
                    else Inr \<lparr>ms_Schema = maintenanceSchemaVersion, ms_RoutingGeneration = Generation s,
                      ms_Backend = AppliedBackend s, ms_Phase = Phase s, ms_Pending = (j \<noteq> None)\<rparr>)
      | _ \<Rightarrow> Inl ErrMaintenanceRecoveryRequired))"

section \<open>Prepare\<close>

definition applying_of :: "maintenance_witness \<Rightarrow> state \<Rightarrow> state" where
  "applying_of w s = s\<lparr>Generation := mw_PreparedRoutingGeneration w, Phase := PhaseApplying\<rparr>"

definition final_of :: "maintenance_witness \<Rightarrow> state \<Rightarrow> state" where
  "final_of w s = s\<lparr>Generation := mw_FinalRoutingGeneration w, Phase := PhaseRelayActive\<rparr>"

definition park_runtime ::
  "maintenance_io \<Rightarrow> disk list \<Rightarrow> maintenance_witness \<Rightarrow> disk list \<times> (maintenance_error, maintenance_witness) result" where
  "park_runtime io tr w = (tr, if io_runtimePrepare io then Inr w else Inl ErrMaintenanceRecoveryRequired)"

definition Prepare ::
  "routing_env \<Rightarrow> store \<Rightarrow> maintenance_io \<Rightarrow> disk \<Rightarrow> 64 word \<Rightarrow> runtime_intent \<Rightarrow>
   disk list \<times> (maintenance_error, maintenance_witness) result" where
  "Prepare env st io d generation intent =
     (if generation = 0 \<or> \<not> MaintenanceIntent_valid intent then ([], Inl ErrMaintenanceWitness)
      else if \<not> io_lock io then ([], Inl ErrControlUnavailable)
      else if HasPendingTransaction env st d \<noteq> Inr False then ([], Inl ErrMaintenanceConflict)
      else (case loadMaintenance env st d of
        Inl _ \<Rightarrow> ([], Inl ErrMaintenanceRecoveryRequired)
      | Inr existing \<Rightarrow>
          (case Read env st d of
             Inr (s, False) \<Rightarrow>
               if loadRuntimeRouting env st (BoundCodexConfigPath s) d \<noteq> Inr None then ([], Inl ErrMaintenanceConflict)
               else (case existing of
                 Some m \<Rightarrow>
                   let w = mj_Witness m in
                   if mw_OriginRoutingGeneration w \<noteq> generation \<or> mw_Intent w \<noteq> intent \<or> \<not> maintenance_matchesState m s
                   then ([], Inl ErrMaintenanceConflict)
                   else if Generation s = mw_OriginRoutingGeneration w then
                     (case Save env st False (io_marker io) (io_applying io) d (applying_of w s) of
                        (d1, Inl _) \<Rightarrow> ([d1], Inl ErrMaintenanceRecoveryRequired)
                      | (d1, Inr _) \<Rightarrow> park_runtime io [d1] w)
                   else park_runtime io [] w
               | None \<Rightarrow>
                   if \<not> stableAppleState s \<or> Generation s \<noteq> generation then ([], Inl ErrMaintenanceConflict)
                   else (case newMaintenanceWitness generation intent of
                     None \<Rightarrow> ([], Inl ErrMaintenanceWitness)
                   | Some w \<Rightarrow>
                       (case writeMaintenance env st (io_journal io) d
                           \<lparr>mj_Schema = maintenanceSchemaVersion, mj_BoundConfigPath = st_configPath st, mj_Witness = w\<rparr> of
                          (d1, Inl e) \<Rightarrow> ([d1], Inl (StoreError e))
                        | (d1, Inr _) \<Rightarrow>
                            (case Save env st False (io_marker io) (io_applying io) d1 (applying_of w s) of
                               (d2, Inl _) \<Rightarrow> ([d1, d2], Inl ErrMaintenanceRecoveryRequired)
                             | (d2, Inr _) \<Rightarrow> park_runtime io [d1, d2] w))))
           | _ \<Rightarrow> ([], Inl ErrMaintenanceRecoveryRequired))))"

section \<open>Commit and Rollback\<close>

datatype control_operation =
    OpApply | OpMaintenanceStatus | OpMaintenancePrepare | OpMaintenanceCommit | OpMaintenanceRollback
  | OpOther string

text \<open>The second half of \<open>finish\<close>, from the durable applying or final state \<open>s\<close> on.\<close>

definition finish_verified ::
  "routing_env \<Rightarrow> store \<Rightarrow> maintenance_io \<Rightarrow> disk list \<Rightarrow> disk \<Rightarrow> state \<Rightarrow> maintenance_witness \<Rightarrow>
   disk list \<times> (maintenance_error, unit) result" where
  "finish_verified env st io tr d s w =
     (if \<not> io_runtimePrepare io \<or> \<not> io_runtimeVerify io then (tr, Inl ErrMaintenanceRecoveryRequired)
      else let (d1, r1) = (if Generation s = mw_PreparedRoutingGeneration w
                           then Save env st False (io_marker io) (io_final io) d (final_of w s) else (d, Inr ()))
           in case r1 of
                Inl _ \<Rightarrow> (tr @ [d1], Inl ErrMaintenanceRecoveryRequired)
              | Inr _ \<Rightarrow>
                  (case removeMaintenance (io_remove io) d1 of
                     (d2, Inl _) \<Rightarrow> (tr @ [d1, d2], Inl ErrMaintenanceRecoveryRequired)
                   | (d2, Inr _) \<Rightarrow> (tr @ [d1, d2], Inr ())))"

definition finish_maintenance ::
  "routing_env \<Rightarrow> store \<Rightarrow> maintenance_io \<Rightarrow> disk \<Rightarrow> control_operation \<Rightarrow> maintenance_witness \<Rightarrow>
   disk list \<times> (maintenance_error, unit) result" where
  "finish_maintenance env st io d operation w =
     (if \<not> MaintenanceWitness_valid w \<or> (operation \<noteq> OpMaintenanceCommit \<and> operation \<noteq> OpMaintenanceRollback)
      then ([], Inl ErrMaintenanceWitness)
      else if \<not> io_lock io then ([], Inl ErrControlUnavailable)
      else (case loadMaintenance env st d of
        Inr (Some j) \<Rightarrow>
          if mj_Witness j \<noteq> w then ([], Inl ErrMaintenanceWitness)
          else (case Read env st d of
                  Inr (s, False) \<Rightarrow>
                    if \<not> maintenance_matchesState j s then ([], Inl ErrMaintenanceRecoveryRequired)
                    else if Generation s = mw_OriginRoutingGeneration w then
                      (case Save env st False (io_marker io) (io_applying io) d (applying_of w s) of
                         (d1, Inl _) \<Rightarrow> ([d1], Inl ErrMaintenanceRecoveryRequired)
                       | (d1, Inr _) \<Rightarrow> finish_verified env st io [d1] d1 (applying_of w s) w)
                    else finish_verified env st io [] d s w
                | _ \<Rightarrow> ([], Inl ErrMaintenanceRecoveryRequired))
      | _ \<Rightarrow> ([], Inl ErrMaintenanceRecoveryRequired)))"

section \<open>Crash safety\<close>

lemma parks_during_maintenance:
  "dk_maintenance d \<noteq> FileAbsent \<Longrightarrow> \<not> snapshot_AllowsDataPlane (Refresh env st g d)"
  by (rule journal_parks) simp

lemma loaded_maintenance_present: "loadMaintenance env st d = Inr (Some m) \<Longrightarrow> dk_maintenance d \<noteq> FileAbsent"
  by (auto simp: loadMaintenance_def)

lemma written_maintenance_present: "writeMaintenance env st ok d j = (d', Inr ()) \<Longrightarrow>
    dk_maintenance d' \<noteq> FileAbsent \<and> dk_state d' = dk_state d \<and> dk_marker d' = dk_marker d"
  by (auto simp: writeMaintenance_def dest!: control_write_cases split: sum.splits)

lemma loadMaintenance_same: "dk_maintenance d' = dk_maintenance d \<Longrightarrow> loadMaintenance env st d' = loadMaintenance env st d"
  by (simp add: loadMaintenance_def)

lemma Prepare_cases:
  assumes "Prepare env st io d generation intent = (tr, r)"
  obtains (refused) "tr = []" "isl r"
  | (resumed) m s where "tr = []" "loadMaintenance env st d = Inr (Some m)" "Read env st d = Inr (s, False)"
      "mw_OriginRoutingGeneration (mj_Witness m) = generation" "mw_Intent (mj_Witness m) = intent" "maintenance_matchesState m s"
      "Generation s \<noteq> mw_OriginRoutingGeneration (mj_Witness m)" "r = snd (park_runtime io [] (mj_Witness m))"
  | (parked) m s d1 r1 where "tr = [d1]" "loadMaintenance env st d = Inr (Some m)" "Read env st d = Inr (s, False)"
      "mw_OriginRoutingGeneration (mj_Witness m) = generation" "mw_Intent (mj_Witness m) = intent" "maintenance_matchesState m s"
      "Generation s = mw_OriginRoutingGeneration (mj_Witness m)"
      "Save env st False (io_marker io) (io_applying io) d (applying_of (mj_Witness m) s) = (d1, r1)"
      "r = (if isl r1 then Inl ErrMaintenanceRecoveryRequired else snd (park_runtime io [] (mj_Witness m)))"
  | (unrecorded) d1 e w where "tr = [d1]" "isl r"
      "writeMaintenance env st (io_journal io) d
         \<lparr>mj_Schema = maintenanceSchemaVersion, mj_BoundConfigPath = st_configPath st, mj_Witness = w\<rparr> = (d1, Inl e)"
  | (recorded) s w d1 d2 r2 where "tr = [d1, d2]" "Read env st d = Inr (s, False)" "stableAppleState s" "Generation s = generation"
      "newMaintenanceWitness generation intent = Some w"
      "writeMaintenance env st (io_journal io) d
         \<lparr>mj_Schema = maintenanceSchemaVersion, mj_BoundConfigPath = st_configPath st, mj_Witness = w\<rparr> = (d1, Inr ())"
      "Save env st False (io_marker io) (io_applying io) d1 (applying_of w s) = (d2, r2)"
      "r = (if isl r2 then Inl ErrMaintenanceRecoveryRequired else snd (park_runtime io [] w))"
proof (cases "generation = 0 \<or> \<not> MaintenanceIntent_valid intent \<or> \<not> io_lock io \<or> HasPendingTransaction env st d \<noteq> Inr False \<or>
    isl (loadMaintenance env st d) \<or> (\<nexists>s. Read env st d = Inr (s, False))")
  case True
  then have "tr = [] \<and> isl r"
    using assms by (cases "Read env st d") (auto simp: Prepare_def split: if_splits sum.splits bool.splits)
  then show ?thesis using refused by blast
next
  case False
  then obtain s existing where s: "Read env st d = Inr (s, False)" "loadMaintenance env st d = Inr existing"
    by (cases "loadMaintenance env st d") auto
  note p = assms [unfolded Prepare_def s]
  show ?thesis
  proof (cases "loadRuntimeRouting env st (BoundCodexConfigPath s) d = Inr None")
    case False
    then have "tr = [] \<and> isl r" using p by (auto split: if_splits)
    then show ?thesis using refused by blast
  next
    case rt: True
    show ?thesis
    proof (cases existing)
      case (Some m)
      let ?w = "mj_Witness m"
      consider "mw_OriginRoutingGeneration ?w \<noteq> generation \<or> mw_Intent ?w \<noteq> intent \<or> \<not> maintenance_matchesState m s"
        | "mw_OriginRoutingGeneration ?w = generation" "mw_Intent ?w = intent" "maintenance_matchesState m s" by blast
      then show ?thesis
      proof cases
        case 1
        then have "tr = [] \<and> isl r" using p False rt Some by auto
        then show ?thesis using refused by blast
      next
        case 2
        then show ?thesis using p False rt Some s resumed [of m s] parked [of _ m s]
          by (cases "Save env st False (io_marker io) (io_applying io) d (applying_of ?w s)")
            (auto simp: park_runtime_def Let_def split: if_splits sum.splits)
      qed
    next
      case None
      show ?thesis
      proof (cases "\<not> stableAppleState s \<or> Generation s \<noteq> generation \<or> newMaintenanceWitness generation intent = None")
        case True
        then have "tr = [] \<and> isl r" using p False rt None by (auto split: if_splits)
        then show ?thesis using refused by blast
      next
        case ok: False
        then obtain w where w: "newMaintenanceWitness generation intent = Some w" by auto
        let ?j = "\<lparr>mj_Schema = maintenanceSchemaVersion, mj_BoundConfigPath = st_configPath st, mj_Witness = w\<rparr>"
        obtain d1 r1 where j: "writeMaintenance env st (io_journal io) d ?j = (d1, r1)"
          by (cases "writeMaintenance env st (io_journal io) d ?j")
        obtain d2 r2 where sv: "Save env st False (io_marker io) (io_applying io) d1 (applying_of w s) = (d2, r2)"
          by (cases "Save env st False (io_marker io) (io_applying io) d1 (applying_of w s)")
        show ?thesis
        proof (cases r1)
          case (Inl e)
          then have "tr = [d1]" "isl r" using p False rt None ok w j by auto
          then show ?thesis using unrecorded j Inl by blast
        next
          case (Inr u)
          then have "tr = [d1, d2]"
            "r = (if isl r2 then Inl ErrMaintenanceRecoveryRequired else snd (park_runtime io [] w))"
            using p False rt None ok w j sv by (auto simp: park_runtime_def split: sum.splits)
          then show ?thesis using recorded s ok w j sv Inr by simp
        qed
      qed
    qed
  qed
qed

text \<open>Both writes of the routing state keep the journal.\<close>

lemma Save_keeps_maintenance: "Save env st c okM okS d n = (d', r) \<Longrightarrow> store_bound env st \<Longrightarrow> dk_maintenance d' = dk_maintenance d"
  using Save_cases by metis

lemma Save_reads:
  assumes "Save env st c okM okS d n = (d', Inr u)" "store_bound env st" "normalizeStateBackends n = n" "state_faithful env n"
  shows "Read env st d' = Inr (n, False)"
  using Save_cases [OF assms(1,2)] writeMarkerAndState_read [OF _ _ assms(4)] assms(3) by (auto simp: Let_def)

lemma apple_normalized:
  "maintenance_matchesState m s \<Longrightarrow> normalizeStateBackends (applying_of w s) = applying_of w s \<and> normalizeStateBackends (final_of w s) = final_of w s"
  "stableAppleState s \<Longrightarrow> normalizeStateBackends (applying_of w s) = applying_of w s"
  by (auto simp: maintenance_matchesState_def stableAppleState_def normalizeStateBackends_def applying_of_def final_of_def
      split: if_splits)

lemma witness_generations:
  assumes "MaintenanceWitness_valid w"
  shows "mw_OriginRoutingGeneration w < mw_PreparedRoutingGeneration w \<and> mw_PreparedRoutingGeneration w < mw_FinalRoutingGeneration w"
proof -
  have "mw_OriginRoutingGeneration w \<le> maxUint64 - 2" using assms by (simp add: MaintenanceWitness_valid_def not_less)
  from word_succ_bounds(2) [OF this] assms show ?thesis
    by (simp add: MaintenanceWitness_valid_def add.assoc)
qed

lemma new_witness_valid: "newMaintenanceWitness g i = Some w \<Longrightarrow>
    MaintenanceWitness_valid w \<and> mw_OriginRoutingGeneration w = g \<and> mw_Intent w = i"
  by (auto simp: newMaintenanceWitness_def MaintenanceWitness_valid_def add.assoc split: if_splits)

lemma applying_matches:
  assumes "MaintenanceWitness_valid (mj_Witness m)" "DesiredBackend s = BackendLocalAppleContainer"
    "AppliedBackend s = BackendLocalAppleContainer" "DesiredMode s = ModeRelay" "AppliedMode s = ModeRelay"
  shows "maintenance_matchesState m (applying_of (mj_Witness m) s)"
  using assms witness_generations [OF assms(1)] by (auto simp: maintenance_matchesState_def applying_of_def)

lemma matches_apple:
  "maintenance_matchesState m s \<Longrightarrow> MaintenanceWitness_valid (mj_Witness m) \<and> DesiredBackend s = BackendLocalAppleContainer \<and>
    AppliedBackend s = BackendLocalAppleContainer \<and> DesiredMode s = ModeRelay \<and> AppliedMode s = ModeRelay"
  by (auto simp: maintenance_matchesState_def split: if_splits)

lemma park_runtime_result: "snd (park_runtime io tr w) = Inr w' \<longleftrightarrow> io_runtimePrepare io \<and> w' = w"
  by (auto simp: park_runtime_def)

lemma removed_maintenance: "removeMaintenance ok d = (d', Inr ()) \<Longrightarrow>
    dk_maintenance d' = FileAbsent \<and> dk_state d' = dk_state d \<and> dk_marker d' = dk_marker d"
  by (auto simp: removeMaintenance_def dest!: control_remove_cases split: sum.splits)

lemma matches_generation:
  assumes "maintenance_matchesState m s"
  shows "Generation s = mw_OriginRoutingGeneration (mj_Witness m) \<or>
    Generation s = mw_PreparedRoutingGeneration (mj_Witness m) \<or>
    (Generation s = mw_FinalRoutingGeneration (mj_Witness m) \<and> stableAppleState s)"
  using assms witness_generations [of "mj_Witness m"] matches_apple [OF assms]
  by (auto simp: maintenance_matchesState_def stableAppleState_def split: if_splits)

definition parked_trace :: "routing_env \<Rightarrow> store \<Rightarrow> disk list \<Rightarrow> bool" where
  "parked_trace env st tr \<longleftrightarrow> (\<forall>d' \<in> set tr. dk_maintenance d' \<noteq> FileAbsent)"

lemma finish_verified_result:
  assumes call: "finish_verified env st io tr0 d s (mj_Witness m) = (tr, r)" and bound: "store_bound env st"
    and parked: "parked_trace env st tr0" "dk_maintenance d \<noteq> FileAbsent"
    and state: "Read env st d = Inr (s, False)" "maintenance_matchesState m s"
      "Generation s \<noteq> mw_OriginRoutingGeneration (mj_Witness m)"
    and json: "state_faithful env (final_of (mj_Witness m) s)"
  shows "case r of
      Inl e \<Rightarrow> parked_trace env st tr
    | Inr _ \<Rightarrow> parked_trace env st (butlast tr) \<and> tr \<noteq> [] \<and> dk_maintenance (last tr) = FileAbsent \<and>
        (\<exists>s'. Read env st (last tr) = Inr (s', False) \<and> stableAppleState s' \<and>
          Generation s' = mw_FinalRoutingGeneration (mj_Witness m))"
proof -
  let ?w = "mj_Witness m"
  obtain d1 r1 where sv: "(if Generation s = mw_PreparedRoutingGeneration ?w
      then Save env st False (io_marker io) (io_final io) d (final_of ?w s) else (d, Inr ())) = (d1, r1)"
    by (metis surj_pair)
  obtain d2 r2 where rm: "removeMaintenance (io_remove io) d1 = (d2, r2)" by (metis surj_pair)
  have d1: "dk_maintenance d1 \<noteq> FileAbsent"
    using sv parked(2) Save_keeps_maintenance [OF _ bound] by (auto split: if_splits)
  have s1: "\<exists>s'. Read env st d1 = Inr (s', False) \<and> stableAppleState s' \<and> Generation s' = mw_FinalRoutingGeneration ?w"
    if "r1 = Inr u" for u
  proof (cases "Generation s = mw_PreparedRoutingGeneration ?w")
    case True
    with sv that have "Read env st d1 = Inr (final_of ?w s, False)"
      using Save_reads [OF _ bound _ json] apple_normalized(1) [OF state(2)] by simp
    then show ?thesis using matches_apple [OF state(2)] by (auto simp: stableAppleState_def final_of_def)
  next
    case False
    then show ?thesis using sv state matches_generation [OF state(2)] by auto
  qed
  show ?thesis
  proof (cases "io_runtimePrepare io \<and> io_runtimeVerify io")
    case False
    then show ?thesis using call parked(1) by (auto simp: finish_verified_def)
  next
    case True
    then show ?thesis
      using call parked(1) d1 s1 sv rm maintenance.clear_err [of "io_remove io" d1 d2] removed_maintenance [of "io_remove io" d1 d2]
        Read_same_state_file [of d2 d1 env st]
      by (cases r1; cases r2) (auto simp: finish_verified_def parked_trace_def butlast_append Let_def split: if_splits)
  qed
qed

text \<open>Replacing the image of a running Apple Container runtime, as an example.\<close>

definition swap_intent :: runtime_intent where
  "swap_intent = \<lparr>ri_OperationID = replicate 16 (CHR ''a''), ri_InstallationID = replicate 16 (CHR ''b''),
     ri_OldManifestSHA256 = replicate 64 (CHR ''a''), ri_NewManifestSHA256 = replicate 64 (CHR ''b''),
     ri_OldImageDigest = ''sha256:'' @ replicate 64 (CHR ''c''), ri_NewImageDigest = ''sha256:'' @ replicate 64 (CHR ''d''),
     ri_OldStateGeneration = 3, ri_NewStateGeneration = 4\<rparr>"

definition swap_witness :: maintenance_witness where
  "swap_witness = \<lparr>mw_Schema = 1, mw_Backend = BackendLocalAppleContainer, mw_OriginRoutingGeneration = 5,
     mw_PreparedRoutingGeneration = 6, mw_FinalRoutingGeneration = 7, mw_Intent = swap_intent\<rparr>"

definition swap_journal :: maintenance_journal where
  "swap_journal = \<lparr>mj_Schema = maintenanceSchemaVersion, mj_BoundConfigPath = st_configPath example_store, mj_Witness = swap_witness\<rparr>"

definition swap_env :: routing_env where
  "swap_env = example_env\<lparr>re_decode_maintenance := (\<lambda>_. DecodedThenEOF swap_journal), re_encode_maintenance := (\<lambda>_. ''m'')\<rparr>"

definition all_io :: maintenance_io where
  "all_io = \<lparr>io_lock = True, io_journal = True, io_marker = True, io_applying = True, io_final = True, io_remove = True,
     io_runtimePrepare = True, io_runtimeVerify = True\<rparr>"

abbreviation apple_route :: "phase \<Rightarrow> 64 word \<Rightarrow> state" where
  "apple_route ph g \<equiv> example_state ph BackendLocalAppleContainer BackendLocalAppleContainer g"

lemma swap_intent_valid: "MaintenanceIntent_valid swap_intent"
  unfolding MaintenanceIntent_valid_def
  by (simp add: swap_intent_def validMaintenanceID_def validSHA256_def validOCIDigest_def isLowerHex_def
      is_lower_def is_digit_def maxUint64_def list_all_iff trim_prefix_def)

lemma swap_witness_new: "newMaintenanceWitness 5 swap_intent = Some swap_witness"
  by (simp add: newMaintenanceWitness_def swap_intent_valid swap_witness_def maintenanceSchemaVersion_def maxUint64_def)

lemma swap_fields:
  "re_wd swap_env = re_wd example_env" "re_decode_state swap_env = re_decode_state example_env"
  "re_encode_state swap_env = re_encode_state example_env" "re_decode_journal swap_env = re_decode_journal example_env"
  "re_decode_runtime swap_env = re_decode_runtime example_env" "re_tokens swap_env = re_tokens example_env"
  "re_stream_end swap_env = re_stream_end example_env"
  by (simp_all add: swap_env_def)

lemma swap_env_same:
  "Read swap_env st d = Read example_env st d" "state_faithful swap_env s = state_faithful example_env s"
  "store_bound swap_env st = store_bound example_env st" "Save swap_env st c m s' d n = Save example_env st c m s' d n"
  unfolding Save_def Read_def state_faithful_def store_bound_def writeMarkerAndState_def writeStateAtomically_def swap_fields
  by (rule refl)+

lemma swap_route_read: "g \<noteq> 0 \<Longrightarrow> unat g < 1000 \<Longrightarrow> ph = PhaseRelayActive \<or> ph = PhaseApplying \<Longrightarrow>
    Read swap_env example_store (example_disk (apple_route ph g)) = Inr (apple_route ph g, False)"
  unfolding swap_env_same by (rule example_read) (auto simp: backend_defs)

lemma swap_state_faithful: "unat g < 1000 \<Longrightarrow> ph = PhaseRelayActive \<or> ph = PhaseApplying \<Longrightarrow> state_faithful swap_env (apple_route ph g)"
  unfolding swap_env_same by (rule example_faithful) (auto simp: backend_defs)

lemma swap_states: "applying_of swap_witness (apple_route ph g) = apple_route PhaseApplying 6"
  "final_of swap_witness (apple_route ph g) = apple_route PhaseRelayActive 7"
  by (simp_all add: applying_of_def final_of_def example_state_def swap_witness_def)

lemma swap_journal_faithful: "maintenance_faithful swap_env swap_journal"
proof -
  have "rejectDuplicateJSONKeys StreamEOF [TLit] = Inr ()" by code_simp
  then show ?thesis
    by (simp add: maintenance_faithful_def swap_env_def routing_rejectDuplicateJSONKeys_def maxJournalBytes_def example_env_def)
qed

lemma example_no_files: "dk_journal (example_disk s) = FileAbsent" "dk_maintenance (example_disk s) = FileAbsent"
  "dk_runtime (example_disk s) = FileAbsent"
  by (simp_all add: example_disk_def)

section \<open>Properties\<close>

text \<open>C23: \<open>Prepare\<close> is crash-safe. Every disk it leaves behind, after any of its writes, is the disk it
  found or one on which the watcher denies traffic. When it returns a witness, that witness is
  durable in the journal, it is the one for the caller's generation and intent, and the routing state
  beside it has left the origin generation and matches it.\<close>

theorem Prepare_crash_safe:
  assumes call: "Prepare env st io d generation intent = (tr, r)" and bound: "store_bound env st"
    and json: "\<And>s w. Read env st d = Inr (s, False) \<Longrightarrow>
        newMaintenanceWitness generation intent = Some w \<or> (\<exists>m. loadMaintenance env st d = Inr (Some m) \<and> mj_Witness m = w) \<Longrightarrow>
        state_faithful env (applying_of w s)"
      "\<And>w. newMaintenanceWitness generation intent = Some w \<Longrightarrow> maintenance_faithful env
        \<lparr>mj_Schema = maintenanceSchemaVersion, mj_BoundConfigPath = st_configPath st, mj_Witness = w\<rparr>"
  shows "(\<forall>d' \<in> set tr. d' = d \<or> \<not> snapshot_AllowsDataPlane (Refresh env st g d')) \<and>
    (\<forall>w. r = Inr w \<longrightarrow> mw_OriginRoutingGeneration w = generation \<and> mw_Intent w = intent \<and>
      (\<exists>m s. loadMaintenance env st (last (d # tr)) = Inr (Some m) \<and> mj_Witness m = w \<and>
        Read env st (last (d # tr)) = Inr (s, False) \<and> maintenance_matchesState m s \<and>
        Generation s \<noteq> mw_OriginRoutingGeneration w))"
  using call
proof (cases rule: Prepare_cases)
  case refused
  then show ?thesis by (cases r) auto
next
  case (resumed m s)
  then show ?thesis by (auto simp: park_runtime_result)
next
  case (parked m s d1 r1)
  note keep = Save_keeps_maintenance [OF parked(8) bound]
  have "\<not> snapshot_AllowsDataPlane (Refresh env st g d1)"
    using loaded_maintenance_present [OF parked(2)] keep by (intro parks_during_maintenance) simp
  moreover have "Read env st d1 = Inr (applying_of (mj_Witness m) s, False)" if "r1 = Inr u" for u
    using Save_reads [OF parked(8) [unfolded that] bound] apple_normalized(1) [OF parked(6)] json(1) [OF parked(3)] parked(2) by blast
  moreover have "Generation (applying_of (mj_Witness m) s) \<noteq> mw_OriginRoutingGeneration (mj_Witness m)"
    using witness_generations matches_apple [OF parked(6)] by (fastforce simp: applying_of_def)
  ultimately show ?thesis
    using parked(1,2,4,5,9) loadMaintenance_same [OF keep, of env st] matches_apple [OF parked(6)] applying_matches [of m s]
    by (cases r1) (auto simp: park_runtime_result)
next
  case (unrecorded d1 e w)
  then show ?thesis using maintenance.put_err [OF unrecorded(3)] by (cases r) auto
next
  case (recorded s w d1 d2 r2)
  let ?m = "\<lparr>mj_Schema = maintenanceSchemaVersion, mj_BoundConfigPath = st_configPath st, mj_Witness = w\<rparr>"
  note w = new_witness_valid [OF recorded(5)] and keep = Save_keeps_maintenance [OF recorded(7) bound]
  have d1: "dk_maintenance d1 \<noteq> FileAbsent" using written_maintenance_present [OF recorded(6)] by simp
  have "loadMaintenance env st d2 = Inr (Some ?m)"
    using maintenance.put_ok [OF json(2) [OF recorded(5)] recorded(6)] loadMaintenance_same [OF keep, of env st] by simp
  moreover have "\<not> snapshot_AllowsDataPlane (Refresh env st g d1)" "\<not> snapshot_AllowsDataPlane (Refresh env st g d2)"
    using d1 keep by (simp_all add: parks_during_maintenance)
  moreover have "Read env st d2 = Inr (applying_of w s, False)" if "r2 = Inr u" for u
    using Save_reads [OF recorded(7) [unfolded that] bound] apple_normalized(2) [OF recorded(3)] json(1) [OF recorded(2)] recorded(5) by blast
  moreover have "maintenance_matchesState ?m (applying_of w s)"
    using applying_matches [of ?m s] w recorded(3) by (simp add: stableAppleState_def)
  moreover have "Generation (applying_of w s) \<noteq> mw_OriginRoutingGeneration w"
    using witness_generations [of w] w by (auto simp: applying_of_def)
  ultimately show ?thesis using recorded(1,8) w by (cases r2) (auto simp: park_runtime_result)
qed

theorem Prepare_crash_safe_witness:
  "\<exists>tr. Prepare swap_env example_store all_io (example_disk (apple_route PhaseRelayActive 5)) 5 swap_intent = (tr, Inr swap_witness) \<and>
     length tr = 2 \<and> (\<forall>d' \<in> set tr. d' = example_disk (apple_route PhaseRelayActive 5) \<or>
       \<not> snapshot_AllowsDataPlane (Refresh swap_env example_store open_gates d'))"
proof -
  let ?d = "example_disk (apple_route PhaseRelayActive 5)"
  let ?d1 = "?d\<lparr>dk_maintenance := FileContents ''m''\<rparr>"
  have r: "Read swap_env example_store ?d = Inr (apple_route PhaseRelayActive 5, False)" by (rule swap_route_read) simp_all
  then have r1: "Read example_env example_store ?d1 = Inr (apple_route PhaseRelayActive 5, False)"
    unfolding swap_env_same by (rule Read_same_state_file [rotated]) simp
  have j: "writeMaintenance swap_env example_store True ?d swap_journal = (?d1, Inr ())"
  proof -
    have "maintenance_validate (re_wd swap_env) swap_journal (st_configPath example_store) = Inr ()"
      using example_bound new_witness_valid [OF swap_witness_new]
      by (simp add: maintenance_validate_def swap_journal_def store_bound_def swap_env_def)
    then show ?thesis by (simp add: writeMaintenance_def example_no_files) (simp add: swap_env_def)
  qed
  have v: "valid_state (re_wd example_env) (st_configPath example_store) (apple_route PhaseApplying 6)"
    by (rule example_valid) (simp_all add: backend_defs)
  have sv: "Save swap_env example_store False True True ?d1 (apple_route PhaseApplying 6) =
      (?d1\<lparr>dk_state := FileContents (re_encode_state example_env (apple_route PhaseApplying 6))\<rparr>, Inr ())"
    unfolding swap_env_same
    by (rule Save_succeeds [OF example_bound v r1])
      (use example_marker in \<open>simp_all add: example_state_def validateTransition_def\<close>)
  have st: "stableAppleState (apple_route PhaseRelayActive 5)" "Generation (apple_route PhaseRelayActive 5) = 5"
    by (simp_all add: stableAppleState_def example_state_def)
  let ?tr = "[?d1, ?d1\<lparr>dk_state := FileContents (re_encode_state example_env (apple_route PhaseApplying 6))\<rparr>]"
  have call: "Prepare swap_env example_store all_io ?d 5 swap_intent = (?tr, Inr swap_witness)"
    using r j sv st
    by (simp add: Prepare_def swap_intent_valid swap_witness_new swap_states all_io_def park_runtime_def swap_journal_def
        HasPendingTransaction_def loadMaintenance_def loadRuntimeRouting_def example_no_files)
  have "state_faithful swap_env (applying_of w s)"
    if "Read swap_env example_store ?d = Inr (s, False)" "newMaintenanceWitness 5 swap_intent = Some w \<or>
      (\<exists>m. loadMaintenance swap_env example_store ?d = Inr (Some m) \<and> mj_Witness m = w)" for s w
    using that r swap_witness_new swap_state_faithful [of 6 PhaseApplying]
    by (auto simp: loadMaintenance_def example_no_files swap_states)
  moreover have "maintenance_faithful swap_env
      \<lparr>mj_Schema = maintenanceSchemaVersion, mj_BoundConfigPath = st_configPath example_store, mj_Witness = w\<rparr>"
    if "newMaintenanceWitness 5 swap_intent = Some w" for w
    using that swap_witness_new swap_journal_faithful by (simp add: swap_journal_def)
  ultimately have "\<forall>d' \<in> set ?tr. d' = ?d \<or> \<not> snapshot_AllowsDataPlane (Refresh swap_env example_store open_gates d')"
    using Prepare_crash_safe [OF call] example_bound by (simp add: swap_env_same(3))
  with call show ?thesis by (intro exI [of _ ?tr]) simp
qed

text \<open>C24: \<open>Commit\<close> and \<open>Rollback\<close> are crash-safe. Up to the removal of the journal every disk they leave
  parks the relay, and a call that fails leaves only such disks. When the call succeeds, the journal
  is gone and the durable state beside it is the stable Apple Container route at exactly the final
  generation of the witness.\<close>

theorem finish_maintenance_crash_safe:
  assumes call: "finish_maintenance env st io d operation w = (tr, r)" and bound: "store_bound env st"
    and json: "\<And>s. Read env st d = Inr (s, False) \<Longrightarrow> state_faithful env (applying_of w s) \<and> state_faithful env (final_of w s)"
  shows "case r of
      Inl e \<Rightarrow> \<forall>d' \<in> set tr. \<not> snapshot_AllowsDataPlane (Refresh env st g d')
    | Inr _ \<Rightarrow> (\<forall>d' \<in> set (butlast tr). \<not> snapshot_AllowsDataPlane (Refresh env st g d')) \<and>
        dk_maintenance (last tr) = FileAbsent \<and>
        (\<exists>s. Read env st (last tr) = Inr (s, False) \<and> stableAppleState s \<and> Generation s = mw_FinalRoutingGeneration w)"
proof (cases "\<exists>m s. loadMaintenance env st d = Inr (Some m) \<and> mj_Witness m = w \<and> Read env st d = Inr (s, False) \<and>
    maintenance_matchesState m s \<and> tr \<noteq> []")
  case False
  then have "isl r \<and> tr = []"
    using call by (auto simp: finish_maintenance_def finish_verified_def split: if_splits sum.splits option.splits bool.splits prod.splits)
  then show ?thesis by (cases r) auto
next
  case True
  then obtain m s where m: "loadMaintenance env st d = Inr (Some m)" "mj_Witness m = w" "Read env st d = Inr (s, False)"
    "maintenance_matchesState m s" "tr \<noteq> []" by blast
  have dm: "dk_maintenance d \<noteq> FileAbsent" by (rule loaded_maintenance_present [OF m(1)])
  obtain d1 r1 where sv: "Save env st False (io_marker io) (io_applying io) d (applying_of w s) = (d1, r1)" by (metis surj_pair)
  have d1: "dk_maintenance d1 \<noteq> FileAbsent" using dm Save_keeps_maintenance [OF sv bound] by simp
  note denies = parks_during_maintenance [where env = env and st = st and g = g]
  have final: "final_of w (applying_of w s) = final_of w s" by (simp add: final_of_def applying_of_def)
  show ?thesis
  proof (cases "Generation s = mw_OriginRoutingGeneration w")
    case origin: True
    show ?thesis
    proof (cases r1)
      case (Inl e)
      then have "tr = [d1]" "isl r" using call m sv origin by (auto simp: finish_maintenance_def split: if_splits)
      then show ?thesis using denies [OF d1] by (cases r) auto
    next
      case (Inr u)
      then have fv: "finish_verified env st io [d1] d1 (applying_of w s) (mj_Witness m) = (tr, r)"
        using call m sv origin by (auto simp: finish_maintenance_def split: if_splits)
      have "Read env st d1 = Inr (applying_of w s, False)"
        using Save_reads [OF sv [unfolded Inr] bound] apple_normalized(1) [OF m(4)] json [OF m(3)] by simp
      moreover have "maintenance_matchesState m (applying_of w s)" using applying_matches [of m s] matches_apple [OF m(4)] m(2) by simp
      moreover have "Generation (applying_of w s) \<noteq> mw_OriginRoutingGeneration (mj_Witness m)"
        using witness_generations [of w] matches_apple [OF m(4)] m(2) by (auto simp: applying_of_def)
      ultimately show ?thesis
        using finish_verified_result [OF fv bound _ d1] json [OF m(3)] d1 m(2) final denies
        by (cases r) (auto simp: parked_trace_def)
    qed
  next
    case False
    then have fv: "finish_verified env st io [] d s (mj_Witness m) = (tr, r)"
      using call m by (auto simp: finish_maintenance_def split: if_splits)
    show ?thesis
      using finish_verified_result [OF fv bound _ dm m(3,4)] False json [OF m(3)] m(2) denies
      by (cases r) (auto simp: parked_trace_def)
  qed
qed

theorem finish_maintenance_crash_safe_witness:
  "\<exists>tr s. finish_maintenance swap_env example_store all_io
       ((example_disk (apple_route PhaseApplying 6))\<lparr>dk_maintenance := FileContents ''m''\<rparr>) OpMaintenanceCommit swap_witness = (tr, Inr ()) \<and>
     Read swap_env example_store (last tr) = Inr (s, False) \<and> Generation s = 7 \<and> dk_maintenance (last tr) = FileAbsent"
proof -
  let ?start = "example_disk (apple_route PhaseApplying 6)"
  let ?d = "?start\<lparr>dk_maintenance := FileContents ''m''\<rparr>"
  let ?d1 = "?d\<lparr>dk_state := FileContents (re_encode_state example_env (apple_route PhaseRelayActive 7))\<rparr>"
  have "Read swap_env example_store ?start = Inr (apple_route PhaseApplying 6, False)" by (rule swap_route_read) simp_all
  then have r: "Read swap_env example_store ?d = Inr (apple_route PhaseApplying 6, False)"
    using Read_same_state_file [of ?d ?start swap_env example_store] by simp
  have v: "valid_state (re_wd example_env) (st_configPath example_store) (apple_route PhaseRelayActive 7)"
    by (rule example_valid) (simp_all add: backend_defs)
  have sv: "Save swap_env example_store False True True ?d (apple_route PhaseRelayActive 7) = (?d1, Inr ())"
    unfolding swap_env_same
    by (rule Save_succeeds [OF example_bound v r [unfolded swap_env_same]])
      (use example_marker in \<open>simp_all add: example_state_def validateTransition_def validRelayBackend_def\<close>)
  have "rejectDuplicateJSONKeys StreamEOF [TLit] = Inr ()" by code_simp
  moreover have "maintenance_validate (re_wd swap_env) swap_journal (st_configPath example_store) = Inr ()"
    using example_bound new_witness_valid [OF swap_witness_new]
    by (simp add: maintenance_validate_def swap_journal_def store_bound_def swap_env_def)
  ultimately have m: "loadMaintenance swap_env example_store ?d = Inr (Some swap_journal)"
    by (simp add: loadMaintenance_def maxJournalBytes_def routing_rejectDuplicateJSONKeys_def swap_env_def example_env_def maxStateBytes_def)
  have w: "MaintenanceWitness_valid swap_witness" using new_witness_valid [OF swap_witness_new] by simp
  then have ms: "maintenance_matchesState swap_journal (apple_route PhaseApplying 6)"
    by (simp add: maintenance_matchesState_def swap_journal_def) (simp add: swap_witness_def example_state_def)
  have g: "Generation (apple_route PhaseApplying 6) = 6" "mw_OriginRoutingGeneration swap_witness = 5"
    "mw_PreparedRoutingGeneration swap_witness = 6" "mw_FinalRoutingGeneration swap_witness = 7" "mj_Witness swap_journal = swap_witness"
    by (simp_all add: example_state_def swap_witness_def swap_journal_def)
  have call: "finish_maintenance swap_env example_store all_io ?d OpMaintenanceCommit swap_witness =
      ([?d1, ?d1\<lparr>dk_maintenance := FileAbsent\<rparr>], Inr ())"
    using r m ms w sv
    by (simp add: finish_maintenance_def g all_io_def finish_verified_def swap_states removeMaintenance_def)
  have "state_faithful swap_env (applying_of swap_witness s) \<and> state_faithful swap_env (final_of swap_witness s)"
    if "Read swap_env example_store ?d = Inr (s, False)" for s
  proof -
    have "s = apple_route PhaseApplying 6" using that r by simp
    then show ?thesis
      using swap_state_faithful [of 6 PhaseApplying] swap_state_faithful [of 7 PhaseRelayActive] by (simp add: swap_states)
  qed
  with finish_maintenance_crash_safe [OF call] example_bound call g show ?thesis by (auto simp: swap_env_same(3))
qed

end
