(* ===== verification/Routing_Control.thy ===== *)
theory Routing_Control
  imports Routing_Maintenance
begin

text \<open>
  Package \<open>routing\<close>, file \<open>control.go\<close>: the messages of the owner-only control socket, their validation
  on both ends, the mapping of errors to codes, and \<open>MaintenanceCoordinator.Handle\<close>. The socket, the
  peer check and the JSON framing are not modelled.
\<close>

record control_request =
  cq_Schema :: int
  cq_Operation :: control_operation
  cq_Generation :: "64 word"
  cq_Backend :: backend
  cq_Intent :: "runtime_intent option"
  cq_Witness :: "maintenance_witness option"

record control_response =
  cr_OK :: bool
  cr_Generation :: "64 word"
  cr_Backend :: backend
  cr_Maintenance :: "maintenance_status option"
  cr_Witness :: "maintenance_witness option"
  cr_Code :: string

definition controlSchemaVersion :: int where "controlSchemaVersion = 2"

definition ControlRequest_valid :: "control_request \<Rightarrow> bool" where
  "ControlRequest_valid r =
     (if cq_Schema r \<noteq> controlSchemaVersion then False
      else (case cq_Operation r of
        OpApply \<Rightarrow> \<not> (cq_Generation r = 0 \<or> \<not> validBackend (cq_Backend r) \<or> cq_Intent r \<noteq> None \<or> cq_Witness r \<noteq> None)
      | OpMaintenanceStatus \<Rightarrow>
          \<not> (cq_Generation r \<noteq> 0 \<or> cq_Backend r \<noteq> BackendOther [] \<or> cq_Intent r \<noteq> None \<or> cq_Witness r \<noteq> None)
      | OpMaintenancePrepare \<Rightarrow>
          \<not> (cq_Generation r = 0 \<or> cq_Backend r \<noteq> BackendLocalAppleContainer \<or>
             (case cq_Intent r of None \<Rightarrow> True | Some i \<Rightarrow> \<not> MaintenanceIntent_valid i) \<or> cq_Witness r \<noteq> None)
      | OpMaintenanceCommit \<Rightarrow>
          \<not> (cq_Generation r \<noteq> 0 \<or> cq_Backend r \<noteq> BackendOther [] \<or> cq_Intent r \<noteq> None \<or>
             (case cq_Witness r of None \<Rightarrow> True | Some w \<Rightarrow> \<not> MaintenanceWitness_valid w))
      | OpMaintenanceRollback \<Rightarrow>
          \<not> (cq_Generation r \<noteq> 0 \<or> cq_Backend r \<noteq> BackendOther [] \<or> cq_Intent r \<noteq> None \<or>
             (case cq_Witness r of None \<Rightarrow> True | Some w \<Rightarrow> \<not> MaintenanceWitness_valid w))
      | OpOther _ \<Rightarrow> False))"

definition validControlResponse :: "control_request \<Rightarrow> control_response \<Rightarrow> bool" where
  "validControlResponse q r =
     (if \<not> cr_OK r \<or> cr_Code r \<noteq> [] then False
      else (case cq_Operation q of
        OpApply \<Rightarrow> cr_Generation r = cq_Generation q \<and> cr_Backend r = cq_Backend q \<and> cr_Maintenance r = None \<and> cr_Witness r = None
      | OpMaintenanceStatus \<Rightarrow>
          (case cr_Maintenance r of
             None \<Rightarrow> False
           | Some m \<Rightarrow> cr_Witness r = None \<and> MaintenanceStatus_valid m \<and>
               cr_Generation r = ms_RoutingGeneration m \<and> cr_Backend r = ms_Backend m)
      | OpMaintenancePrepare \<Rightarrow>
          (case (cr_Witness r, cq_Intent q) of
             (Some w, Some i) \<Rightarrow> cr_Maintenance r = None \<and> MaintenanceWitness_valid w \<and> mw_Intent w = i \<and>
               cr_Generation r = mw_PreparedRoutingGeneration w \<and> cr_Backend r = BackendLocalAppleContainer
           | _ \<Rightarrow> False)
      | OpMaintenanceCommit \<Rightarrow>
          (case cq_Witness q of None \<Rightarrow> False
           | Some w \<Rightarrow> cr_Maintenance r = None \<and> cr_Witness r = None \<and> cr_Generation r = mw_FinalRoutingGeneration w \<and>
               cr_Backend r = BackendLocalAppleContainer)
      | OpMaintenanceRollback \<Rightarrow>
          (case cq_Witness q of None \<Rightarrow> False
           | Some w \<Rightarrow> cr_Maintenance r = None \<and> cr_Witness r = None \<and> cr_Generation r = mw_FinalRoutingGeneration w \<and>
               cr_Backend r = BackendLocalAppleContainer)
      | OpOther _ \<Rightarrow> False))"

definition controlResponseError :: "control_response \<Rightarrow> maintenance_error" where
  "controlResponseError r =
     (if cr_Code r = ''conflict'' then ErrMaintenanceConflict
      else if cr_Code r = ''recovery_required'' then ErrMaintenanceRecoveryRequired
      else if cr_Code r = ''invalid_request'' \<or> cr_Code r = ''invalid_witness'' then ErrMaintenanceWitness
      else ErrControlUnavailable)"

definition failed_response :: "string \<Rightarrow> control_response" where
  "failed_response code = \<lparr>cr_OK = False, cr_Generation = 0, cr_Backend = BackendOther [], cr_Maintenance = None,
     cr_Witness = None, cr_Code = code\<rparr>"

fun responseForControlError :: "maintenance_error \<Rightarrow> control_response" where
  "responseForControlError ErrMaintenanceConflict = failed_response ''conflict''"
| "responseForControlError ErrMaintenanceRecoveryRequired = failed_response ''recovery_required''"
| "responseForControlError ErrMaintenanceWitness = failed_response ''invalid_witness''"
| "responseForControlError ErrControlRequest = failed_response ''invalid_witness''"
| "responseForControlError _ = failed_response ''apply_failed''"

definition final_receipt :: "maintenance_witness \<Rightarrow> control_response" where
  "final_receipt w = \<lparr>cr_OK = True, cr_Generation = mw_FinalRoutingGeneration w, cr_Backend = BackendLocalAppleContainer,
     cr_Maintenance = None, cr_Witness = None, cr_Code = []\<rparr>"

definition Handle ::
  "routing_env \<Rightarrow> store \<Rightarrow> maintenance_io \<Rightarrow> disk \<Rightarrow> control_request \<Rightarrow>
   disk list \<times> (maintenance_error, control_response) result" where
  "Handle env st io d q =
     (if \<not> ControlRequest_valid q \<or> cq_Operation q = OpApply then ([], Inl ErrControlRequest)
      else (case cq_Operation q of
        OpMaintenanceStatus \<Rightarrow>
          (case Status env st (io_lock io) d of
             Inl e \<Rightarrow> ([], Inl e)
           | Inr m \<Rightarrow> ([], Inr \<lparr>cr_OK = True, cr_Generation = ms_RoutingGeneration m, cr_Backend = ms_Backend m,
               cr_Maintenance = Some m, cr_Witness = None, cr_Code = []\<rparr>))
      | OpMaintenancePrepare \<Rightarrow>
          (case cq_Intent q of
             None \<Rightarrow> ([], Inl ErrControlRequest)
           | Some i \<Rightarrow>
               (case Prepare env st io d (cq_Generation q) i of
                  (tr, Inl e) \<Rightarrow> (tr, Inl e)
                | (tr, Inr w) \<Rightarrow> (tr, Inr \<lparr>cr_OK = True, cr_Generation = mw_PreparedRoutingGeneration w,
                    cr_Backend = BackendLocalAppleContainer, cr_Maintenance = None, cr_Witness = Some w, cr_Code = []\<rparr>)))
      | OpMaintenanceCommit \<Rightarrow>
          (case cq_Witness q of
             None \<Rightarrow> ([], Inl ErrControlRequest)
           | Some w \<Rightarrow> (case finish_maintenance env st io d OpMaintenanceCommit w of
                 (tr, Inl e) \<Rightarrow> (tr, Inl e) | (tr, Inr _) \<Rightarrow> (tr, Inr (final_receipt w))))
      | OpMaintenanceRollback \<Rightarrow>
          (case cq_Witness q of
             None \<Rightarrow> ([], Inl ErrControlRequest)
           | Some w \<Rightarrow> (case finish_maintenance env st io d OpMaintenanceRollback w of
                 (tr, Inl e) \<Rightarrow> (tr, Inl e) | (tr, Inr _) \<Rightarrow> (tr, Inr (final_receipt w))))
      | _ \<Rightarrow> ([], Inl ErrControlRequest)))"

text \<open>The end of \<open>serveConnection\<close>: what the server writes for a handler's outcome.\<close>

definition serve_response :: "control_request \<Rightarrow> (maintenance_error, control_response) result \<Rightarrow> control_response" where
  "serve_response q outcome =
     (let r = (case outcome of Inl e \<Rightarrow> responseForControlError e | Inr r \<Rightarrow> r)
      in if cr_OK r \<and> \<not> validControlResponse q r then failed_response ''invalid_response'' else r)"

text \<open>What the client makes of the answer in \<open>roundTripControl\<close>.\<close>

definition accept_response :: "control_request \<Rightarrow> control_response \<Rightarrow> (maintenance_error, control_response) result" where
  "accept_response q r =
     (if \<not> cr_OK r then Inl (controlResponseError r)
      else if \<not> validControlResponse q r then Inl ErrControlUnavailable
      else Inr r)"

section \<open>Receipts\<close>

lemma prepared_witness_valid:
  assumes "Prepare env st io d generation intent = (tr, Inr w)"
  shows "MaintenanceWitness_valid w \<and> mw_Intent w = intent"
  using assms
proof (cases rule: Prepare_cases)
  case (resumed m s)
  then show ?thesis using matches_apple [of m s] by (auto simp: park_runtime_def split: if_splits)
next
  case (parked m s d1 r1)
  then show ?thesis using matches_apple [of m s] park_runtime_result [of io "[]" "mj_Witness m" w] by (auto split: if_splits)
next
  case (recorded s v d1 d2 r2)
  then show ?thesis using new_witness_valid [OF recorded(5)] park_runtime_result [of io "[]" v w] by (auto split: if_splits)
qed auto

lemma status_valid:
  assumes "Status env st ok d = Inr m" "validBackend (ms_Backend m)"
  shows "MaintenanceStatus_valid m"
proof -
  obtain s j where s: "Read env st d = Inr (s, False)" "loadMaintenance env st d = Inr j"
    "\<And>x. j = Some x \<Longrightarrow> maintenance_matchesState x s"
    "m = \<lparr>ms_Schema = maintenanceSchemaVersion, ms_RoutingGeneration = Generation s,
      ms_Backend = AppliedBackend s, ms_Phase = Phase s, ms_Pending = (j \<noteq> None)\<rparr>"
    using assms(1) by (auto simp: Status_def split: if_splits sum.splits bool.splits option.splits)
  have pend: "AppliedBackend s = BackendLocalAppleContainer \<and> (Phase s = PhaseRelayActive \<or> Phase s = PhaseApplying)" if "j = Some x" for x
    using s(3) [OF that] by (auto simp: maintenance_matchesState_def split: if_splits)
  have "valid_state (re_wd env) (st_configPath st) s" by (rule Read_valid [OF s(1)])
  then show ?thesis
    using assms(2) pend s(4) by (cases "Phase s"; cases j) (auto simp: MaintenanceStatus_valid_def valid_state_table)
qed

section \<open>Properties\<close>


definition status_request :: control_request where
  "status_request = \<lparr>cq_Schema = 2, cq_Operation = OpMaintenanceStatus, cq_Generation = 0, cq_Backend = BackendOther [],
     cq_Intent = None, cq_Witness = None\<rparr>"


end
