(* ===== verification/Go_Strings.thy ===== *)
theory Go_Strings
  imports Relay_Prelude
begin

text \<open>
  More of Go's package \<open>strings\<close>: \<open>Index\<close>, \<open>Contains\<close>, \<open>ReplaceAll\<close> (with a non-empty old string),
  \<open>TrimSuffix\<close>, \<open>HasSuffix\<close> and \<open>TrimSpace\<close>. \<open>TrimSpace\<close> removes Unicode white space; its code points
  are listed by their UTF-8 encodings, and since every encoding starts with a byte that starts a rune,
  trimming by encoded prefix and suffix is trimming by rune.
\<close>

definition newline :: char where "newline = CHR 0x0A"

definition carriage :: char where "carriage = CHR 0x0D"

lemma newline_carriage [simp]: "newline \<noteq> carriage" "carriage \<noteq> newline"
  by (simp_all add: newline_def carriage_def)

fun index_of :: "string \<Rightarrow> string \<Rightarrow> nat option" where
  "index_of needle [] = (if needle = [] then Some 0 else None)"
| "index_of needle (c # cs) =
     (if has_prefix (c # cs) needle then Some 0 else map_option Suc (index_of needle cs))"

definition contains :: "string \<Rightarrow> string \<Rightarrow> bool" where
  "contains s needle \<longleftrightarrow> index_of needle s \<noteq> None"

function replace_all :: "string \<Rightarrow> string \<Rightarrow> string \<Rightarrow> string" where
  "replace_all old new s =
     (if old = [] \<or> s = [] then s
      else if has_prefix s old then new @ replace_all old new (drop (length old) s)
      else hd s # replace_all old new (tl s))"
  by pat_completeness auto
termination by (relation "measure (\<lambda>(old, new, s). length s)") auto

declare replace_all.simps [simp del]

definition has_suffix :: "string \<Rightarrow> string \<Rightarrow> bool" where
  "has_suffix s p \<longleftrightarrow> has_prefix (rev s) (rev p)"

definition trim_suffix :: "string \<Rightarrow> string \<Rightarrow> string" where
  "trim_suffix s p = (if has_suffix s p then take (length s - length p) s else s)"

definition go_spaces :: "string list" where
  "go_spaces =
     [[CHR 0x09], [CHR 0x0A], [CHR 0x0B], [CHR 0x0C], [CHR 0x0D], [CHR 0x20],
      [CHR 0xC2, CHR 0x85], [CHR 0xC2, CHR 0xA0], [CHR 0xE1, CHR 0x9A, CHR 0x80],
      [CHR 0xE2, CHR 0x80, CHR 0x80], [CHR 0xE2, CHR 0x80, CHR 0x81], [CHR 0xE2, CHR 0x80, CHR 0x82],
      [CHR 0xE2, CHR 0x80, CHR 0x83], [CHR 0xE2, CHR 0x80, CHR 0x84], [CHR 0xE2, CHR 0x80, CHR 0x85],
      [CHR 0xE2, CHR 0x80, CHR 0x86], [CHR 0xE2, CHR 0x80, CHR 0x87], [CHR 0xE2, CHR 0x80, CHR 0x88],
      [CHR 0xE2, CHR 0x80, CHR 0x89], [CHR 0xE2, CHR 0x80, CHR 0x8A], [CHR 0xE2, CHR 0x80, CHR 0xA8],
      [CHR 0xE2, CHR 0x80, CHR 0xA9], [CHR 0xE2, CHR 0x80, CHR 0xAF], [CHR 0xE2, CHR 0x81, CHR 0x9F],
      [CHR 0xE3, CHR 0x80, CHR 0x80]]"

text \<open>Strips encodings out of the list \<open>ws\<close> (none of them empty) from the front.\<close>

function strip :: "string list \<Rightarrow> string \<Rightarrow> string" where
  "strip ws s =
     (case find (\<lambda>w. w \<noteq> [] \<and> has_prefix s w) ws of
        None \<Rightarrow> s
      | Some w \<Rightarrow> strip ws (drop (length w) s))"
  by pat_completeness auto
termination
proof (relation "measure (\<lambda>(ws, s). length s)")
  fix ws s w
  assume "find (\<lambda>w. w \<noteq> [] \<and> has_prefix s w) ws = Some w"
  then have "w \<noteq> []" "has_prefix s w" by (auto simp: find_Some_iff)
  then show "((ws, drop (length w) s), ws, s) \<in> measure (\<lambda>(ws, s). length s)"
    by (auto simp: has_prefix_iff)
qed simp

declare strip.simps [simp del]

definition TrimSpace :: "string \<Rightarrow> string" where
  "TrimSpace s = rev (strip (map rev go_spaces) (rev (strip go_spaces s)))"

section \<open>Facts on searching\<close>

lemma index_of_first:
  "\<forall>j < length p. \<not> has_prefix (drop j (p @ needle @ r)) needle \<Longrightarrow> index_of needle (p @ needle @ r) = Some (length p)"
proof (induction p)
  case Nil
  then show ?case using has_prefix_append [of needle r] by (cases "needle @ r") auto
next
  case (Cons a p)
  have "\<not> has_prefix (a # p @ needle @ r) needle" using Cons.prems by force
  moreover have "\<forall>j < length p. \<not> has_prefix (drop j (p @ needle @ r)) needle" using Cons.prems by force
  ultimately show ?case using Cons.IH by simp
qed

lemma index_of_SomeD: "index_of needle s = Some i \<Longrightarrow> s = take i s @ needle @ drop (i + length needle) s \<and> i + length needle \<le> length s"
proof (induction s arbitrary: i)
  case Nil
  then show ?case by (auto split: if_splits)
next
  case (Cons c cs)
  show ?case
  proof (cases "has_prefix (c # cs) needle")
    case True
    then obtain r where "c # cs = needle @ r" by (auto simp: has_prefix_iff)
    moreover have "i = 0" using Cons.prems True by simp
    moreover have "length needle + length r = Suc (length cs)"
      using arg_cong [OF \<open>c # cs = needle @ r\<close>, of length] by simp
    ultimately show ?thesis by (simp add: append_eq_conv_conj [symmetric])
  next
    case False
    then obtain k where "i = Suc k" "index_of needle cs = Some k" using Cons.prems by auto
    then show ?thesis using Cons.IH [of k] by simp
  qed
qed

lemma index_of_None: "index_of needle s = None \<longleftrightarrow> \<not> (\<exists>p r. s = p @ needle @ r)"
proof -
  have "index_of needle (p @ needle @ r) \<noteq> None" for p r
  proof (induction p)
    case Nil
    then show ?case using has_prefix_append [of needle r] by (cases "needle @ r") auto
  qed auto
  moreover have "index_of needle s \<noteq> None \<Longrightarrow> \<exists>p r. s = p @ needle @ r"
    using index_of_SomeD by blast
  ultimately show ?thesis by metis
qed

lemma contains_iff: "contains s needle \<longleftrightarrow> (\<exists>p r. s = p @ needle @ r)"
  using index_of_None [of needle s] by (auto simp: contains_def)

text \<open>A needle without the separator is found inside one of the parts.\<close>

lemma has_prefix_sep: "c \<notin> set needle \<Longrightarrow> has_prefix (a @ c # b) needle = has_prefix a needle"
proof (induction a needle rule: has_prefix.induct)
  case (2 p ps)
  then show ?case by auto
qed auto

lemma index_of_sep:
  assumes "c \<notin> set needle" "needle \<noteq> []"
  shows "index_of needle (a @ c # b) =
    (case index_of needle a of Some i \<Rightarrow> Some i | None \<Rightarrow> map_option (\<lambda>k. length a + 1 + k) (index_of needle b))"
proof (induction a)
  case Nil
  have "\<not> has_prefix (c # b) needle" using assms by (cases needle) auto
  then show ?case using assms by (cases "index_of needle b") auto
next
  case (Cons x a)
  have "has_prefix (x # a @ c # b) needle = has_prefix (x # a) needle"
    using has_prefix_sep [OF assms(1), of "x # a" b] by simp
  then show ?case using Cons.IH
    by (cases "has_prefix (x # a) needle"; cases "index_of needle a"; cases "index_of needle b") auto
qed

lemma contains_sep:
  "c \<notin> set needle \<Longrightarrow> needle \<noteq> [] \<Longrightarrow> contains (a @ c # b) needle \<longleftrightarrow> contains a needle \<or> contains b needle"
  by (simp add: contains_def index_of_sep split: option.splits)

lemma contains_join:
  assumes "c \<notin> set needle" "needle \<noteq> []"
  shows "contains (join_with c ls) needle \<longleftrightarrow> (\<exists>l \<in> set ls. contains l needle)"
  using assms by (induction c ls rule: join_with.induct) (auto simp: contains_sep, simp add: contains_def)

lemma contains_self [simp]: "contains s s"
  unfolding contains_iff by (metis append_Nil append_Nil2)

lemma contains_needs: "contains s needle \<Longrightarrow> set needle \<subseteq> set s"
  by (auto simp: contains_iff)

lemma contains_prefix_needle: "contains s (a @ b) \<Longrightarrow> contains s a"
  unfolding contains_iff by auto

section \<open>Facts on replacing and trimming\<close>

lemma replace_all_absent: "hd old \<notin> set s \<Longrightarrow> replace_all old new s = s"
proof (induction old new s rule: replace_all.induct)
  case (1 old new s)
  show ?case
  proof (cases "old = [] \<or> s = []")
    case True
    then show ?thesis by (subst replace_all.simps) simp
  next
    case False
    with 1 have "\<not> has_prefix s old" by (cases old; cases s) auto
    moreover have "hd old \<notin> set (tl s)" using 1 False by (cases s) auto
    ultimately show ?thesis using 1(2) False by (subst replace_all.simps) simp
  qed
qed

lemma strip_id: "(\<And>w. w \<in> set ws \<Longrightarrow> w \<noteq> [] \<Longrightarrow> \<not> has_prefix s w) \<Longrightarrow> strip ws s = s"
proof -
  assume "\<And>w. w \<in> set ws \<Longrightarrow> w \<noteq> [] \<Longrightarrow> \<not> has_prefix s w"
  then have "find (\<lambda>w. w \<noteq> [] \<and> has_prefix s w) ws = None" by (auto simp: find_None_iff)
  then show ?thesis by (subst strip.simps) simp
qed

lemma TrimSpace_Nil [simp]: "TrimSpace [] = []"
proof -
  have "strip ws [] = []" for ws by (rule strip_id) (auto simp: has_prefix_iff)
  then show ?thesis by (simp add: TrimSpace_def)
qed

lemma TrimSpace_id:
  assumes "s = a # t" "s = u @ [z]" "a \<notin> hd ` set go_spaces" "z \<notin> last ` set go_spaces"
  shows "TrimSpace s = s"
proof -
  have "strip go_spaces s = s"
  proof (rule strip_id)
    fix w assume "w \<in> set go_spaces" "w \<noteq> []"
    then have "hd w \<noteq> a" using assms(3) by blast
    then show "\<not> has_prefix s w" using assms(1) \<open>w \<noteq> []\<close> by (cases w) auto
  qed
  moreover have "strip (map rev go_spaces) (rev s) = rev s"
  proof (rule strip_id)
    fix w assume "w \<in> set (map rev go_spaces)" "w \<noteq> []"
    then obtain v where "v \<in> set go_spaces" "w = rev v" "v \<noteq> []" by auto
    then have "hd w = last v" by (simp add: hd_rev)
    then have "hd w \<noteq> z" using assms(4) \<open>v \<in> set go_spaces\<close> by blast
    then show "\<not> has_prefix (rev s) w" using assms(2) \<open>w \<noteq> []\<close> by (cases w) auto
  qed
  ultimately show ?thesis by (simp add: TrimSpace_def)
qed

lemma has_suffix_append [simp]: "has_suffix (s @ p) p"
  by (simp add: has_suffix_def)

lemma trim_suffix_append [simp]: "trim_suffix (s @ p) p = s"
  by (simp add: trim_suffix_def)

end
