(* ===== verification/Codex_Config.thy ===== *)
theory Codex_Config
  imports Go_Strings Go_Path
begin

text \<open>
  Package \<open>codexconfig\<close>, file \<open>config.go\<close>: the relay-owned root block in the user's Codex
  configuration and the relay-owned interactive profile beside it.

  The file system is a map from paths to files. \<open>NotRegular\<close> is a symbolic link, a directory or a path
  that cannot be inspected; a regular file has mode 0600 or not, and its contents cannot be read if
  they are \<open>None\<close>. An atomic write either replaces the file or changes nothing; whether it succeeds is
  an argument, as is the result of a removal.
\<close>

section \<open>Owners, files and errors\<close>

record owner =
  ow_ID :: string
  ow_BeginMarker :: string
  ow_EndMarker :: string
  ow_InteractiveProfileFilename :: string
  ow_InteractiveProfileMarker :: string

datatype codex_error =
    UnsupportedOwner string | OwnerNotCanonical | EmptyPath | NotRegularFile | ReadFailed
  | ProfileMode | ProfileNotManaged | IncompleteBlock | OtherInstallation | UnmanagedRouting
  | UnmanagedProvider string | RoutingIncomplete | RootBlockMissing | RootBlockDrifted | ProfileDrifted
  | NativeDrifted | OwnershipForeign | RelayArtifactsChanged | NativeArtifactsChanged
  | WriteFailed | RemoveFailed | RestoreFailed | AlreadyManaged | LegacyCombined | LegacyUnsupported
  | ProfileNeedsReview | BackupInvalid | BackupUnavailable

definition ProductionOwner :: owner where
  "ProductionOwner = \<lparr>ow_ID = ''production'',
     ow_BeginMarker = ''# >>> opencodex-relay managed begin >>>'',
     ow_EndMarker = ''# <<< opencodex-relay managed end <<<'',
     ow_InteractiveProfileFilename = ''opencodex-relay-interactive.config.toml'',
     ow_InteractiveProfileMarker = ''# opencodex-relay-managed-interactive-profile-v1''\<rparr>"

definition LocalDevelopmentOwner :: owner where
  "LocalDevelopmentOwner = \<lparr>ow_ID = ''local_development'',
     ow_BeginMarker = ''# >>> opencodex-relay-dev managed begin >>>'',
     ow_EndMarker = ''# <<< opencodex-relay-dev managed end <<<'',
     ow_InteractiveProfileFilename = ''opencodex-relay-dev-interactive.config.toml'',
     ow_InteractiveProfileMarker = ''# opencodex-relay-dev-managed-interactive-profile-v1''\<rparr>"

definition OwnerForID :: "string \<Rightarrow> (codex_error, owner) result" where
  "OwnerForID i =
     (if i = [] \<or> i = ow_ID ProductionOwner then Inr ProductionOwner
      else if i = ow_ID LocalDevelopmentOwner then Inr LocalDevelopmentOwner
      else Inl (UnsupportedOwner i))"

definition knownOwners :: "owner list" where
  "knownOwners = [ProductionOwner, LocalDevelopmentOwner]"

definition validateOwner :: "owner \<Rightarrow> (codex_error, unit) result" where
  "validateOwner o1 =
     (case OwnerForID (ow_ID o1) of
        Inl e \<Rightarrow> Inl e
      | Inr resolved \<Rightarrow> if resolved \<noteq> o1 then Inl OwnerNotCanonical else Inr ())"

definition other_owners :: "owner \<Rightarrow> owner list" where
  "other_owners o1 = filter (\<lambda>other. ow_ID other \<noteq> ow_ID o1) knownOwners"

datatype codex_file = NoFile | NotRegular | RegularFile bool "string option"

type_synonym codex_fs = "string \<Rightarrow> codex_file"

section \<open>Text\<close>

definition escapeTOML :: "string \<Rightarrow> string" where
  "escapeTOML v = concat (map (\<lambda>c. if c = CHR 0x5C then [CHR 0x5C, CHR 0x5C]
     else if c = CHR 0x22 then [CHR 0x5C, CHR 0x22] else [c]) v)"

fun rootAssignmentLines :: "string \<Rightarrow> string list \<Rightarrow> string option" where
  "rootAssignmentLines key [] = None"
| "rootAssignmentLines key (line # ls) =
     (let trimmed = TrimSpace line in
      if has_prefix trimmed ''['' then None
      else if has_prefix trimmed ''#'' \<or> \<not> has_prefix trimmed key then rootAssignmentLines key ls
      else let rest = TrimSpace (trim_prefix trimmed key)
           in if has_prefix rest ''='' then Some (TrimSpace (trim_prefix rest ''=''))
              else rootAssignmentLines key ls)"

definition rootAssignment :: "string \<Rightarrow> string \<Rightarrow> string option" where
  "rootAssignment content key = rootAssignmentLines key (split_on newline content)"

definition rootKeyExists :: "string \<Rightarrow> string \<Rightarrow> bool" where
  "rootKeyExists content key \<longleftrightarrow> rootAssignment content key \<noteq> None"

definition rootString :: "string \<Rightarrow> string \<Rightarrow> string option" where
  "rootString content key =
     (case rootAssignment content key of
        None \<Rightarrow> None
      | Some v0 \<Rightarrow>
          let v = TrimSpace v0 in
          if length v < 2 \<or> hd v \<noteq> CHR 0x22 \<or> last v \<noteq> CHR 0x22 then Some []
          else Some (replace_all [CHR 0x5C, CHR 0x22] [CHR 0x22] (trim_suffix (trim_prefix v [CHR 0x22]) [CHR 0x22])))"

definition removeManagedForOwner :: "string \<Rightarrow> owner \<Rightarrow> (codex_error, string) result" where
  "removeManagedForOwner content o1 =
     (case validateOwner o1 of
        Inl e \<Rightarrow> Inl e
      | Inr _ \<Rightarrow>
          (case (index_of (ow_BeginMarker o1) content, index_of (ow_EndMarker o1) content) of
             (None, None) \<Rightarrow> Inr content
           | (Some start, Some end0) \<Rightarrow>
               if end0 < start then Inl IncompleteBlock
               else let end1 = end0 + length (ow_EndMarker o1);
                        end2 = (if has_prefix (drop end1 content) [carriage, newline] then end1 + 2
                                else if end1 < length content \<and> content ! end1 = newline then end1 + 1
                                else end1)
                    in Inr (take start content @ drop end2 content)
           | _ \<Rightarrow> Inl IncompleteBlock))"

definition root_block :: "owner \<Rightarrow> string \<Rightarrow> string \<Rightarrow> string list" where
  "root_block o1 baseURL catalogPath =
     [ow_BeginMarker o1,
      ''openai_base_url = '' @ [CHR 0x22] @ escapeTOML baseURL @ [CHR 0x22],
      ''model_catalog_json = '' @ [CHR 0x22] @ escapeTOML catalogPath @ [CHR 0x22],
      ow_EndMarker o1]"

definition is_table :: "string \<Rightarrow> bool" where
  "is_table line \<longleftrightarrow> has_prefix (TrimSpace line) ''[''"

definition insert_block :: "string list \<Rightarrow> string list \<Rightarrow> string list" where
  "insert_block block ls = takeWhile (\<lambda>l. \<not> is_table l) ls @ block @ dropWhile (\<lambda>l. \<not> is_table l) ls"

definition foreign_markers :: "string \<Rightarrow> owner \<Rightarrow> bool" where
  "foreign_markers content o1 \<longleftrightarrow>
     list_ex (\<lambda>other. contains content (ow_BeginMarker other) \<or> contains content (ow_EndMarker other)) (other_owners o1)"

definition prepareEnableForOwner :: "string \<Rightarrow> owner \<Rightarrow> string \<Rightarrow> string \<Rightarrow> (codex_error, string) result" where
  "prepareEnableForOwner content0 o1 baseURL catalogPath =
     (case validateOwner o1 of
        Inl e \<Rightarrow> Inl e
      | Inr _ \<Rightarrow>
          if foreign_markers content0 o1 then Inl OtherInstallation
          else (case removeManagedForOwner content0 o1 of
                  Inl e \<Rightarrow> Inl e
                | Inr content \<Rightarrow>
                    if rootKeyExists content ''openai_base_url'' \<or> rootKeyExists content ''model_catalog_json''
                    then Inl UnmanagedRouting
                    else (case rootString content ''model_provider'' of
                            Some provider \<Rightarrow>
                              if provider \<noteq> ''openai'' then Inl (UnmanagedProvider provider)
                              else Inr (join_with newline (insert_block (root_block o1 baseURL catalogPath) (split_on newline content)))
                          | None \<Rightarrow>
                              Inr (join_with newline (insert_block (root_block o1 baseURL catalogPath) (split_on newline content))))))"

definition renderInteractiveProfile :: "string \<Rightarrow> string \<Rightarrow> owner \<Rightarrow> string" where
  "renderInteractiveProfile baseURL catalogPath o1 =
     join_with newline
       [ow_InteractiveProfileMarker o1,
        ''openai_base_url = '' @ [CHR 0x22] @ escapeTOML baseURL @ [CHR 0x22],
        ''model_catalog_json = '' @ [CHR 0x22] @ escapeTOML catalogPath @ [CHR 0x22]] @ [newline]"

definition validInteractiveProfile :: "string \<Rightarrow> owner \<Rightarrow> bool" where
  "validInteractiveProfile content o1 =
     (case split_on newline (trim_suffix (replace_all [carriage, newline] [newline] content) [newline]) of
        [l0, l1, l2] \<Rightarrow>
          l0 = ow_InteractiveProfileMarker o1 \<and>
          has_prefix l1 (''openai_base_url = '' @ [CHR 0x22]) \<and> has_suffix l1 [CHR 0x22] \<and>
          has_prefix l2 (''model_catalog_json = '' @ [CHR 0x22]) \<and> has_suffix l2 [CHR 0x22]
      | _ \<Rightarrow> False)"

section \<open>Legacy text\<close>

definition isLegacyProvider :: "string \<Rightarrow> bool" where
  "isLegacyProvider provider \<longleftrightarrow> provider \<in> {''pw_opencodex'', ''opencodex'', ''pw_opencodex_remote''}"

definition isLegacyLoopbackBaseURL :: "string \<Rightarrow> bool" where
  "isLegacyLoopbackBaseURL u \<longleftrightarrow> u = ''http://127.0.0.1:10100/v1'' \<or> u = ''http://localhost:10100/v1''"

fun removeRootLines :: "string list \<Rightarrow> bool \<Rightarrow> string list \<Rightarrow> string list" where
  "removeRootLines keys root [] = []"
| "removeRootLines keys root (line # ls) =
     (let root' = (root \<and> \<not> is_table line) in
      if root' \<and> list_ex (\<lambda>key. rootAssignment line key \<noteq> None) keys then removeRootLines keys root' ls
      else line # removeRootLines keys root' ls)"

definition removeRootAssignments :: "string \<Rightarrow> string list \<Rightarrow> string" where
  "removeRootAssignments content keys = join_with newline (removeRootLines keys True (split_on newline content))"

definition prepareLegacyMigration :: "string \<Rightarrow> (codex_error, string) result" where
  "prepareLegacyMigration content =
     (if list_ex (\<lambda>o1. contains content (ow_BeginMarker o1) \<or> contains content (ow_EndMarker o1)) knownOwners
      then Inl AlreadyManaged
      else let provider = rootString content ''model_provider''; baseURL = rootString content ''openai_base_url'' in
        if (case provider of Some p \<Rightarrow> isLegacyProvider p | None \<Rightarrow> False) then
          (if baseURL \<noteq> None then Inl LegacyCombined
           else Inr (removeRootAssignments content [''model_provider'', ''model_catalog_json'']))
        else if (provider = None \<or> provider = Some ''openai'') \<and>
                (case baseURL of Some u \<Rightarrow> isLegacyLoopbackBaseURL u | None \<Rightarrow> False) then
          Inr (removeRootAssignments content [''openai_base_url'', ''model_catalog_json''])
        else Inl LegacyUnsupported)"

section \<open>Files\<close>

definition PreflightCodexConfigPath :: "codex_fs \<Rightarrow> string \<Rightarrow> (codex_error, unit) result" where
  "PreflightCodexConfigPath fs path =
     (if path = [] then Inl EmptyPath
      else (case fs path of NotRegular \<Rightarrow> Inl NotRegularFile | _ \<Rightarrow> Inr ()))"

text \<open>\<open>snapshotOptional\<close>: the exact contents, \<open>None\<close> if there is no file.\<close>

definition snapshotOptional :: "codex_fs \<Rightarrow> string \<Rightarrow> (codex_error, string option) result" where
  "snapshotOptional fs path =
     (case PreflightCodexConfigPath fs path of
        Inl e \<Rightarrow> Inl e
      | Inr _ \<Rightarrow>
          (case fs path of
             RegularFile m (Some data) \<Rightarrow> Inr (Some data)
           | NoFile \<Rightarrow> Inr None
           | _ \<Rightarrow> Inl ReadFailed))"

definition readOptional :: "codex_fs \<Rightarrow> string \<Rightarrow> (codex_error, string) result" where
  "readOptional fs path =
     (case PreflightCodexConfigPath fs path of
        Inl e \<Rightarrow> Inl e
      | Inr _ \<Rightarrow>
          (case fs path of
             RegularFile m (Some data) \<Rightarrow> Inr (replace_all [carriage, newline] [newline] data)
           | NoFile \<Rightarrow> Inr []
           | _ \<Rightarrow> Inl ReadFailed))"

definition atomicWrite :: "bool \<Rightarrow> codex_fs \<Rightarrow> string \<Rightarrow> string \<Rightarrow> codex_fs \<times> (codex_error, unit) result" where
  "atomicWrite ok fs path content =
     (case PreflightCodexConfigPath fs path of
        Inl e \<Rightarrow> (fs, Inl e)
      | Inr _ \<Rightarrow> if ok then (fs(path := RegularFile True (Some content)), Inr ()) else (fs, Inl WriteFailed))"

definition remove_file :: "bool \<Rightarrow> codex_fs \<Rightarrow> string \<Rightarrow> codex_fs \<times> (codex_error, unit) result" where
  "remove_file ok fs path = (if ok then (fs(path := NoFile), Inr ()) else (fs, Inl RemoveFailed))"

definition restoreOptional :: "bool \<Rightarrow> codex_fs \<Rightarrow> string \<Rightarrow> string option \<Rightarrow> codex_fs \<times> (codex_error, unit) result" where
  "restoreOptional ok fs path snapshot =
     (case snapshot of
        Some content \<Rightarrow> atomicWrite ok fs path content
      | None \<Rightarrow> if fs path = NoFile then (fs, Inr ()) else remove_file ok fs path)"

definition InteractiveProfilePathForOwner :: "string \<Rightarrow> owner \<Rightarrow> string" where
  "InteractiveProfilePathForOwner path o1 = filepath_Join (filepath_Dir path) (ow_InteractiveProfileFilename o1)"

definition preflightInteractiveProfilePath :: "codex_fs \<Rightarrow> string \<Rightarrow> (codex_error, unit) result" where
  "preflightInteractiveProfilePath fs path =
     (case fs path of
        NoFile \<Rightarrow> Inr ()
      | NotRegular \<Rightarrow> Inl NotRegularFile
      | RegularFile mode0600 _ \<Rightarrow> if mode0600 then Inr () else Inl ProfileMode)"

section \<open>Inspection\<close>

record routing_inspection =
  ri_ManagedRoot :: bool
  ri_InteractiveProfileExists :: bool
  ri_InteractiveProfileManaged :: bool
  ri_ForeignManagedRoot :: bool
  ri_ForeignInteractiveProfile :: bool
  ri_UnmanagedOpenAIBaseURL :: bool
  ri_UnmanagedModelCatalog :: bool
  ri_UnmanagedModelProvider :: bool

fun foreign_profiles :: "codex_fs \<Rightarrow> string \<Rightarrow> owner list \<Rightarrow> (codex_error, bool) result" where
  "foreign_profiles fs path [] = Inr False"
| "foreign_profiles fs path (other # os) =
     (let p = InteractiveProfilePathForOwner path other in
      case preflightInteractiveProfilePath fs p of
        Inl e \<Rightarrow> Inl e
      | Inr _ \<Rightarrow>
          (case snapshotOptional fs p of
             Inl e \<Rightarrow> Inl e
           | Inr data \<Rightarrow> map_sum id (\<lambda>b. data \<noteq> None \<or> b) (foreign_profiles fs path os)))"

definition InspectRoutingForOwner :: "codex_fs \<Rightarrow> string \<Rightarrow> owner \<Rightarrow> (codex_error, routing_inspection) result" where
  "InspectRoutingForOwner fs path o1 =
     (case validateOwner o1 of
        Inl e \<Rightarrow> Inl e
      | Inr _ \<Rightarrow> (case readOptional fs path of
        Inl e \<Rightarrow> Inl e
      | Inr content \<Rightarrow>
          let managed = (contains content (ow_BeginMarker o1) \<or> contains content (ow_EndMarker o1)) in
          (case (if managed then removeManagedForOwner content o1 else Inr content) of
             Inl e \<Rightarrow> Inl e
           | Inr withoutManaged \<Rightarrow>
               let p = InteractiveProfilePathForOwner path o1 in
               (case preflightInteractiveProfilePath fs p of
                  Inl e \<Rightarrow> Inl e
                | Inr _ \<Rightarrow> (case snapshotOptional fs p of
                  Inl e \<Rightarrow> Inl e
                | Inr profile \<Rightarrow>
                    if (case profile of Some t \<Rightarrow> \<not> validInteractiveProfile t o1 | None \<Rightarrow> False) then Inl ProfileNotManaged
                    else (case foreign_profiles fs path (other_owners o1) of
                      Inl e \<Rightarrow> Inl e
                    | Inr foreign \<Rightarrow> Inr
                        \<lparr>ri_ManagedRoot = managed, ri_InteractiveProfileExists = (profile \<noteq> None),
                         ri_InteractiveProfileManaged = (profile \<noteq> None),
                         ri_ForeignManagedRoot = foreign_markers withoutManaged o1,
                         ri_ForeignInteractiveProfile = foreign,
                         ri_UnmanagedOpenAIBaseURL = rootKeyExists withoutManaged ''openai_base_url'',
                         ri_UnmanagedModelCatalog = rootKeyExists withoutManaged ''model_catalog_json'',
                         ri_UnmanagedModelProvider =
                           (case rootString withoutManaged ''model_provider'' of Some v \<Rightarrow> v \<noteq> ''openai'' | None \<Rightarrow> False)\<rparr>))))))"

text \<open>The disjunction that the validators share: another relay owns something, or a root key that the
  relay does not own selects a route.\<close>

definition foreign_or_unmanaged :: "routing_inspection \<Rightarrow> bool" where
  "foreign_or_unmanaged i \<longleftrightarrow> ri_ForeignManagedRoot i \<or> ri_ForeignInteractiveProfile i \<or>
     ri_UnmanagedOpenAIBaseURL i \<or> ri_UnmanagedModelCatalog i \<or> ri_UnmanagedModelProvider i"

definition ValidateManagedRoutingForOwner ::
  "codex_fs \<Rightarrow> string \<Rightarrow> owner \<Rightarrow> string \<Rightarrow> string \<Rightarrow> string \<Rightarrow> (codex_error, unit) result" where
  "ValidateManagedRoutingForOwner fs path o1 generalBaseURL interactiveBaseURL catalogPath =
     (case InspectRoutingForOwner fs path o1 of
        Inl e \<Rightarrow> Inl e
      | Inr i \<Rightarrow>
          if \<not> ri_ManagedRoot i \<or> \<not> ri_InteractiveProfileManaged i \<or> foreign_or_unmanaged i then Inl RoutingIncomplete
          else (case readOptional fs path of
            Inl e \<Rightarrow> Inl e
          | Inr content \<Rightarrow>
              (case (index_of (ow_BeginMarker o1) content, index_of (ow_EndMarker o1) content) of
                 (Some start, Some end0) \<Rightarrow>
                   if end0 < start then Inl RootBlockMissing
                   else if take (end0 + length (ow_EndMarker o1) - start) (drop start content) \<noteq>
                           join_with newline (root_block o1 generalBaseURL catalogPath)
                   then Inl RootBlockDrifted
                   else (case fs (InteractiveProfilePathForOwner path o1) of
                           RegularFile m (Some profile) \<Rightarrow>
                             if profile \<noteq> renderInteractiveProfile interactiveBaseURL catalogPath o1
                             then Inl ProfileDrifted else Inr ()
                         | _ \<Rightarrow> Inl ReadFailed)
               | _ \<Rightarrow> Inl RootBlockMissing)))"

definition ValidateNativeRoutingForOwner :: "codex_fs \<Rightarrow> string \<Rightarrow> owner \<Rightarrow> (codex_error, unit) result" where
  "ValidateNativeRoutingForOwner fs path o1 =
     (case InspectRoutingForOwner fs path o1 of
        Inl e \<Rightarrow> Inl e
      | Inr i \<Rightarrow>
          if ri_ManagedRoot i \<or> ri_InteractiveProfileExists i \<or> foreign_or_unmanaged i then Inl NativeDrifted else Inr ())"

definition ValidateExpectedRoutingOwnershipForOwner ::
  "codex_fs \<Rightarrow> string \<Rightarrow> owner \<Rightarrow> bool \<Rightarrow> (codex_error, unit) result" where
  "ValidateExpectedRoutingOwnershipForOwner fs path o1 relayManaged =
     (case InspectRoutingForOwner fs path o1 of
        Inl e \<Rightarrow> Inl e
      | Inr i \<Rightarrow>
          if foreign_or_unmanaged i then Inl OwnershipForeign
          else if relayManaged then
            (if \<not> ri_ManagedRoot i \<or> \<not> ri_InteractiveProfileManaged i then Inl RelayArtifactsChanged else Inr ())
          else if ri_ManagedRoot i \<or> ri_InteractiveProfileExists i \<or> ri_InteractiveProfileManaged i
          then Inl NativeArtifactsChanged else Inr ())"

section \<open>Enabling and disabling\<close>

definition EnableForOwner ::
  "bool \<Rightarrow> codex_fs \<Rightarrow> string \<Rightarrow> owner \<Rightarrow> string \<Rightarrow> string \<Rightarrow> codex_fs \<times> (codex_error, unit) result" where
  "EnableForOwner ok fs path o1 baseURL catalogPath =
     (case readOptional fs path of
        Inl e \<Rightarrow> (fs, Inl e)
      | Inr content \<Rightarrow>
          (case prepareEnableForOwner content o1 baseURL catalogPath of
             Inl e \<Rightarrow> (fs, Inl e)
           | Inr updated \<Rightarrow> atomicWrite ok fs path updated))"

definition PreflightEnableWithInteractiveProfileForOwner ::
  "codex_fs \<Rightarrow> string \<Rightarrow> owner \<Rightarrow> (codex_error, unit) result" where
  "PreflightEnableWithInteractiveProfileForOwner fs path o1 =
     (case validateOwner o1 of
        Inl e \<Rightarrow> Inl e
      | Inr _ \<Rightarrow> (case InspectRoutingForOwner fs path o1 of
        Inl e \<Rightarrow> Inl e
      | Inr i \<Rightarrow>
          if ri_ForeignManagedRoot i \<or> ri_ForeignInteractiveProfile i then Inl OtherInstallation
          else let p = InteractiveProfilePathForOwner path o1 in
            (case preflightInteractiveProfilePath fs p of
               Inl e \<Rightarrow> Inl e
             | Inr _ \<Rightarrow> (case snapshotOptional fs p of
               Inl e \<Rightarrow> Inl e
             | Inr profile \<Rightarrow>
                 if (case profile of Some t \<Rightarrow> \<not> validInteractiveProfile t o1 | None \<Rightarrow> False) then Inl ProfileNotManaged
                 else (case readOptional fs path of
                   Inl e \<Rightarrow> Inl e
                 | Inr content \<Rightarrow> map_sum id (\<lambda>_. ()) (prepareEnableForOwner content o1 [] []))))))"

record enable_io =
  eio_base :: bool
  eio_profile :: bool
  eio_restore :: bool

definition EnableWithInteractiveProfileForOwner ::
  "enable_io \<Rightarrow> codex_fs \<Rightarrow> string \<Rightarrow> owner \<Rightarrow> string \<Rightarrow> string \<Rightarrow> string \<Rightarrow> codex_fs \<times> (codex_error, unit) result" where
  "EnableWithInteractiveProfileForOwner io fs path o1 generalBaseURL interactiveBaseURL catalogPath =
     (case PreflightEnableWithInteractiveProfileForOwner fs path o1 of
        Inl e \<Rightarrow> (fs, Inl e)
      | Inr _ \<Rightarrow> (case snapshotOptional fs path of
        Inl e \<Rightarrow> (fs, Inl e)
      | Inr baseSnapshot \<Rightarrow>
          (case EnableForOwner (eio_base io) fs path o1 generalBaseURL catalogPath of
             (fs1, Inl e) \<Rightarrow> (fs1, Inl e)
           | (fs1, Inr _) \<Rightarrow>
               (case atomicWrite (eio_profile io) fs1 (InteractiveProfilePathForOwner path o1)
                       (renderInteractiveProfile interactiveBaseURL catalogPath o1) of
                  (fs2, Inr _) \<Rightarrow> (fs2, Inr ())
                | (fs2, Inl e) \<Rightarrow>
                    (case restoreOptional (eio_restore io) fs2 path baseSnapshot of
                       (fs3, Inl _) \<Rightarrow> (fs3, Inl RestoreFailed)
                     | (fs3, Inr _) \<Rightarrow> (fs3, Inl e))))))"

definition DisableForOwner :: "bool \<Rightarrow> codex_fs \<Rightarrow> string \<Rightarrow> owner \<Rightarrow> codex_fs \<times> (codex_error, unit) result" where
  "DisableForOwner ok fs path o1 =
     (case snapshotOptional fs path of
        Inl e \<Rightarrow> (fs, Inl e)
      | Inr None \<Rightarrow> (fs, Inr ())
      | Inr (Some content) \<Rightarrow>
          (case removeManagedForOwner content o1 of
             Inl e \<Rightarrow> (fs, Inl e)
           | Inr updated \<Rightarrow> if updated = content then (fs, Inr ()) else atomicWrite ok fs path updated))"

definition DisableWithInteractiveProfileForOwner ::
  "enable_io \<Rightarrow> codex_fs \<Rightarrow> string \<Rightarrow> owner \<Rightarrow> codex_fs \<times> (codex_error, unit) result" where
  "DisableWithInteractiveProfileForOwner io fs path o1 =
     (case InspectRoutingForOwner fs path o1 of
        Inl e \<Rightarrow> (fs, Inl e)
      | Inr i \<Rightarrow>
          if ri_ForeignManagedRoot i \<or> ri_ForeignInteractiveProfile i then (fs, Inl OtherInstallation)
          else let p = InteractiveProfilePathForOwner path o1 in
            (case preflightInteractiveProfilePath fs p of
               Inl e \<Rightarrow> (fs, Inl e)
             | Inr _ \<Rightarrow> (case snapshotOptional fs path of
               Inl e \<Rightarrow> (fs, Inl e)
             | Inr baseSnapshot \<Rightarrow> (case snapshotOptional fs p of
               Inl e \<Rightarrow> (fs, Inl e)
             | Inr profile \<Rightarrow>
                 if (case profile of Some t \<Rightarrow> \<not> validInteractiveProfile t o1 | None \<Rightarrow> False) then (fs, Inl ProfileNotManaged)
                 else (case DisableForOwner (eio_base io) fs path o1 of
                   (fs1, Inl e) \<Rightarrow> (fs1, Inl e)
                 | (fs1, Inr _) \<Rightarrow>
                     if profile = None then (fs1, Inr ())
                     else (case remove_file (eio_profile io) fs1 p of
                             (fs2, Inr _) \<Rightarrow> (fs2, Inr ())
                           | (fs2, Inl e) \<Rightarrow>
                               (case restoreOptional (eio_restore io) fs2 path baseSnapshot of
                                  (fs3, Inl _) \<Rightarrow> (fs3, Inl RestoreFailed)
                                | (fs3, Inr _) \<Rightarrow> (fs3, Inl e))))))))"

definition IsEnabledForOwner :: "codex_fs \<Rightarrow> string \<Rightarrow> owner \<Rightarrow> (codex_error, bool) result" where
  "IsEnabledForOwner fs path o1 = map_sum id (\<lambda>content. contains content (ow_BeginMarker o1)) (readOptional fs path)"

section \<open>Legacy migration\<close>

text \<open>\<open>os.WriteFile\<close> of the backup is not atomic: when it fails it may leave any file behind, the
  argument \<open>Inl left\<close>.\<close>

fun written_file :: "codex_file \<Rightarrow> string \<Rightarrow> codex_file" where
  "written_file NoFile content = RegularFile True (Some content)"
| "written_file NotRegular content = NotRegular"
| "written_file (RegularFile m None) content = RegularFile m None"
| "written_file (RegularFile m (Some old)) content = RegularFile m (Some content)"

definition legacy_backup_path :: "string \<Rightarrow> string \<Rightarrow> string" where
  "legacy_backup_path path stamp = path @ ''.pre-opencodex-relay-'' @ stamp"

definition MigrateLegacy ::
  "string \<Rightarrow> codex_file + unit \<Rightarrow> bool \<Rightarrow> codex_fs \<Rightarrow> string \<Rightarrow> codex_fs \<times> (codex_error, string) result" where
  "MigrateLegacy stamp backupOutcome ok fs path =
     (case readOptional fs path of
        Inl e \<Rightarrow> (fs, Inl e)
      | Inr content \<Rightarrow>
          (case prepareLegacyMigration content of
             Inl e \<Rightarrow> (fs, Inl e)
           | Inr updated \<Rightarrow>
               let backup = legacy_backup_path path stamp in
               (case backupOutcome of
                  Inl left \<Rightarrow> (fs(backup := left), Inl WriteFailed)
                | Inr _ \<Rightarrow>
                    (case atomicWrite ok (fs(backup := written_file (fs backup) content)) path updated of
                       (fs1, Inl e) \<Rightarrow> (fs1, Inl e)
                     | (fs1, Inr _) \<Rightarrow> (fs1, Inr backup)))))"

definition PreflightLegacyMigration :: "codex_fs \<Rightarrow> string \<Rightarrow> (codex_error, unit) result" where
  "PreflightLegacyMigration fs path =
     (case readOptional fs path of
        Inl e \<Rightarrow> Inl e
      | Inr content \<Rightarrow> map_sum id (\<lambda>_. ()) (prepareLegacyMigration content))"

text \<open>The result is \<open>RequiresMigration\<close>.\<close>

definition PlanLegacyMigrationWithInteractiveProfileForOwner ::
  "codex_fs \<Rightarrow> string \<Rightarrow> owner \<Rightarrow> (codex_error, bool) result" where
  "PlanLegacyMigrationWithInteractiveProfileForOwner fs path o1 =
     (case validateOwner o1 of
        Inl e \<Rightarrow> Inl e
      | Inr _ \<Rightarrow>
          (case PreflightLegacyMigration fs path of
             Inl _ \<Rightarrow> (case PreflightEnableWithInteractiveProfileForOwner fs path o1 of Inl e \<Rightarrow> Inl e | Inr _ \<Rightarrow> Inr False)
           | Inr _ \<Rightarrow>
               let p = InteractiveProfilePathForOwner path o1 in
               (case preflightInteractiveProfilePath fs p of
                  Inl e \<Rightarrow> Inl e
                | Inr _ \<Rightarrow>
                    (case snapshotOptional fs p of
                       Inl e \<Rightarrow> Inl e
                     | Inr (Some _) \<Rightarrow> Inl ProfileNeedsReview
                     | Inr None \<Rightarrow> Inr True))))"

definition restoreLegacyMigrationBackup ::
  "bool \<Rightarrow> codex_fs \<Rightarrow> string \<Rightarrow> string \<Rightarrow> codex_fs \<times> (codex_error, unit) result" where
  "restoreLegacyMigrationBackup ok fs path backup =
     (if backup = [] \<or> filepath_Dir backup \<noteq> filepath_Dir path \<or>
         \<not> has_prefix (filepath_Base backup) (filepath_Base path @ ''.pre-opencodex-relay-'')
      then (fs, Inl BackupInvalid)
      else (case fs backup of
              RegularFile True (Some payload) \<Rightarrow> atomicWrite ok fs path payload
            | RegularFile True None \<Rightarrow> (fs, Inl ReadFailed)
            | _ \<Rightarrow> (fs, Inl BackupUnavailable)))"

definition EnableWithLegacyMigrationForOwner ::
  "string \<Rightarrow> codex_file + unit \<Rightarrow> bool \<Rightarrow> enable_io \<Rightarrow> bool \<Rightarrow> codex_fs \<Rightarrow> string \<Rightarrow> owner \<Rightarrow>
   string \<Rightarrow> string \<Rightarrow> string \<Rightarrow> codex_fs \<times> (codex_error, string) result" where
  "EnableWithLegacyMigrationForOwner stamp backupOutcome okMigrate io okRestore fs path o1 generalBaseURL interactiveBaseURL catalogPath =
     (case PlanLegacyMigrationWithInteractiveProfileForOwner fs path o1 of
        Inl e \<Rightarrow> (fs, Inl e)
      | Inr False \<Rightarrow> map_prod id (map_sum id (\<lambda>_. []))
          (EnableWithInteractiveProfileForOwner io fs path o1 generalBaseURL interactiveBaseURL catalogPath)
      | Inr True \<Rightarrow>
          (case MigrateLegacy stamp backupOutcome okMigrate fs path of
             (fs1, Inl e) \<Rightarrow> (fs1, Inl e)
           | (fs1, Inr backup) \<Rightarrow>
               (case EnableWithInteractiveProfileForOwner io fs1 path o1 generalBaseURL interactiveBaseURL catalogPath of
                  (fs2, Inr _) \<Rightarrow> (fs2, Inr backup)
                | (fs2, Inl e) \<Rightarrow>
                    (case restoreLegacyMigrationBackup okRestore fs2 path backup of
                       (fs3, Inl _) \<Rightarrow> (fs3, Inl RestoreFailed)
                     | (fs3, Inr _) \<Rightarrow> (fs3, Inl e)))))"

section \<open>The text of the managed block\<close>

named_theorems codex_text "facts on the text of the Codex configuration"

definition flat_lines :: "string list \<Rightarrow> string" where
  "flat_lines ls = concat (map (\<lambda>l. l @ [newline]) ls)"

text \<open>A value that can be written into the block: one line that does not itself end the block.\<close>

definition block_value :: "owner \<Rightarrow> string \<Rightarrow> bool" where
  "block_value o1 v \<longleftrightarrow> newline \<notin> set v \<and> carriage \<notin> set v \<and> \<not> contains (escapeTOML v) (ow_EndMarker o1)"

definition marker_free :: "owner \<Rightarrow> string \<Rightarrow> bool" where
  "marker_free o1 t \<longleftrightarrow> \<not> contains t (ow_BeginMarker o1) \<and> \<not> contains t (ow_EndMarker o1)"

lemma owner_ids [simp]: "ow_ID ProductionOwner = ''production''" "ow_ID LocalDevelopmentOwner = ''local_development''"
  by (simp_all add: ProductionOwner_def LocalDevelopmentOwner_def)

lemma validateOwner_iff: "validateOwner o1 = Inr () \<longleftrightarrow> o1 = ProductionOwner \<or> o1 = LocalDevelopmentOwner"
  by (auto simp: validateOwner_def OwnerForID_def)

lemma validateOwner_unit: "validateOwner o1 = Inr u \<longleftrightarrow> o1 = ProductionOwner \<or> o1 = LocalDevelopmentOwner"
  using validateOwner_iff [of o1] by simp

lemma other_owners_known:
  "other_owners ProductionOwner = [LocalDevelopmentOwner]" "other_owners LocalDevelopmentOwner = [ProductionOwner]"
  by (auto simp: other_owners_def knownOwners_def)

lemma marker_shape:
  assumes "validateOwner o1 = Inr ()"
  shows "newline \<notin> set (ow_BeginMarker o1)" "newline \<notin> set (ow_EndMarker o1)"
    "carriage \<notin> set (ow_BeginMarker o1)" "carriage \<notin> set (ow_EndMarker o1)"
    "CHR 0x22 \<notin> set (ow_EndMarker o1)" "ow_BeginMarker o1 \<noteq> []" "ow_EndMarker o1 \<noteq> []"
    "newline \<notin> set (ow_InteractiveProfileMarker o1)" "carriage \<notin> set (ow_InteractiveProfileMarker o1)"
  using assms by (auto simp: validateOwner_iff ProductionOwner_def LocalDevelopmentOwner_def newline_def carriage_def)

lemma begin_has_no_end: "validateOwner o1 = Inr () \<Longrightarrow> \<not> contains (ow_BeginMarker o1) (ow_EndMarker o1)"
  by (auto simp: validateOwner_iff ProductionOwner_def LocalDevelopmentOwner_def contains_def)

lemma escapeTOML_set: "c \<in> set (escapeTOML v) \<Longrightarrow> c \<in> set v \<or> c = CHR 0x5C \<or> c = CHR 0x22"
  by (auto simp: escapeTOML_def split: if_splits)

lemma escapeTOML_chars:
  "newline \<notin> set v \<Longrightarrow> newline \<notin> set (escapeTOML v)" "carriage \<notin> set v \<Longrightarrow> carriage \<notin> set (escapeTOML v)"
  using escapeTOML_set [of newline v] escapeTOML_set [of carriage v] by (auto simp: newline_def carriage_def)

lemma quoted_contains:
  assumes "CHR 0x22 \<notin> set needle" "needle \<noteq> []" "\<not> contains key needle"
  shows "contains (key @ [CHR 0x22] @ v @ [CHR 0x22]) needle \<longleftrightarrow> contains v needle"
proof -
  have "contains (v @ CHR 0x22 # []) needle \<longleftrightarrow> contains v needle \<or> contains [] needle"
    by (rule contains_sep [OF assms(1,2)])
  moreover have "contains (key @ CHR 0x22 # (v @ [CHR 0x22])) needle \<longleftrightarrow> contains key needle \<or> contains (v @ [CHR 0x22]) needle"
    by (rule contains_sep [OF assms(1,2)])
  moreover have "\<not> contains [] needle" using assms(2) by (simp add: contains_def)
  ultimately show ?thesis using assms(3) by simp
qed

lemma join_flat: "ys \<noteq> [] \<Longrightarrow> join_with newline (xs @ ys) = flat_lines xs @ join_with newline ys"
  by (induction xs) (auto simp: flat_lines_def join_with_Cons)

lemma index_of_flat:
  assumes "newline \<notin> set needle" "needle \<noteq> []" "\<forall>l \<in> set xs. \<not> contains l needle"
  shows "index_of needle (flat_lines xs @ s) = map_option (\<lambda>k. length (flat_lines xs) + k) (index_of needle s)"
  using assms(3)
proof (induction xs)
  case Nil
  then show ?case by (simp add: flat_lines_def option.map_ident)
next
  case (Cons x xs)
  have "index_of needle (x @ newline # (flat_lines xs @ s)) =
    map_option (\<lambda>k. length x + 1 + k) (index_of needle (flat_lines xs @ s))"
    using index_of_sep [OF assms(1,2), of x "flat_lines xs @ s"] Cons.prems
    by (cases "index_of needle (flat_lines xs @ s)") (simp_all add: contains_def)
  moreover have "index_of needle (flat_lines xs @ s) = map_option (\<lambda>k. length (flat_lines xs) + k) (index_of needle s)"
    using Cons by simp
  moreover have "flat_lines (x # xs) @ s = x @ newline # (flat_lines xs @ s)" by (simp add: flat_lines_def)
  moreover have "length (flat_lines (x # xs)) = length x + 1 + length (flat_lines xs)" by (simp add: flat_lines_def)
  ultimately show ?case by (cases "index_of needle s") simp_all
qed

lemma block_line_end_free:
  assumes "validateOwner o1 = Inr ()" "block_value o1 v"
  shows "\<not> contains (''openai_base_url = '' @ [CHR 0x22] @ escapeTOML v @ [CHR 0x22]) (ow_EndMarker o1)"
    "\<not> contains (''model_catalog_json = '' @ [CHR 0x22] @ escapeTOML v @ [CHR 0x22]) (ow_EndMarker o1)"
proof -
  have "CHR ''#'' \<in> set (ow_EndMarker o1)"
    using assms(1) by (auto simp: validateOwner_iff ProductionOwner_def LocalDevelopmentOwner_def)
  then have "\<not> contains ''openai_base_url = '' (ow_EndMarker o1)" "\<not> contains ''model_catalog_json = '' (ow_EndMarker o1)"
    using contains_needs [of "''openai_base_url = ''" "ow_EndMarker o1"] contains_needs [of "''model_catalog_json = ''" "ow_EndMarker o1"]
    by auto
  then show "\<not> contains (''openai_base_url = '' @ [CHR 0x22] @ escapeTOML v @ [CHR 0x22]) (ow_EndMarker o1)"
    "\<not> contains (''model_catalog_json = '' @ [CHR 0x22] @ escapeTOML v @ [CHR 0x22]) (ow_EndMarker o1)"
    using quoted_contains [OF marker_shape(5,7)] assms by (auto simp only: block_value_def)
qed

lemma root_block_text:
  "join_with newline (root_block o1 b k) = flat_lines (butlast (root_block o1 b k)) @ ow_EndMarker o1"
  by (simp add: root_block_def flat_lines_def)

definition after_block :: "string list \<Rightarrow> string" where
  "after_block post = (if post = [] then [] else newline # join_with newline post)"

lemma inserted_text:
  "join_with newline (pre @ root_block o1 b k @ post) = flat_lines pre @ join_with newline (root_block o1 b k) @ after_block post"
proof -
  have "root_block o1 b k = butlast (root_block o1 b k) @ [ow_EndMarker o1]" by (simp add: root_block_def)
  moreover have "join_with newline ([ow_EndMarker o1] @ post) = ow_EndMarker o1 @ after_block post"
    by (cases post) (simp_all add: after_block_def)
  moreover have "join_with newline (pre @ (butlast (root_block o1 b k) @ [ow_EndMarker o1]) @ post) =
    flat_lines pre @ join_with newline (butlast (root_block o1 b k) @ ([ow_EndMarker o1] @ post))"
    by (simp add: join_flat)
  moreover have "join_with newline (butlast (root_block o1 b k) @ ([ow_EndMarker o1] @ post)) =
    flat_lines (butlast (root_block o1 b k)) @ join_with newline ([ow_EndMarker o1] @ post)"
    by (rule join_flat) simp
  ultimately show ?thesis by (simp add: root_block_text)
qed

lemma block_located:
  assumes "validateOwner o1 = Inr ()" "block_value o1 b" "block_value o1 k" "\<forall>l \<in> set pre. marker_free o1 l"
  shows "index_of (ow_BeginMarker o1) (flat_lines pre @ join_with newline (root_block o1 b k) @ s) = Some (length (flat_lines pre))"
    "index_of (ow_EndMarker o1) (flat_lines pre @ join_with newline (root_block o1 b k) @ s) =
       Some (length (flat_lines pre) + length (flat_lines (butlast (root_block o1 b k))))"
proof -
  obtain r where "join_with newline (root_block o1 b k) = ow_BeginMarker o1 @ r" by (simp add: root_block_def)
  then have "index_of (ow_BeginMarker o1) (join_with newline (root_block o1 b k) @ s) = Some 0"
    using index_of_first [of "[]" "ow_BeginMarker o1" "r @ s"] by simp
  then show "index_of (ow_BeginMarker o1) (flat_lines pre @ join_with newline (root_block o1 b k) @ s) = Some (length (flat_lines pre))"
    using index_of_flat [OF marker_shape(1,6) [OF assms(1)], of pre] assms(4) by (simp add: marker_free_def)
  have "\<forall>l \<in> set (butlast (root_block o1 b k)). \<not> contains l (ow_EndMarker o1)"
    using block_line_end_free [OF assms(1,2)] block_line_end_free [OF assms(1,3)] begin_has_no_end [OF assms(1)]
    by (auto simp: root_block_def)
  then have "index_of (ow_EndMarker o1) (flat_lines (butlast (root_block o1 b k)) @ (ow_EndMarker o1 @ s)) =
    Some (length (flat_lines (butlast (root_block o1 b k))))"
    using index_of_flat [OF marker_shape(2,7) [OF assms(1)], of "butlast (root_block o1 b k)" "ow_EndMarker o1 @ s"]
      index_of_first [of "[]" "ow_EndMarker o1" s] by simp
  then show "index_of (ow_EndMarker o1) (flat_lines pre @ join_with newline (root_block o1 b k) @ s) =
    Some (length (flat_lines pre) + length (flat_lines (butlast (root_block o1 b k))))"
    using index_of_flat [OF marker_shape(2,7) [OF assms(1)], of pre] assms(4) by (simp add: marker_free_def root_block_text)
qed

lemma block_removed:
  assumes "validateOwner o1 = Inr ()" "block_value o1 b" "block_value o1 k" "\<forall>l \<in> set pre. marker_free o1 l"
  shows "removeManagedForOwner (flat_lines pre @ join_with newline (root_block o1 b k) @ after_block post) o1 =
    Inr (flat_lines pre @ join_with newline post)"
proof -
  let ?u = "flat_lines pre @ join_with newline (root_block o1 b k) @ after_block post"
  let ?n = "length (flat_lines pre) + length (flat_lines (butlast (root_block o1 b k))) + length (ow_EndMarker o1)"
  have n: "?n = length (flat_lines pre @ join_with newline (root_block o1 b k))" by (simp add: root_block_text)
  have rest: "drop ?n ?u = after_block post" unfolding n by simp
  have take: "take (length (flat_lines pre)) ?u = flat_lines pre" by simp
  note at = block_located [OF assms, of "after_block post"]
  show ?thesis
  proof (cases "post = []")
    case True
    then show ?thesis using at assms(1) rest take
      by (simp add: removeManagedForOwner_def after_block_def Let_def n)
  next
    case False
    then have nl: "after_block post = newline # join_with newline post" by (simp add: after_block_def)
    have "?u ! ?n = newline" "?n < length ?u" unfolding n nl by (simp_all add: nth_append)
    moreover have "drop (?n + 1) ?u = join_with newline post" unfolding n nl by (simp add: drop_append)
    ultimately show ?thesis using at assms(1) rest take nl
      by (simp add: removeManagedForOwner_def Let_def del: drop_append length_append)
  qed
qed

lemma split_around_table: "split_on newline c = takeWhile (\<lambda>l. \<not> is_table l) (split_on newline c) @ dropWhile (\<lambda>l. \<not> is_table l) (split_on newline c)"
  by simp

lemma removed_user_text:
  assumes "pre @ post = split_on newline c"
  shows "flat_lines pre @ join_with newline post = (if post = [] then c @ [newline] else c)"
proof (cases "post = []")
  case True
  then have "pre = split_on newline c" using assms by simp
  moreover have "flat_lines xs = join_with newline xs @ [newline]" if "xs \<noteq> []" for xs
    using that by (induction xs rule: list_nonempty_induct) (auto simp: flat_lines_def join_with_Cons)
  ultimately have "flat_lines pre = c @ [newline]" using join_split [of newline c] by simp
  then show ?thesis using True by simp
next
  case False
  then show ?thesis using join_flat [of post pre] join_split [of newline c] assms by simp
qed

lemma marker_free_lines:
  assumes "validateOwner o1 = Inr ()" "marker_free o1 c" "l \<in> set (split_on newline c)"
  shows "marker_free o1 l"
  using assms contains_join [OF marker_shape(1,6) [OF assms(1)], of "split_on newline c"]
    contains_join [OF marker_shape(2,7) [OF assms(1)], of "split_on newline c"]
  by (auto simp: marker_free_def join_split)

lemma rootAssignment_newline: "key \<noteq> [] \<Longrightarrow> rootAssignment (c @ [newline]) key = rootAssignment c key"
proof -
  assume "key \<noteq> []"
  then have "\<not> has_prefix [] key" by (cases key) auto
  then have "rootAssignmentLines key (ls @ [[]]) = rootAssignmentLines key ls" for ls
    by (induction ls) (simp_all add: Let_def)
  then show ?thesis using split_on_append [of newline c "[]"] by (simp add: rootAssignment_def)
qed

lemma prepareEnable_cases:
  assumes "prepareEnableForOwner content o1 b k = Inr u"
  obtains c where "validateOwner o1 = Inr ()" "\<not> foreign_markers content o1" "removeManagedForOwner content o1 = Inr c"
    "\<not> rootKeyExists c ''openai_base_url''" "\<not> rootKeyExists c ''model_catalog_json''"
    "rootString c ''model_provider'' \<in> {None, Some ''openai''}"
    "u = join_with newline (insert_block (root_block o1 b k) (split_on newline c))"
  using assms by (auto simp: prepareEnableForOwner_def split: sum.splits if_splits option.splits)

lemma insert_block_text:
  "join_with newline (insert_block (root_block o1 b k) (split_on newline c)) =
     flat_lines (takeWhile (\<lambda>l. \<not> is_table l) (split_on newline c)) @ join_with newline (root_block o1 b k) @
     after_block (dropWhile (\<lambda>l. \<not> is_table l) (split_on newline c))"
  unfolding insert_block_def by (rule inserted_text)

lemma no_table_iff: "dropWhile (\<lambda>l. \<not> is_table l) ls = [] \<longleftrightarrow> \<not> list_ex is_table ls"
  by (auto simp: dropWhile_eq_Nil_conv list_ex_iff)

definition user_text :: "string \<Rightarrow> string" where
  "user_text c = (if list_ex is_table (split_on newline c) then c else c @ [newline])"

lemma enabled_text:
  assumes "validateOwner o1 = Inr ()" "block_value o1 b" "block_value o1 k" "marker_free o1 c"
    and "u = join_with newline (insert_block (root_block o1 b k) (split_on newline c))"
  shows "removeManagedForOwner u o1 = Inr (user_text c)"
    "\<exists>start. index_of (ow_BeginMarker o1) u = Some start \<and>
       index_of (ow_EndMarker o1) u = Some (start + length (flat_lines (butlast (root_block o1 b k)))) \<and>
       take (length (join_with newline (root_block o1 b k))) (drop start u) = join_with newline (root_block o1 b k)"
proof -
  let ?pre = "takeWhile (\<lambda>l. \<not> is_table l) (split_on newline c)" and ?post = "dropWhile (\<lambda>l. \<not> is_table l) (split_on newline c)"
  have pre: "\<forall>l \<in> set ?pre. marker_free o1 l"
    using marker_free_lines [OF assms(1,4)] by (auto dest: set_takeWhileD)
  have u: "u = flat_lines ?pre @ join_with newline (root_block o1 b k) @ after_block ?post"
    using assms(5) insert_block_text by simp
  show "removeManagedForOwner u o1 = Inr (user_text c)"
    unfolding u block_removed [OF assms(1-3) pre] removed_user_text [of ?pre ?post c, simplified]
    by (auto simp: user_text_def list_ex_iff)
  show "\<exists>start. index_of (ow_BeginMarker o1) u = Some start \<and>
       index_of (ow_EndMarker o1) u = Some (start + length (flat_lines (butlast (root_block o1 b k)))) \<and>
       take (length (join_with newline (root_block o1 b k))) (drop start u) = join_with newline (root_block o1 b k)"
    using block_located [OF assms(1-3) pre, of "after_block ?post"] unfolding u by simp
qed

lemma user_text_reads: "key \<noteq> [] \<Longrightarrow> rootAssignment (user_text c) key = rootAssignment c key"
  by (simp add: user_text_def rootAssignment_newline)

text \<open>C26: enabling the relay edits only its own block. From the text that \<open>prepareEnable\<close> produces,
  \<open>removeManaged\<close> gives back the user's text byte for byte if that text has a TOML table; without a
  table one newline is added after it, so enabling again and again grows the file. In both cases
  every root key reads as before.\<close>

theorem prepareEnable_preserves_user_text:
  assumes "prepareEnableForOwner content o1 baseURL catalogPath = Inr updated"
    and "removeManagedForOwner content o1 = Inr user" "marker_free o1 user"
    and "block_value o1 baseURL" "block_value o1 catalogPath"
  shows "removeManagedForOwner updated o1 =
      Inr (if list_ex is_table (split_on newline user) then user else user @ [newline]) \<and>
    (\<forall>key. key \<noteq> [] \<longrightarrow>
      rootAssignment (if list_ex is_table (split_on newline user) then user else user @ [newline]) key = rootAssignment user key)"
proof -
  obtain c where "validateOwner o1 = Inr ()" "removeManagedForOwner content o1 = Inr c"
    "updated = join_with newline (insert_block (root_block o1 baseURL catalogPath) (split_on newline c))"
    by (rule prepareEnable_cases [OF assms(1)])
  then have "removeManagedForOwner updated o1 = Inr (user_text user)"
    using enabled_text(1) assms(2-5) by simp
  then show ?thesis using user_text_reads by (simp add: user_text_def rootAssignment_newline)
qed

theorem prepareEnable_preserves_user_text_witness:
  "let user = ''model = '' @ [CHR 0x22, CHR ''o'', CHR 0x22, newline] @ ''[tui]'';
       updated = ''model = '' @ [CHR 0x22, CHR ''o'', CHR 0x22, newline] @
         join_with newline (root_block ProductionOwner ''http://127.0.0.1:1/v1'' ''/c.json'') @ newline # ''[tui]''
   in prepareEnableForOwner user ProductionOwner ''http://127.0.0.1:1/v1'' ''/c.json'' = Inr updated \<and>
      removeManagedForOwner updated ProductionOwner = Inr user"
proof -
  let ?user = "''model = '' @ [CHR 0x22, CHR ''o'', CHR 0x22, newline] @ ''[tui]''"
  let ?updated = "''model = '' @ [CHR 0x22, CHR ''o'', CHR 0x22, newline] @
    join_with newline (root_block ProductionOwner ''http://127.0.0.1:1/v1'' ''/c.json'') @ newline # ''[tui]''"
  have 1: "prepareEnableForOwner ?user ProductionOwner ''http://127.0.0.1:1/v1'' ''/c.json'' = Inr ?updated" by code_simp
  have 2: "removeManagedForOwner ?user ProductionOwner = Inr ?user" by code_simp
  have 3: "marker_free ProductionOwner ?user" "block_value ProductionOwner ''http://127.0.0.1:1/v1''"
    "block_value ProductionOwner ''/c.json''" "list_ex is_table (split_on newline ?user)" by code_simp+
  show ?thesis using prepareEnable_preserves_user_text [OF 1 2 3(1-3)] 1 3(4) by (simp add: Let_def)
qed

section \<open>The profile path\<close>

lemma clean_comps_snoc:
  "plain_comp f \<Longrightarrow> clean_comps rooted (xs @ [f]) = clean_comps rooted xs @ [f]"
  by (simp add: clean_comps_def clean_step_def plain_comp_def)

lemma join_snoc: "join_with c (xs @ [f]) = concat (map (\<lambda>x. x @ [c]) xs) @ f"
  by (induction xs) (auto simp: join_with_Cons)

lemma Clean_snoc:
  assumes "plain_comp f" "a \<noteq> []"
  shows "filepath_Clean (a @ slash # f) =
    (if has_prefix a [slash] then [slash] else []) @ concat (map (\<lambda>x. x @ [slash]) (clean_comps (has_prefix a [slash]) (split_on slash a))) @ f"
proof -
  have "split_on slash (a @ slash # f) = split_on slash a @ [f]"
    using split_on_append [of slash a f] assms(1) by (simp add: split_on_no_sep plain_comp_def)
  moreover have "has_prefix (a @ slash # f) [slash] = has_prefix a [slash]" using assms(2) by (cases a) auto
  ultimately show ?thesis using assms(1) by (simp add: filepath_Clean_def Let_def clean_comps_snoc join_snoc)
qed

lemma Clean_nonempty: "filepath_Clean p \<noteq> []"
proof -
  have parts: "list_all (\<lambda>c. c \<noteq> []) (foldl (clean_step rooted) out comps)"
    if "list_all (\<lambda>c. c \<noteq> []) out" for rooted out comps
    using that
  proof (induction comps arbitrary: out)
    case (Cons x xs)
    have "list_all (\<lambda>c. c \<noteq> []) (clean_step rooted out x)"
      using Cons.prems by (auto simp: clean_step_def split: list.splits)
    then show ?case using Cons.IH by simp
  qed simp
  have "join_with slash cs \<noteq> []" if "cs \<noteq> []" "list_all (\<lambda>c. c \<noteq> []) cs" for cs
    using that by (cases cs; cases "tl cs") auto
  moreover have "list_all (\<lambda>c. c \<noteq> []) (clean_comps (has_prefix p [slash]) (split_on slash p))"
    using parts [of "[]"] by (simp add: clean_comps_def list_all_rev)
  ultimately show ?thesis by (auto simp: filepath_Clean_def Let_def)
qed

lemma profile_filenames: "validateOwner o1 = Inr () \<Longrightarrow> plain_comp (ow_InteractiveProfileFilename o1)"
  by (auto simp: validateOwner_iff ProductionOwner_def LocalDevelopmentOwner_def plain_comp_def slash_def)

lemma profile_paths_differ:
  "InteractiveProfilePathForOwner path ProductionOwner \<noteq> InteractiveProfilePathForOwner path LocalDevelopmentOwner"
proof -
  let ?p = "ow_InteractiveProfileFilename ProductionOwner" and ?d = "ow_InteractiveProfileFilename LocalDevelopmentOwner"
  have "plain_comp ?p" "plain_comp ?d" using profile_filenames validateOwner_iff by auto
  moreover have "?p \<noteq> ?d" by (simp add: ProductionOwner_def LocalDevelopmentOwner_def)
  moreover have "?p \<noteq> []" "?d \<noteq> []" by (simp_all add: ProductionOwner_def LocalDevelopmentOwner_def)
  moreover have "filepath_Dir path \<noteq> []" by (simp add: filepath_Dir_def Clean_nonempty)
  ultimately show ?thesis
    by (simp add: InteractiveProfilePathForOwner_def filepath_Join_def Clean_snoc)
qed

section \<open>Files after an update\<close>

text \<open>The Codex file is none of the profile files.\<close>

definition config_leaf :: "string \<Rightarrow> bool" where
  "config_leaf path \<longleftrightarrow> path \<noteq> [] \<and> list_all (\<lambda>o1. path \<noteq> InteractiveProfilePathForOwner path o1) knownOwners"

lemma profile_path_nonempty: "validateOwner o1 = Inr () \<Longrightarrow> InteractiveProfilePathForOwner path o1 \<noteq> []"
  by (auto simp: InteractiveProfilePathForOwner_def filepath_Join_def Clean_nonempty filepath_Dir_def)

lemma file_access_cong:
  assumes "fs p = fs' p"
  shows "snapshotOptional fs p = snapshotOptional fs' p" "readOptional fs p = readOptional fs' p"
    "preflightInteractiveProfilePath fs p = preflightInteractiveProfilePath fs' p"
  unfolding snapshotOptional_def readOptional_def preflightInteractiveProfilePath_def PreflightCodexConfigPath_def assms
  by (rule refl)+

lemma foreign_profiles_cong:
  "(\<And>o1. o1 \<in> set os \<Longrightarrow> fs (InteractiveProfilePathForOwner path o1) = fs' (InteractiveProfilePathForOwner path o1)) \<Longrightarrow>
   foreign_profiles fs path os = foreign_profiles fs' path os"
proof (induction os)
  case (Cons a os)
  then have same: "fs (InteractiveProfilePathForOwner path a) = fs' (InteractiveProfilePathForOwner path a)" by simp
  note access = file_access_cong [where fs = fs and fs' = fs' and p = "InteractiveProfilePathForOwner path a", OF same]
  have rest: "foreign_profiles fs path os = foreign_profiles fs' path os" using Cons by simp
  show ?case unfolding foreign_profiles.simps Let_def access rest by (rule refl)
qed simp

lemma other_profile_kept:
  assumes "validateOwner o1 = Inr ()" "config_leaf path" "other \<in> set (other_owners o1)"
  shows "InteractiveProfilePathForOwner path other \<noteq> path"
    "InteractiveProfilePathForOwner path other \<noteq> InteractiveProfilePathForOwner path o1"
  using assms profile_paths_differ [of path]
  by (auto simp: validateOwner_iff other_owners_known config_leaf_def knownOwners_def)

lemma foreign_profiles_frame:
  assumes "validateOwner o1 = Inr ()" "config_leaf path"
    and "\<And>q. q \<noteq> path \<Longrightarrow> q \<noteq> InteractiveProfilePathForOwner path o1 \<Longrightarrow> fs' q = fs q"
  shows "foreign_profiles fs' path (other_owners o1) = foreign_profiles fs path (other_owners o1)"
  using other_profile_kept [OF assms(1,2)] assms(3) by (intro foreign_profiles_cong) auto

lemma profile_valid:
  assumes "validateOwner o1 = Inr ()" "newline \<notin> set b" "carriage \<notin> set b" "newline \<notin> set k" "carriage \<notin> set k"
  shows "validInteractiveProfile (renderInteractiveProfile b k o1) o1"
proof -
  let ?ls = "[ow_InteractiveProfileMarker o1, ''openai_base_url = '' @ [CHR 0x22] @ escapeTOML b @ [CHR 0x22],
        ''model_catalog_json = '' @ [CHR 0x22] @ escapeTOML k @ [CHR 0x22]]"
  have "carriage \<notin> set (renderInteractiveProfile b k o1)"
    using marker_shape(9) [OF assms(1)] escapeTOML_chars(2) assms
    by (auto simp: renderInteractiveProfile_def carriage_def newline_def)
  then have r: "replace_all [carriage, newline] [newline] (renderInteractiveProfile b k o1) = renderInteractiveProfile b k o1"
    by (intro replace_all_absent) simp
  have t: "trim_suffix (renderInteractiveProfile b k o1) [newline] = join_with newline ?ls"
    unfolding renderInteractiveProfile_def by (rule trim_suffix_append)
  have "list_all (\<lambda>l. newline \<notin> set l) ?ls"
    using marker_shape(8) [OF assms(1)] escapeTOML_chars(1) [of b] escapeTOML_chars(1) [of k] assms by (auto simp: newline_def)
  then have s: "split_on newline (join_with newline ?ls) = ?ls" by (intro split_join) auto
  show ?thesis unfolding validInteractiveProfile_def r t s by (simp add: has_suffix_def)
qed

definition inspection_of :: "owner \<Rightarrow> string \<Rightarrow> string \<Rightarrow> string option \<Rightarrow> bool \<Rightarrow> routing_inspection" where
  "inspection_of o1 content w profile foreign =
     \<lparr>ri_ManagedRoot = (contains content (ow_BeginMarker o1) \<or> contains content (ow_EndMarker o1)),
      ri_InteractiveProfileExists = (profile \<noteq> None), ri_InteractiveProfileManaged = (profile \<noteq> None),
      ri_ForeignManagedRoot = foreign_markers w o1, ri_ForeignInteractiveProfile = foreign,
      ri_UnmanagedOpenAIBaseURL = rootKeyExists w ''openai_base_url'',
      ri_UnmanagedModelCatalog = rootKeyExists w ''model_catalog_json'',
      ri_UnmanagedModelProvider = (case rootString w ''model_provider'' of Some v \<Rightarrow> v \<noteq> ''openai'' | None \<Rightarrow> False)\<rparr>"

lemma removeManaged_unmarked:
  "validateOwner o1 = Inr () \<Longrightarrow> \<not> contains content (ow_BeginMarker o1) \<Longrightarrow> \<not> contains content (ow_EndMarker o1) \<Longrightarrow>
   removeManagedForOwner content o1 = Inr content"
  by (simp add: removeManagedForOwner_def contains_def)

lemma Inspect_iff:
  "InspectRoutingForOwner fs path o1 = Inr i \<longleftrightarrow>
     validateOwner o1 = Inr () \<and>
     (\<exists>content w profile foreign. readOptional fs path = Inr content \<and> removeManagedForOwner content o1 = Inr w \<and>
        preflightInteractiveProfilePath fs (InteractiveProfilePathForOwner path o1) = Inr () \<and>
        snapshotOptional fs (InteractiveProfilePathForOwner path o1) = Inr profile \<and>
        (\<forall>t. profile = Some t \<longrightarrow> validInteractiveProfile t o1) \<and>
        foreign_profiles fs path (other_owners o1) = Inr foreign \<and> i = inspection_of o1 content w profile foreign)"
proof (cases "\<exists>content. validateOwner o1 = Inr () \<and> readOptional fs path = Inr content")
  case False
  then show ?thesis by (auto simp: InspectRoutingForOwner_def split: sum.splits)
next
  case True
  then obtain content where v: "validateOwner o1 = Inr ()" and c: "readOptional fs path = Inr content" by auto
  have m: "(if contains content (ow_BeginMarker o1) \<or> contains content (ow_EndMarker o1)
     then removeManagedForOwner content o1 else Inr content) = removeManagedForOwner content o1"
    using removeManaged_unmarked [OF v] by auto
  show ?thesis
    unfolding InspectRoutingForOwner_def Let_def
    by (cases "removeManagedForOwner content o1";
        cases "preflightInteractiveProfilePath fs (InteractiveProfilePathForOwner path o1)";
        cases "snapshotOptional fs (InteractiveProfilePathForOwner path o1)";
        cases "foreign_profiles fs path (other_owners o1)")
      (auto simp: v c m inspection_of_def split: option.splits)
qed

lemma not_foreign_iff:
  "\<not> foreign_or_unmanaged (inspection_of o1 content w profile foreign) \<longleftrightarrow>
     \<not> foreign_markers w o1 \<and> \<not> foreign \<and> \<not> rootKeyExists w ''openai_base_url'' \<and>
     \<not> rootKeyExists w ''model_catalog_json'' \<and> rootString w ''model_provider'' \<in> {None, Some ''openai''}"
  by (auto simp: foreign_or_unmanaged_def inspection_of_def split: option.splits)

lemma user_text_same:
  assumes "validateOwner o1 = Inr ()"
  shows "rootKeyExists (user_text c) ''openai_base_url'' = rootKeyExists c ''openai_base_url''"
    "rootKeyExists (user_text c) ''model_catalog_json'' = rootKeyExists c ''model_catalog_json''"
    "rootString (user_text c) ''model_provider'' = rootString c ''model_provider''"
    "foreign_markers (user_text c) o1 = foreign_markers c o1"
proof -
  show "rootKeyExists (user_text c) ''openai_base_url'' = rootKeyExists c ''openai_base_url''"
    "rootKeyExists (user_text c) ''model_catalog_json'' = rootKeyExists c ''model_catalog_json''"
    "rootString (user_text c) ''model_provider'' = rootString c ''model_provider''"
    unfolding rootKeyExists_def rootString_def by (simp_all add: user_text_reads)
  have "contains (c @ [newline]) m \<longleftrightarrow> contains c m" if "newline \<notin> set m" "m \<noteq> []" for m
    using contains_sep [OF that, of c "[]"] that by (simp add: contains_def)
  then show "foreign_markers (user_text c) o1 = foreign_markers c o1"
    using assms marker_shape(1,2,6,7) [of ProductionOwner] marker_shape(1,2,6,7) [of LocalDevelopmentOwner]
    by (auto simp: user_text_def foreign_markers_def validateOwner_iff other_owners_known)
qed

lemma Enable_files:
  assumes "EnableWithInteractiveProfileForOwner io fs path o1 g n k = (fs', Inr ())"
  obtains content c where "validateOwner o1 = Inr ()" "readOptional fs path = Inr content"
    "removeManagedForOwner content o1 = Inr c" "foreign_profiles fs path (other_owners o1) = Inr False"
    "\<not> foreign_markers c o1" "\<not> rootKeyExists c ''openai_base_url''" "\<not> rootKeyExists c ''model_catalog_json''"
    "rootString c ''model_provider'' \<in> {None, Some ''openai''}"
    "fs' = fs(path := RegularFile True (Some (join_with newline (insert_block (root_block o1 g k) (split_on newline c)))),
      InteractiveProfilePathForOwner path o1 := RegularFile True (Some (renderInteractiveProfile n k o1)))"
proof -
  obtain i content u fs1 where pre: "PreflightEnableWithInteractiveProfileForOwner fs path o1 = Inr ()"
    and r: "readOptional fs path = Inr content" and p: "prepareEnableForOwner content o1 g k = Inr u"
    and w1: "atomicWrite (eio_base io) fs path u = (fs1, Inr ())"
    and w2: "atomicWrite (eio_profile io) fs1 (InteractiveProfilePathForOwner path o1) (renderInteractiveProfile n k o1) = (fs', Inr ())"
    using assms by (auto simp: EnableWithInteractiveProfileForOwner_def EnableForOwner_def split: sum.splits prod.splits)
  obtain j where j: "InspectRoutingForOwner fs path o1 = Inr j" "\<not> ri_ForeignManagedRoot j" "\<not> ri_ForeignInteractiveProfile j"
    using pre by (auto simp: PreflightEnableWithInteractiveProfileForOwner_def split: sum.splits if_splits)
  obtain c where c: "validateOwner o1 = Inr ()" "removeManagedForOwner content o1 = Inr c"
    "\<not> rootKeyExists c ''openai_base_url''" "\<not> rootKeyExists c ''model_catalog_json''"
    "rootString c ''model_provider'' \<in> {None, Some ''openai''}"
    "u = join_with newline (insert_block (root_block o1 g k) (split_on newline c))"
    by (rule prepareEnable_cases [OF p])
  have "foreign_profiles fs path (other_owners o1) = Inr False" "\<not> foreign_markers c o1"
    using j r c(2) by (auto simp: Inspect_iff inspection_of_def)
  moreover have "fs1 = fs(path := RegularFile True (Some u))"
    "fs' = fs1(InteractiveProfilePathForOwner path o1 := RegularFile True (Some (renderInteractiveProfile n k o1)))"
    using w1 w2 by (auto simp: atomicWrite_def split: sum.splits if_splits)
  ultimately show thesis using that r c by blast
qed

lemma InspectI:
  assumes "validateOwner o1 = Inr ()" "readOptional fs path = Inr content" "removeManagedForOwner content o1 = Inr w"
    "preflightInteractiveProfilePath fs (InteractiveProfilePathForOwner path o1) = Inr ()"
    "snapshotOptional fs (InteractiveProfilePathForOwner path o1) = Inr profile"
    "\<forall>t. profile = Some t \<longrightarrow> validInteractiveProfile t o1"
    "foreign_profiles fs path (other_owners o1) = Inr foreign"
  shows "InspectRoutingForOwner fs path o1 = Inr (inspection_of o1 content w profile foreign)"
  unfolding Inspect_iff using assms by blast

lemma enabled_text_chars:
  assumes "validateOwner o1 = Inr ()" "carriage \<notin> set c" "block_value o1 b" "block_value o1 k"
    and "u = join_with newline (insert_block (root_block o1 b k) (split_on newline c))"
  shows "carriage \<notin> set u"
proof -
  have lines: "set (join_with newline ls) \<subseteq> insert newline (\<Union>l \<in> set ls. set l)" for ls
    by (induction newline ls rule: join_with.induct) auto
  have "set l \<subseteq> set c" if "l \<in> set (split_on newline c)" for l
    using that
  proof (induction c arbitrary: l)
    case (Cons x xs)
    then show ?case by (fastforce split: list.splits if_splits)
  qed simp
  then have "\<forall>l \<in> set (split_on newline c). carriage \<notin> set l" using assms(2) by blast
  moreover have "\<forall>l \<in> set (root_block o1 b k). carriage \<notin> set l"
    using assms(3,4) marker_shape(3,4) [OF assms(1)] escapeTOML_chars(2) [of b] escapeTOML_chars(2) [of k]
    by (auto simp: root_block_def block_value_def carriage_def)
  ultimately have "\<forall>l \<in> set (insert_block (root_block o1 b k) (split_on newline c)). carriage \<notin> set l"
    by (auto simp: insert_block_def dest: set_takeWhileD set_dropWhileD)
  then show ?thesis using lines [of "insert_block (root_block o1 b k) (split_on newline c)"] unfolding assms(5) by auto
qed

lemma Enable_validates:
  assumes enable: "EnableWithInteractiveProfileForOwner io fs path o1 generalBaseURL interactiveBaseURL catalogPath = (fs', Inr ())"
    and user: "\<And>content c. readOptional fs path = Inr content \<Longrightarrow> removeManagedForOwner content o1 = Inr c \<Longrightarrow>
      marker_free o1 c \<and> carriage \<notin> set c"
    and leaf: "config_leaf path"
    and vals: "block_value o1 generalBaseURL" "block_value o1 interactiveBaseURL" "block_value o1 catalogPath"
  shows "ValidateManagedRoutingForOwner fs' path o1 generalBaseURL interactiveBaseURL catalogPath = Inr () \<and>
    (\<forall>q. q \<noteq> path \<longrightarrow> q \<noteq> InteractiveProfilePathForOwner path o1 \<longrightarrow> fs' q = fs q)"
proof -
  let ?p = "InteractiveProfilePathForOwner path o1" and ?block = "root_block o1 generalBaseURL catalogPath"
  obtain content c where o1: "validateOwner o1 = Inr ()" and r: "readOptional fs path = Inr content"
    and c: "removeManagedForOwner content o1 = Inr c" and foreign: "foreign_profiles fs path (other_owners o1) = Inr False"
    and clean: "\<not> foreign_markers c o1" "\<not> rootKeyExists c ''openai_base_url''" "\<not> rootKeyExists c ''model_catalog_json''"
      "rootString c ''model_provider'' \<in> {None, Some ''openai''}"
    and fs': "fs' = fs(path := RegularFile True (Some (join_with newline (insert_block ?block (split_on newline c)))),
      ?p := RegularFile True (Some (renderInteractiveProfile interactiveBaseURL catalogPath o1)))"
    by (rule Enable_files [OF enable])
  define u where "u = join_with newline (insert_block ?block (split_on newline c))"
  have mf: "marker_free o1 c" and cr: "carriage \<notin> set c" using user [OF r c] by auto
  have neq: "path \<noteq> ?p" "path \<noteq> []" using leaf o1 by (auto simp: config_leaf_def knownOwners_def validateOwner_iff)
  have "carriage \<notin> set u" by (rule enabled_text_chars [OF o1 cr vals(1,3) u_def])
  then have read: "readOptional fs' path = Inr u"
    using neq by (simp add: readOptional_def PreflightCodexConfigPath_def fs' u_def [symmetric] replace_all_absent)
  have removed: "removeManagedForOwner u o1 = Inr (user_text c)" by (rule enabled_text(1) [OF o1 vals(1,3) mf u_def])
  obtain start where at: "index_of (ow_BeginMarker o1) u = Some start"
      "index_of (ow_EndMarker o1) u = Some (start + length (flat_lines (butlast ?block)))"
      "take (length (join_with newline ?block)) (drop start u) = join_with newline ?block"
    using enabled_text(2) [OF o1 vals(1,3) mf u_def] by blast
  let ?t = "renderInteractiveProfile interactiveBaseURL catalogPath o1"
  have "InspectRoutingForOwner fs' path o1 = Inr (inspection_of o1 u (user_text c) (Some ?t) False)"
  proof (rule InspectI [OF o1 read removed])
    show "preflightInteractiveProfilePath fs' ?p = Inr ()" "snapshotOptional fs' ?p = Inr (Some ?t)"
      using profile_path_nonempty [OF o1, of path]
      by (simp_all add: preflightInteractiveProfilePath_def snapshotOptional_def PreflightCodexConfigPath_def fs')
    show "\<forall>t. Some ?t = Some t \<longrightarrow> validInteractiveProfile t o1"
      using profile_valid [OF o1] vals by (simp add: block_value_def)
    show "foreign_profiles fs' path (other_owners o1) = Inr False"
      using foreign_profiles_frame [OF o1 leaf, of fs' fs] foreign by (simp add: fs')
  qed
  moreover have "\<not> foreign_or_unmanaged (inspection_of o1 u (user_text c) (Some ?t) False)"
    unfolding not_foreign_iff user_text_same [OF o1] using clean by simp
  moreover have "ri_ManagedRoot (inspection_of o1 u (user_text c) (Some ?t) False)"
    "ri_InteractiveProfileManaged (inspection_of o1 u (user_text c) (Some ?t) False)"
    using at(1) by (simp_all add: inspection_of_def contains_def)
  moreover have "start + length (flat_lines (butlast ?block)) + length (ow_EndMarker o1) - start = length (join_with newline ?block)"
    by (simp add: root_block_text)
  moreover have "fs' ?p = RegularFile True (Some ?t)" by (simp add: fs')
  ultimately have "ValidateManagedRoutingForOwner fs' path o1 generalBaseURL interactiveBaseURL catalogPath = Inr ()"
    using at read by (simp add: ValidateManagedRoutingForOwner_def)
  then show ?thesis by (simp add: fs')
qed

text \<open>C27: what enabling writes is what the drift check accepts. If \<open>EnableWithInteractiveProfile\<close>
  succeeds, \<open>ValidateManagedRouting\<close> with the same listener addresses and catalog path succeeds on the
  files it left, and no other file has changed. The user's own text must not contain this relay's
  markers or stray carriage returns, and the values must fit on one line.\<close>

theorem enabled_routing_validates:
  assumes enable: "EnableWithInteractiveProfileForOwner io fs path o1 generalBaseURL interactiveBaseURL catalogPath = (fs', Inr ())"
    and user: "\<And>content c. readOptional fs path = Inr content \<Longrightarrow> removeManagedForOwner content o1 = Inr c \<Longrightarrow>
      marker_free o1 c \<and> carriage \<notin> set c"
    and leaf: "config_leaf path"
    and vals: "block_value o1 generalBaseURL" "block_value o1 interactiveBaseURL" "block_value o1 catalogPath"
  shows "ValidateManagedRoutingForOwner fs' path o1 generalBaseURL interactiveBaseURL catalogPath = Inr () \<and>
    (\<forall>q. q \<noteq> path \<longrightarrow> q \<noteq> InteractiveProfilePathForOwner path o1 \<longrightarrow> fs' q = fs q)"
  by (rule Enable_validates [OF enable user leaf vals])

definition example_codex_path :: string where "example_codex_path = ''/h/config.toml''"

definition example_codex_fs :: codex_fs where
  "example_codex_fs p = (if p = example_codex_path then RegularFile False (Some ''[tui]'') else NoFile)"

definition good_io :: enable_io where "good_io = \<lparr>eio_base = True, eio_profile = True, eio_restore = True\<rparr>"

theorem enabled_routing_validates_witness:
  "\<exists>fs'. EnableWithInteractiveProfileForOwner good_io example_codex_fs example_codex_path LocalDevelopmentOwner
       ''http://a/v1'' ''http://b/v1'' ''/c.json'' = (fs', Inr ()) \<and>
     ValidateManagedRoutingForOwner fs' example_codex_path LocalDevelopmentOwner ''http://a/v1'' ''http://b/v1'' ''/c.json'' = Inr ()"
proof -
  let ?enable = "EnableWithInteractiveProfileForOwner good_io example_codex_fs example_codex_path LocalDevelopmentOwner
       ''http://a/v1'' ''http://b/v1'' ''/c.json''"
  have "snd ?enable = Inr ()" by code_simp
  then obtain fs' where fs': "?enable = (fs', Inr ())" by (cases ?enable) auto
  have r: "readOptional example_codex_fs example_codex_path = Inr ''[tui]''" by code_simp
  have c: "removeManagedForOwner ''[tui]'' LocalDevelopmentOwner = Inr ''[tui]''" by code_simp
  have m: "marker_free LocalDevelopmentOwner ''[tui]''" "carriage \<notin> set ''[tui]''" by code_simp+
  have l: "config_leaf example_codex_path" "block_value LocalDevelopmentOwner ''http://a/v1''"
    "block_value LocalDevelopmentOwner ''http://b/v1''" "block_value LocalDevelopmentOwner ''/c.json''" by code_simp+
  have user: "marker_free LocalDevelopmentOwner t \<and> carriage \<notin> set t"
    if "readOptional example_codex_fs example_codex_path = Inr content" "removeManagedForOwner content LocalDevelopmentOwner = Inr t"
    for content t using that r c m by (metis sum.inject(2))
  have "ValidateManagedRoutingForOwner fs' example_codex_path LocalDevelopmentOwner ''http://a/v1'' ''http://b/v1'' ''/c.json'' = Inr ()"
    by (rule enabled_routing_validates [OF fs' _ l(1-4), THEN conjunct1]) (rule user)
  with fs' show ?thesis by blast
qed

section \<open>Failures\<close>

lemma atomicWrite_cases:
  "atomicWrite ok fs path t = (fs', r) \<Longrightarrow>
     (r = Inr () \<and> fs' = fs(path := RegularFile True (Some t)) \<and> path \<noteq> [] \<and> fs path \<noteq> NotRegular) \<or>
     (\<exists>e. r = Inl e \<and> fs' = fs \<and> e \<noteq> RestoreFailed)"
  by (auto simp: atomicWrite_def PreflightCodexConfigPath_def split: sum.splits if_splits codex_file.splits)

lemma snapshot_after_restore:
  assumes "snapshotOptional fs path = Inr s" "restoreOptional ok fs1 path s = (fs2, Inr ())"
  shows "snapshotOptional fs2 path = Inr s" "\<forall>q. q \<noteq> path \<longrightarrow> fs2 q = fs1 q"
proof -
  have p: "path \<noteq> []" using assms(1) by (auto simp: snapshotOptional_def PreflightCodexConfigPath_def split: sum.splits)
  show "snapshotOptional fs2 path = Inr s" "\<forall>q. q \<noteq> path \<longrightarrow> fs2 q = fs1 q"
  proof (atomize (full), cases s)
    case (Some t)
    then have "fs2 = fs1(path := RegularFile True (Some t))"
      using assms(2) by (auto simp: restoreOptional_def atomicWrite_def split: sum.splits if_splits)
    then show "snapshotOptional fs2 path = Inr s \<and> (\<forall>q. q \<noteq> path \<longrightarrow> fs2 q = fs1 q)"
      using p Some by (simp add: snapshotOptional_def PreflightCodexConfigPath_def)
  next
    case None
    then have "fs2 path = NoFile" "\<forall>q. q \<noteq> path \<longrightarrow> fs2 q = fs1 q"
      using assms(2) by (auto simp: restoreOptional_def remove_file_def split: if_splits)
    then show "snapshotOptional fs2 path = Inr s \<and> (\<forall>q. q \<noteq> path \<longrightarrow> fs2 q = fs1 q)"
      using p None by (simp add: snapshotOptional_def PreflightCodexConfigPath_def)
  qed
qed

lemma Enable_failure:
  assumes "EnableWithInteractiveProfileForOwner io fs path o1 g n k = (fs', Inl e)" "e \<noteq> RestoreFailed"
    and "path \<noteq> InteractiveProfilePathForOwner path o1"
  shows "snapshotOptional fs' path = snapshotOptional fs path \<and> (\<forall>q. q \<noteq> path \<longrightarrow> fs' q = fs q)"
proof (cases "\<exists>base u content. PreflightEnableWithInteractiveProfileForOwner fs path o1 = Inr () \<and>
    snapshotOptional fs path = Inr base \<and> readOptional fs path = Inr content \<and> prepareEnableForOwner content o1 g k = Inr u")
  case False
  then show ?thesis using assms(1)
    by (auto simp: EnableWithInteractiveProfileForOwner_def EnableForOwner_def split: sum.splits prod.splits)
next
  case True
  then obtain base u content where pre: "PreflightEnableWithInteractiveProfileForOwner fs path o1 = Inr ()"
    and base: "snapshotOptional fs path = Inr base" and r: "readOptional fs path = Inr content"
    and u: "prepareEnableForOwner content o1 g k = Inr u" by auto
  obtain fs1 r1 where w: "atomicWrite (eio_base io) fs path u = (fs1, r1)" by fastforce
  show ?thesis
  proof (cases "isl r1")
    case True
    then have "fs1 = fs" using atomicWrite_cases [OF w] by auto
    then show ?thesis using assms(1) pre base r u w True
      by (auto simp: EnableWithInteractiveProfileForOwner_def EnableForOwner_def split: sum.splits)
  next
    case False
    then have r1: "r1 = Inr ()" and fs1: "fs1 = fs(path := RegularFile True (Some u))" using atomicWrite_cases [OF w] by auto
    obtain fs2 r2 where w2: "atomicWrite (eio_profile io) fs1 (InteractiveProfilePathForOwner path o1)
        (renderInteractiveProfile n k o1) = (fs2, r2)" by fastforce
    obtain e2 where e2: "r2 = Inl e2" "fs2 = fs1"
      using atomicWrite_cases [OF w2] assms(1) pre base r u w r1 w2
      by (auto simp: EnableWithInteractiveProfileForOwner_def EnableForOwner_def)
    obtain fs3 r3 where w3: "restoreOptional (eio_restore io) fs2 path base = (fs3, r3)" by fastforce
    have "fs' = fs3" "r3 = Inr ()"
      using assms(1,2) pre base r u w r1 w2 e2 w3
      by (auto simp: EnableWithInteractiveProfileForOwner_def EnableForOwner_def split: sum.splits)
    then show ?thesis using snapshot_after_restore [OF base w3 [unfolded \<open>r3 = Inr ()\<close>]] e2 fs1 base by simp
  qed
qed

lemma Disable_prepared:
  assumes "DisableWithInteractiveProfileForOwner io fs path o1 = (fs', r)"
  obtains (early) e where "r = Inl e" "fs' = fs"
  | (ready) i base profile fs1 r1 where "InspectRoutingForOwner fs path o1 = Inr i"
      "snapshotOptional fs path = Inr base" "snapshotOptional fs (InteractiveProfilePathForOwner path o1) = Inr profile"
      "DisableForOwner (eio_base io) fs path o1 = (fs1, r1)"
      "(fs', r) = (case r1 of Inl e \<Rightarrow> (fs1, Inl e)
        | Inr _ \<Rightarrow> if profile = None then (fs1, Inr ())
            else (case remove_file (eio_profile io) fs1 (InteractiveProfilePathForOwner path o1) of
                    (fs2, Inr _) \<Rightarrow> (fs2, Inr ())
                  | (fs2, Inl e) \<Rightarrow> (case restoreOptional (eio_restore io) fs2 path base of
                        (fs3, Inl _) \<Rightarrow> (fs3, Inl RestoreFailed) | (fs3, Inr _) \<Rightarrow> (fs3, Inl e))))"
proof -
  show thesis
  proof (cases "\<exists>i base profile. InspectRoutingForOwner fs path o1 = Inr i \<and> \<not> ri_ForeignManagedRoot i \<and> \<not> ri_ForeignInteractiveProfile i \<and>
      preflightInteractiveProfilePath fs (InteractiveProfilePathForOwner path o1) = Inr () \<and>
      snapshotOptional fs path = Inr base \<and> snapshotOptional fs (InteractiveProfilePathForOwner path o1) = Inr profile \<and>
      \<not> (case profile of Some t \<Rightarrow> \<not> validInteractiveProfile t o1 | None \<Rightarrow> False)")
    case False
    then have "\<exists>e. r = Inl e \<and> fs' = fs"
      using assms by (auto simp: DisableWithInteractiveProfileForOwner_def Let_def split: sum.splits if_splits intro: sym)
    then show thesis using early by blast
  next
    case True
    then obtain i base profile where *: "InspectRoutingForOwner fs path o1 = Inr i" "\<not> ri_ForeignManagedRoot i"
      "\<not> ri_ForeignInteractiveProfile i" "preflightInteractiveProfilePath fs (InteractiveProfilePathForOwner path o1) = Inr ()"
      "snapshotOptional fs path = Inr base" "snapshotOptional fs (InteractiveProfilePathForOwner path o1) = Inr profile"
      "\<not> (case profile of Some t \<Rightarrow> \<not> validInteractiveProfile t o1 | None \<Rightarrow> False)" by blast
    obtain fs1 r1 where d: "DisableForOwner (eio_base io) fs path o1 = (fs1, r1)" by fastforce
    show thesis using ready [OF *(1,5,6) d] assms * d
      by (simp add: DisableWithInteractiveProfileForOwner_def Let_def split: sum.splits)
  qed
qed

lemma DisableForOwner_failure: "DisableForOwner ok fs path o1 = (fs', Inl e) \<Longrightarrow> fs' = fs"
  by (auto simp: DisableForOwner_def atomicWrite_def split: sum.splits option.splits if_splits)

lemma DisableForOwner_frame: "DisableForOwner ok fs path o1 = (fs', r) \<Longrightarrow> q \<noteq> path \<Longrightarrow> fs' q = fs q"
  by (auto simp: DisableForOwner_def atomicWrite_def split: sum.splits option.splits if_splits)

lemma Disable_failure:
  assumes "DisableWithInteractiveProfileForOwner io fs path o1 = (fs', Inl e)" "e \<noteq> RestoreFailed"
  shows "snapshotOptional fs' path = snapshotOptional fs path \<and> (\<forall>q. q \<noteq> path \<longrightarrow> fs' q = fs q)"
  using assms(1)
proof (cases rule: Disable_prepared)
  case (ready i base profile fs1 r1)
  show ?thesis
  proof (cases r1)
    case (Inl e1)
    then have "fs1 = fs" using ready(4) DisableForOwner_failure by blast
    then show ?thesis using ready(5) Inl by simp
  next
    case (Inr u)
    then have "profile \<noteq> None" and "\<not> eio_profile io"
      using ready(5) by (auto simp: remove_file_def split: if_splits)
    then have fail: "remove_file (eio_profile io) fs1 (InteractiveProfilePathForOwner path o1) = (fs1, Inl RemoveFailed)"
      by (simp add: remove_file_def)
    obtain fs3 r3 where w3: "restoreOptional (eio_restore io) fs1 path base = (fs3, r3)" by fastforce
    then have "fs' = fs3" "r3 = Inr ()"
      using ready(5) Inr fail \<open>profile \<noteq> None\<close> assms(2) by (auto split: sum.splits)
    then show ?thesis
      using snapshot_after_restore [OF ready(2) w3 [unfolded \<open>r3 = Inr ()\<close>]] DisableForOwner_frame [OF ready(4)] ready(2) by simp
  qed
qed simp

text \<open>C28: both updates are all or nothing. When \<open>EnableWithInteractiveProfile\<close> or
  \<open>DisableWithInteractiveProfile\<close> fails for any reason other than a failed restore, the Codex file
  reads exactly as before and no other file has changed; in particular a profile write or removal that
  fails after the Codex file was rewritten is undone.\<close>

theorem failed_update_changes_nothing:
  assumes "EnableWithInteractiveProfileForOwner io fs path o1 generalBaseURL interactiveBaseURL catalogPath = (fs', Inl e) \<or>
      DisableWithInteractiveProfileForOwner io fs path o1 = (fs', Inl e)"
    and "e \<noteq> RestoreFailed" "path \<noteq> InteractiveProfilePathForOwner path o1"
  shows "snapshotOptional fs' path = snapshotOptional fs path \<and> (\<forall>q. q \<noteq> path \<longrightarrow> fs' q = fs q)"
  using assms Enable_failure [of io fs path o1 generalBaseURL interactiveBaseURL catalogPath fs' e]
    Disable_failure [of io fs path o1 fs' e] by blast

theorem failed_update_changes_nothing_witness:
  "\<exists>fs'. EnableWithInteractiveProfileForOwner (good_io\<lparr>eio_profile := False\<rparr>) example_codex_fs example_codex_path ProductionOwner
       ''http://a/v1'' ''http://b/v1'' ''/c.json'' = (fs', Inl WriteFailed) \<and>
     snapshotOptional fs' example_codex_path = Inr (Some ''[tui]'')"
proof -
  let ?enable = "EnableWithInteractiveProfileForOwner (good_io\<lparr>eio_profile := False\<rparr>) example_codex_fs example_codex_path ProductionOwner
       ''http://a/v1'' ''http://b/v1'' ''/c.json''"
  have "snd ?enable = Inl WriteFailed" by code_simp
  then obtain fs' where fs': "?enable = (fs', Inl WriteFailed)" by (cases ?enable) auto
  have s: "snapshotOptional example_codex_fs example_codex_path = Inr (Some ''[tui]'')" by code_simp
  have p: "example_codex_path \<noteq> InteractiveProfilePathForOwner example_codex_path ProductionOwner" by code_simp
  show ?thesis using failed_update_changes_nothing [OF disjI1, OF fs' _ p] s fs' by auto
qed

section \<open>Native routing after disabling\<close>

lemma read_of_snapshot:
  "snapshotOptional fs path = Inr base \<Longrightarrow> (\<And>raw. base = Some raw \<Longrightarrow> carriage \<notin> set raw) \<Longrightarrow>
   readOptional fs path = Inr (case base of None \<Rightarrow> [] | Some raw \<Rightarrow> raw)"
  by (auto simp: snapshotOptional_def readOptional_def replace_all_absent
      split: sum.splits codex_file.splits option.splits)

lemma DisableForOwner_reads:
  assumes "DisableForOwner ok fs path o1 = (fs', Inr ())" "snapshotOptional fs path = Inr base"
    and "\<And>raw. base = Some raw \<Longrightarrow> carriage \<notin> set raw" "readOptional fs path = Inr content"
    and "removeManagedForOwner content o1 = Inr c" "set c \<subseteq> set content"
  shows "readOptional fs' path = Inr c"
proof (cases base)
  case None
  then have "content = []" using read_of_snapshot [OF assms(2)] assms(4) by simp
  then have "c = []" using assms(6) by simp
  then show ?thesis using None assms(1,2,4) \<open>content = []\<close> by (simp add: DisableForOwner_def)
next
  case (Some raw)
  then have "content = raw" using read_of_snapshot [OF assms(2,3)] assms(4) by simp
  show ?thesis
  proof (cases "c = raw")
    case True
    then show ?thesis using assms(1,2,4,5) Some \<open>content = raw\<close> by (simp add: DisableForOwner_def)
  next
    case False
    then have w: "atomicWrite ok fs path c = (fs', Inr ())"
      using assms(1,2,5) Some \<open>content = raw\<close> by (simp add: DisableForOwner_def)
    then have "fs' = fs(path := RegularFile True (Some c))" "path \<noteq> []" using atomicWrite_cases [OF w] by auto
    moreover have "carriage \<notin> set c" using assms(3,6) Some \<open>content = raw\<close> by auto
    ultimately show ?thesis by (simp add: readOptional_def PreflightCodexConfigPath_def replace_all_absent)
  qed
qed

lemma removeManaged_subset:
  "removeManagedForOwner content o1 = Inr c \<Longrightarrow> set c \<subseteq> set content"
  by (auto simp: removeManagedForOwner_def Let_def split: sum.splits option.splits if_splits dest: in_set_takeD in_set_dropD)

lemma Disable_native:
  assumes disable: "DisableWithInteractiveProfileForOwner io fs path o1 = (fs', Inr ())"
    and before: "InspectRoutingForOwner fs path o1 = Inr i" "\<not> foreign_or_unmanaged i"
    and user: "readOptional fs path = Inr content" "removeManagedForOwner content o1 = Inr c" "marker_free o1 c"
    and plain: "snapshotOptional fs path = Inr base" "\<forall>raw. base = Some raw \<longrightarrow> carriage \<notin> set raw"
    and leaf: "config_leaf path"
  shows "ValidateNativeRoutingForOwner fs' path o1 = Inr () \<and> readOptional fs' path = Inr c"
  using disable
proof (cases rule: Disable_prepared)
  case (ready i' base' profile fs1 r1)
  let ?p = "InteractiveProfilePathForOwner path o1"
  obtain w pr where o1: "validateOwner o1 = Inr ()" and i: "i = inspection_of o1 content c pr False"
    and foreign: "foreign_profiles fs path (other_owners o1) = Inr False"
    and pre: "preflightInteractiveProfilePath fs ?p = Inr ()"
    using before user(1,2) by (auto simp: Inspect_iff foreign_or_unmanaged_def inspection_of_def)
  have r1: "r1 = Inr ()" using ready(5) by (auto split: sum.splits)
  have neq: "path \<noteq> ?p" "path \<noteq> []" using leaf o1 by (auto simp: config_leaf_def knownOwners_def validateOwner_iff)
  have read: "readOptional fs1 path = Inr c"
    using DisableForOwner_reads [OF _ plain(1) _ user(1,2) removeManaged_subset [OF user(2)]] ready(4) r1 plain(2) by simp
  have fs': "fs' = (if profile = None then fs1 else fs1(?p := NoFile))"
    using ready(5) r1 by (auto simp: remove_file_def split: if_splits sum.splits prod.splits)
  have gone: "fs' ?p = NoFile"
  proof (cases "profile = None")
    case True
    then have "fs ?p = NoFile"
      using ready(3) by (auto simp: snapshotOptional_def split: sum.splits codex_file.splits option.splits)
    then show ?thesis using True fs' DisableForOwner_frame [OF ready(4)] neq by metis
  qed (auto simp: fs')
  have read': "readOptional fs' path = Inr c"
    using read file_access_cong(2) [of fs' path fs1] neq by (simp add: fs')
  have frame: "fs' q = fs q" if "q \<noteq> path" "q \<noteq> ?p" for q
    using that DisableForOwner_frame [OF ready(4)] by (simp add: fs')
  have "InspectRoutingForOwner fs' path o1 = Inr (inspection_of o1 c c None False)"
  proof (rule InspectI [OF o1 read'])
    show "removeManagedForOwner c o1 = Inr c" using user(3) removeManaged_unmarked [OF o1] by (simp add: marker_free_def)
    show "preflightInteractiveProfilePath fs' ?p = Inr ()" "snapshotOptional fs' ?p = Inr None"
      using gone profile_path_nonempty [OF o1, of path]
      by (simp_all add: preflightInteractiveProfilePath_def snapshotOptional_def PreflightCodexConfigPath_def)
    show "foreign_profiles fs' path (other_owners o1) = Inr False"
      using foreign_profiles_frame [OF o1 leaf, of fs' fs] frame foreign by simp
  qed simp
  moreover have "\<not> foreign_or_unmanaged (inspection_of o1 c c None False)"
    using before(2) i by (simp add: not_foreign_iff)
  moreover have "\<not> ri_ManagedRoot (inspection_of o1 c c None False)" "\<not> ri_InteractiveProfileExists (inspection_of o1 c c None False)"
    using user(3) by (simp_all add: inspection_of_def marker_free_def)
  ultimately show ?thesis using read' by (simp add: ValidateNativeRoutingForOwner_def)
qed simp

text \<open>C29: disabling leads back to native routing. If \<open>DisableWithInteractiveProfile\<close> succeeds on files
  without foreign or unmanaged routing, \<open>ValidateNativeRouting\<close> succeeds on the files it left: the
  block and the profile are gone and the Codex file reads as the user's own text. Stray markers or
  carriage returns in the user's text are excluded.\<close>

theorem disabled_routing_is_native:
  assumes disable: "DisableWithInteractiveProfileForOwner io fs path o1 = (fs', Inr ())"
    and before: "InspectRoutingForOwner fs path o1 = Inr i" "\<not> foreign_or_unmanaged i"
    and user: "readOptional fs path = Inr content" "removeManagedForOwner content o1 = Inr c" "marker_free o1 c"
    and plain: "snapshotOptional fs path = Inr base" "\<forall>raw. base = Some raw \<longrightarrow> carriage \<notin> set raw"
    and leaf: "config_leaf path"
  shows "ValidateNativeRoutingForOwner fs' path o1 = Inr () \<and> readOptional fs' path = Inr c"
  by (rule Disable_native [OF disable before user plain leaf])

definition managed_codex_fs :: codex_fs where
  "managed_codex_fs p =
     (if p = example_codex_path
      then RegularFile True (Some (join_with newline (root_block ProductionOwner ''http://a/v1'' ''/c.json'') @ newline # ''[tui]''))
      else if p = InteractiveProfilePathForOwner example_codex_path ProductionOwner
      then RegularFile True (Some (renderInteractiveProfile ''http://b/v1'' ''/c.json'' ProductionOwner)) else NoFile)"

theorem disabled_routing_is_native_witness:
  "\<exists>fs'. DisableWithInteractiveProfileForOwner good_io managed_codex_fs example_codex_path ProductionOwner = (fs', Inr ()) \<and>
     ValidateNativeRoutingForOwner fs' example_codex_path ProductionOwner = Inr () \<and>
     readOptional fs' example_codex_path = Inr ''[tui]''"
proof -
  let ?t = "join_with newline (root_block ProductionOwner ''http://a/v1'' ''/c.json'') @ newline # ''[tui]''"
  let ?disable = "DisableWithInteractiveProfileForOwner good_io managed_codex_fs example_codex_path ProductionOwner"
  let ?i = "inspection_of ProductionOwner ?t ''[tui]'' (Some (renderInteractiveProfile ''http://b/v1'' ''/c.json'' ProductionOwner)) False"
  have "snd ?disable = Inr ()" by code_simp
  then obtain fs' where fs': "?disable = (fs', Inr ())" by (cases ?disable) auto
  have i: "InspectRoutingForOwner managed_codex_fs example_codex_path ProductionOwner = Inr ?i" "\<not> foreign_or_unmanaged ?i"
    by code_simp+
  have u: "readOptional managed_codex_fs example_codex_path = Inr ?t" "removeManagedForOwner ?t ProductionOwner = Inr ''[tui]''"
    "marker_free ProductionOwner ''[tui]''" by code_simp+
  have s: "snapshotOptional managed_codex_fs example_codex_path = Inr (Some ?t)" "carriage \<notin> set ?t" "config_leaf example_codex_path"
    by code_simp+
  have "\<forall>raw. Some ?t = Some raw \<longrightarrow> carriage \<notin> set raw" using s(2) by simp
  from disabled_routing_is_native [OF fs' i u s(1) this s(3)] fs' show ?thesis by blast
qed

section \<open>Legacy migration\<close>

definition root_lines :: "string list \<Rightarrow> string list" where
  "root_lines ls = takeWhile (\<lambda>l. \<not> is_table l) ls"

definition table_lines :: "string list \<Rightarrow> string list" where
  "table_lines ls = dropWhile (\<lambda>l. \<not> is_table l) ls"

definition assigns :: "string list \<Rightarrow> string \<Rightarrow> bool" where
  "assigns keys l \<longleftrightarrow> (\<exists>key \<in> set keys. rootAssignment l key \<noteq> None)"

lemma removeRootLines_filter:
  "removeRootLines keys True ls = filter (\<lambda>l. \<not> assigns keys l) (root_lines ls) @ table_lines ls"
proof -
  have "removeRootLines keys False ls = ls" for ls by (induction ls) (auto simp: Let_def)
  then show ?thesis
    by (induction ls) (auto simp: Let_def root_lines_def table_lines_def assigns_def list_ex_iff)
qed

lemma rootAssignmentLines_step:
  "rootAssignmentLines key (l # ls) =
     (if is_table l then None
      else case rootAssignmentLines key [l] of None \<Rightarrow> rootAssignmentLines key ls | Some v \<Rightarrow> Some v)"
  by (simp add: Let_def is_table_def)

declare rootAssignmentLines.simps(2) [simp del]

lemma rootAssignmentLines_filter:
  assumes "\<And>l. l \<in> set ls \<Longrightarrow> P l \<Longrightarrow> rootAssignmentLines key [l] = None"
  shows "rootAssignmentLines key (filter (\<lambda>l. \<not> P l) (root_lines ls) @ table_lines ls) = rootAssignmentLines key ls"
  using assms
proof (induction ls)
  case (Cons l ls)
  let ?t = "filter (\<lambda>l. \<not> P l) (root_lines ls) @ table_lines ls"
  have IH: "rootAssignmentLines key ?t = rootAssignmentLines key ls" using Cons by simp
  have "filter (\<lambda>l. \<not> P l) (root_lines (l # ls)) @ table_lines (l # ls) =
    (if is_table l then l # ls else if P l then ?t else l # ?t)" by (simp add: root_lines_def table_lines_def)
  moreover have "P l \<Longrightarrow> rootAssignmentLines key [l] = None" using Cons.prems by simp
  ultimately show ?case
    using IH by (auto simp: rootAssignmentLines_step [of key l ls] rootAssignmentLines_step [of key l ?t] split: option.split)
qed (simp add: root_lines_def table_lines_def)

lemma rootAssignmentLines_removed:
  assumes "\<And>l. l \<in> set ls \<Longrightarrow> \<not> P l \<Longrightarrow> rootAssignmentLines key [l] = None"
  shows "rootAssignmentLines key (filter (\<lambda>l. \<not> P l) (root_lines ls) @ table_lines ls) = None"
  using assms
proof (induction ls)
  case (Cons l ls)
  let ?t = "filter (\<lambda>l. \<not> P l) (root_lines ls) @ table_lines ls"
  have IH: "rootAssignmentLines key ?t = None" using Cons by simp
  have "filter (\<lambda>l. \<not> P l) (root_lines (l # ls)) @ table_lines (l # ls) =
    (if is_table l then l # ls else if P l then ?t else l # ?t)" by (simp add: root_lines_def table_lines_def)
  moreover have "\<not> P l \<Longrightarrow> rootAssignmentLines key [l] = None" using Cons.prems by simp
  ultimately show ?case
    using IH by (auto simp: rootAssignmentLines_step [of key l ls] rootAssignmentLines_step [of key l ?t])
qed (simp add: root_lines_def table_lines_def)

lemma line_assignment: "l \<in> set (split_on newline c) \<Longrightarrow> rootAssignment l key = rootAssignmentLines key [l]"
  by (simp add: rootAssignment_def split_on_no_sep split_on_parts)

lemma assignment_prefix: "rootAssignmentLines key [l] \<noteq> None \<Longrightarrow> has_prefix (TrimSpace l) key"
  by (auto simp: rootAssignmentLines.simps(2) Let_def split: if_splits)

lemma keys_disjoint:
  "rootAssignmentLines ''model_provider'' [l] \<noteq> None \<Longrightarrow> rootAssignmentLines ''model_catalog_json'' [l] = None"
  "rootAssignmentLines ''model_provider'' [l] \<noteq> None \<Longrightarrow> rootAssignmentLines ''openai_base_url'' [l] = None"
  "rootAssignmentLines ''openai_base_url'' [l] \<noteq> None \<Longrightarrow> rootAssignmentLines ''model_catalog_json'' [l] = None"
  using assignment_prefix [of "''model_provider''" l] assignment_prefix [of "''model_catalog_json''" l]
    assignment_prefix [of "''openai_base_url''" l]
  by (fastforce simp: has_prefix_iff)+

lemma removed_lines:
  assumes "c' = removeRootAssignments c keys"
  shows "rootAssignment c' key = rootAssignmentLines key (removeRootLines keys True (split_on newline c))"
proof -
  let ?ls = "removeRootLines keys True (split_on newline c)"
  have sub: "l \<in> set ?ls \<Longrightarrow> newline \<notin> set l" for l
    unfolding removeRootLines_filter root_lines_def table_lines_def
    using split_on_parts [of _ newline c] by (auto dest: set_takeWhileD set_dropWhileD)
  show ?thesis
  proof (cases "?ls = []")
    case True
    have "rootAssignmentLines key [[]] = rootAssignmentLines key []"
      by (auto simp: rootAssignmentLines.simps(2) Let_def has_prefix_iff trim_prefix_def)
    then show ?thesis using True assms by (simp add: removeRootAssignments_def rootAssignment_def)
  next
    case False
    then have "split_on newline c' = ?ls"
      using assms split_join [of ?ls newline] sub by (simp add: removeRootAssignments_def list_all_iff)
    then show ?thesis by (simp add: rootAssignment_def)
  qed
qed

lemma removed_keys: "key \<in> set keys \<Longrightarrow> rootAssignment (removeRootAssignments c keys) key = None"
  unfolding removed_lines [OF refl] removeRootLines_filter
  by (rule rootAssignmentLines_removed) (auto simp: assigns_def line_assignment)

lemma kept_key:
  assumes "\<And>l k. k \<in> set keys \<Longrightarrow> rootAssignmentLines k [l] \<noteq> None \<Longrightarrow> rootAssignmentLines key [l] = None"
  shows "rootAssignment (removeRootAssignments c keys) key = rootAssignment c key"
  unfolding removed_lines [OF refl] removeRootLines_filter rootAssignment_def [of c]
  by (rule rootAssignmentLines_filter) (use assms in \<open>auto simp: assigns_def line_assignment\<close>)

lemma removed_markers:
  assumes "newline \<notin> set m" "m \<noteq> []" "\<not> contains c m"
  shows "\<not> contains (removeRootAssignments c keys) m"
proof -
  have "\<forall>l \<in> set (split_on newline c). \<not> contains l m"
    using assms(3) contains_join [OF assms(1,2), of "split_on newline c"] by (simp add: join_split)
  then have "\<forall>l \<in> set (removeRootLines keys True (split_on newline c)). \<not> contains l m"
    by (auto simp: removeRootLines_filter root_lines_def table_lines_def dest: set_takeWhileD set_dropWhileD)
  then show ?thesis using contains_join [OF assms(1,2)] by (simp add: removeRootAssignments_def)
qed

text \<open>C30: the explicit legacy migration is minimal and sufficient. It deletes exactly the root lines
  that assign the two keys of the recognized legacy setup and keeps every other line, all tables
  included; and on its result \<open>prepareEnable\<close> always succeeds.\<close>

theorem legacy_migration_enables:
  assumes "prepareLegacyMigration content = Inr migrated" "validateOwner o1 = Inr ()"
  shows "(\<exists>keys \<in> {[''model_provider'', ''model_catalog_json''], [''openai_base_url'', ''model_catalog_json'']}.
      migrated = join_with newline
        (filter (\<lambda>l. \<not> (\<exists>key \<in> set keys. rootAssignment l key \<noteq> None)) (takeWhile (\<lambda>l. \<not> is_table l) (split_on newline content)) @
         dropWhile (\<lambda>l. \<not> is_table l) (split_on newline content))) \<and>
    (\<exists>updated. prepareEnableForOwner migrated o1 baseURL catalogPath = Inr updated)"
proof -
  have unmarked: "\<not> contains content (ow_BeginMarker x)" "\<not> contains content (ow_EndMarker x)" if "validateOwner x = Inr ()" for x
    using assms(1) that by (auto simp: prepareLegacyMigration_def knownOwners_def validateOwner_iff split: if_splits)
  obtain keys where keys: "migrated = removeRootAssignments content keys"
    and cases: "keys = [''model_provider'', ''model_catalog_json''] \<and> rootString content ''openai_base_url'' = None \<or>
      keys = [''openai_base_url'', ''model_catalog_json''] \<and> rootString content ''model_provider'' \<in> {None, Some ''openai''}"
    using assms(1) by (auto simp: prepareLegacyMigration_def Let_def split: if_splits)
  have gone: "\<not> contains migrated (ow_BeginMarker x)" "\<not> contains migrated (ow_EndMarker x)" if "validateOwner x = Inr ()" for x
    using removed_markers unmarked [OF that] marker_shape [OF that] by (simp_all add: keys)
  have nf: "\<not> foreign_markers migrated o1"
    using gone [of ProductionOwner] gone [of LocalDevelopmentOwner] assms(2)
    by (auto simp: foreign_markers_def validateOwner_iff other_owners_known)
  have rm: "removeManagedForOwner migrated o1 = Inr migrated" using removeManaged_unmarked [OF assms(2)] gone [OF assms(2)] by simp
  have none: "rootAssignment migrated ''openai_base_url'' = None \<and> rootAssignment migrated ''model_catalog_json'' = None \<and>
      rootString migrated ''model_provider'' \<in> {None, Some ''openai''}"
    using cases
  proof
    assume k: "keys = [''model_provider'', ''model_catalog_json''] \<and> rootString content ''openai_base_url'' = None"
    have "rootAssignment migrated ''openai_base_url'' = rootAssignment content ''openai_base_url''"
      unfolding keys by (rule kept_key) (use k keys_disjoint(2,3) in fastforce)
    moreover have "rootAssignment content ''openai_base_url'' = None"
      using k by (auto simp: rootString_def Let_def split: option.splits if_splits)
    moreover have "rootAssignment migrated ''model_provider'' = None" "rootAssignment migrated ''model_catalog_json'' = None"
      unfolding keys using k by (auto intro: removed_keys)
    ultimately show ?thesis by (simp add: rootString_def)
  next
    assume k: "keys = [''openai_base_url'', ''model_catalog_json''] \<and> rootString content ''model_provider'' \<in> {None, Some ''openai''}"
    have "rootAssignment migrated ''model_provider'' = rootAssignment content ''model_provider''"
      unfolding keys by (rule kept_key) (use k keys_disjoint(1,2) in fastforce)
    then have "rootString migrated ''model_provider'' = rootString content ''model_provider''" by (simp add: rootString_def)
    moreover have "rootAssignment migrated ''openai_base_url'' = None" "rootAssignment migrated ''model_catalog_json'' = None"
      unfolding keys using k by (auto intro: removed_keys)
    ultimately show ?thesis using k by simp
  qed
  have "\<exists>updated. prepareEnableForOwner migrated o1 baseURL catalogPath = Inr updated"
    using none assms(2) nf rm by (auto simp: prepareEnableForOwner_def rootKeyExists_def)
  moreover have "migrated = join_with newline (filter (\<lambda>l. \<not> (\<exists>key \<in> set keys. rootAssignment l key \<noteq> None))
      (takeWhile (\<lambda>l. \<not> is_table l) (split_on newline content)) @ dropWhile (\<lambda>l. \<not> is_table l) (split_on newline content))"
    by (simp add: keys removeRootAssignments_def removeRootLines_filter root_lines_def table_lines_def assigns_def)
  ultimately show ?thesis using cases by blast
qed

theorem legacy_migration_enables_witness:
  "let legacy = ''model_provider = '' @ [CHR 0x22] @ ''opencodex'' @ [CHR 0x22, newline] @ ''[tui]''
   in prepareLegacyMigration legacy = Inr ''[tui]'' \<and>
      (\<exists>updated. prepareEnableForOwner ''[tui]'' ProductionOwner ''http://a/v1'' ''/c.json'' = Inr updated)"
proof -
  let ?legacy = "''model_provider = '' @ [CHR 0x22] @ ''opencodex'' @ [CHR 0x22, newline] @ ''[tui]''"
  have m: "prepareLegacyMigration ?legacy = Inr ''[tui]''" by code_simp
  have o: "validateOwner ProductionOwner = Inr ()" by (simp add: validateOwner_iff)
  show ?thesis
    unfolding Let_def
    by (rule conjI [OF m legacy_migration_enables [OF m o, of "''http://a/v1''" "''/c.json''", THEN conjunct2]])
qed

end
