(* ===== verification/Relay_Config.thy ===== *)
theory Relay_Config
  imports Go_Strings Go_Path Scheduler "HOL-Library.Word"
begin

unbundle bit_operations_syntax

text \<open>
  Package \<open>config\<close>: the relay's non-secret configuration, its validation, its defaults and the two
  runtime configurations that are derived from it.

  What comes from outside the package is the environment \<open>config_env\<close>: \<open>net/url\<close>, \<open>net.ParseIP\<close>,
  \<open>strings.EqualFold\<close>, \<open>time.ParseDuration\<close>, \<open>encoding/json\<close> and the answers of the file system
  (\<open>Lstat\<close>, \<open>EvalSymlinks\<close>, \<open>Stat\<close>, \<open>SameFile\<close>). A Go map of model modes is an association list with
  distinct keys.
\<close>

section \<open>Data\<close>

record credentials_config =
  cc_Source :: string
  cc_File :: string
  cc_Account :: string
  cc_AuthenticationProfile :: string
  cc_AllowInsecurePrivateIP :: bool

record scheduler_config =
  sg_InteractiveListenAddress :: string
  sg_MaxClassifications :: int
  sg_MaxPendingRequests :: int
  sg_MaxPendingEncodedBytes :: int
  sg_QueueTimeoutMS :: int
  sg_MaxGeneralUpstream :: int
  sg_InteractiveReservedUpstream :: int
  sg_MaxConcurrentTransforms :: int
  sg_MaxOpenDeliveries :: int

record responses_config =
  rc_WebSocketMode :: string
  rc_ModelModes :: "(string \<times> string) list"
  rc_Scheduler :: scheduler_config

record catalog_config =
  ct_Owner :: string
  ct_Path :: string
  ct_RefreshInterval :: string
  ct_ManageAppServer :: bool
  ct_AppServerHome :: string
  ct_CodexExecutable :: string

record local_opencodex_profile =
  lo_UpstreamBaseURL :: string
  lo_CatalogPath :: string

record local_apple_profile =
  la_UpstreamBaseURL :: string
  la_CatalogPath :: string
  la_CredentialAccount :: string

record relay_config =
  cf_InstallationScope :: string
  cf_ListenAddress :: string
  cf_UpstreamMode :: string
  cf_UpstreamBaseURL :: string
  cf_VoiceEnabled :: bool
  cf_Credentials :: credentials_config
  cf_Responses :: responses_config
  cf_Catalog :: catalog_config
  cf_ProbeEnabled :: bool
  cf_LocalOpenCodex :: "local_opencodex_profile option"
  cf_LocalAppleContainer :: "local_apple_profile option"
  cf_localProfileRuntime :: bool
  cf_localAppleContainerRuntime :: bool

record gateway_url =
  gu_Scheme :: string
  gu_Opaque :: string
  gu_HasUser :: bool
  gu_Host :: string
  gu_Path :: string
  gu_RawPath :: string
  gu_ForceQuery :: bool
  gu_RawQuery :: string
  gu_Fragment :: string

text \<open>\<open>net.IP\<close>: an address with a four-byte form (IPv4, also IPv4-mapped) or any other sixteen-byte one.\<close>

datatype ip = IPv4 "8 word" "8 word" "8 word" "8 word" | IPv6 "8 word list"

datatype lstat = Exists | NotExist | LstatError

record config_env =
  ce_parseURL :: "string \<Rightarrow> gateway_url option"
  ce_hostname :: "gateway_url \<Rightarrow> string"
  ce_port :: "gateway_url \<Rightarrow> string"
  ce_escapedPath :: "gateway_url \<Rightarrow> string"
  ce_urlString :: "gateway_url \<Rightarrow> string"
  ce_parseIP :: "string \<Rightarrow> ip option"
  ce_equalFold :: "string \<Rightarrow> string \<Rightarrow> bool"
  ce_parseDuration :: "string \<Rightarrow> int option"
  ce_lstat :: "string \<Rightarrow> lstat"
  ce_evalSymlinks :: "string \<Rightarrow> string option"
  ce_sameFile :: "string \<Rightarrow> string \<Rightarrow> bool option"
  ce_decode :: "bytes \<Rightarrow> relay_config option"
  ce_encode :: "relay_config \<Rightarrow> bytes"

datatype config_error =
    ScopeInvalid | ListenDevelopment | ListenRequired | ListenInvalid | UpstreamURL | AuthProfile
  | LocalKeyReserved | CredentialSource | CloudflareNeedsHTTPS | InsecureNotAcknowledged | InsecureNotHTTP
  | LocalUpstreamURL | LocalCredentials | LocalAuthentication | AppleDerivedOnly | AppleUpstreamURL
  | AppleCredentials | AppleAuthentication | UpstreamModeInvalid | CredentialFileRequired | WebSocketMode
  | ModelEmpty | ModelWhitespace | ModelDuplicate | ModelMode | ModelsNeedFallback | InteractiveDevelopment
  | InteractiveInvalid | InteractiveSame | RangeError | CatalogOwnerInvalid | ProbeNeedsExternal
  | CatalogPathRequired | CatalogDevelopment | AppServerHomeInvalid | ExecutableRequired
  | LocalProfileInvalid | AppleProfileInvalid | ArtifactsUnresolved | ArtifactsShared | RefreshInterval
  | NotEnrolled | NeedsExternal | ConfigUnreadable | ConfigDecode | ConfigWriteFailed

definition DefaultListenAddress :: string where "DefaultListenAddress = ''127.0.0.1:18180''"
definition localOpenCodexIPv4URL :: string where "localOpenCodexIPv4URL = ''http://127.0.0.1:10100/v1''"
definition localOpenCodexIPv6URL :: string where "localOpenCodexIPv6URL = ''http://[::1]:10100/v1''"
definition localAppleContainerURL :: string where "localAppleContainerURL = ''http://127.0.0.1:10210/v1''"
definition minResponsesPendingBytes :: int where "minResponsesPendingBytes = 32 * 2 ^ 20"
definition maxResponsesPendingBytes :: int where "maxResponsesPendingBytes = 16 * 2 ^ 30"

section \<open>Addresses\<close>

text \<open>\<open>net.SplitHostPort\<close>.\<close>

definition SplitHostPort :: "string \<Rightarrow> (string \<times> string) option" where
  "SplitHostPort s =
     (if CHR '':'' \<notin> set s then None
      else let port = rev (takeWhile (\<lambda>c. c \<noteq> CHR '':'') (rev s));
               a = take (length s - length port - 1) s
           in if hd s = CHR ''['' then
                (let inner = tl a in
                 if inner \<noteq> [] \<and> last inner = CHR '']'' \<and> CHR '']'' \<notin> set (butlast inner) \<and>
                    CHR ''['' \<notin> set (tl s) \<and> CHR '']'' \<notin> set port
                 then Some (butlast inner, port) else None)
              else if CHR '':'' \<in> set a \<or> CHR ''['' \<in> set s \<or> CHR '']'' \<in> set s then None
              else Some (a, port))"

definition JoinHostPort :: "string \<Rightarrow> string \<Rightarrow> string" where
  "JoinHostPort host port =
     (if CHR '':'' \<in> set host then ''['' @ host @ '']:'' @ port else host @ '':'' @ port)"

definition decimal :: "string \<Rightarrow> int" where
  "decimal s = foldl (\<lambda>n c. 10 * n + int (digit_val c)) 0 s"

definition parseLoopbackListenAddress :: "string \<Rightarrow> (string \<times> int) option" where
  "parseLoopbackListenAddress address =
     (case SplitHostPort address of
        None \<Rightarrow> None
      | Some (host, rawPort) \<Rightarrow>
          if host \<noteq> ''127.0.0.1'' \<and> host \<noteq> ''::1'' then None
          else if rawPort = [] \<or> \<not> list_all is_digit rawPort then None
          else if decimal rawPort < 1 \<or> decimal rawPort > 65535 then None
          else Some (host, decimal rawPort))"

fun isLoopback :: "ip \<Rightarrow> bool" where
  "isLoopback (IPv4 a b c d) = (a = 127)"
| "isLoopback (IPv6 bs) = (bs = replicate 15 0 @ [1])"

fun isAllowedPrivateGatewayIP :: "ip \<Rightarrow> bool" where
  "isAllowedPrivateGatewayIP (IPv4 a b c d) =
     (a = 10 \<or> (a = 172 \<and> b \<ge> 16 \<and> b \<le> 31) \<or> (a = 192 \<and> b = 168))"
| "isAllowedPrivateGatewayIP (IPv6 bs) = (length bs = 16 \<and> hd bs AND 0xfe = 0xfc)"

definition NormalizeExternalGatewayURL :: "config_env \<Rightarrow> string \<Rightarrow> (config_error, string) result" where
  "NormalizeExternalGatewayURL env value =
     (if value = [] \<or> TrimSpace value \<noteq> value then Inl UpstreamURL
      else (case ce_parseURL env value of
        None \<Rightarrow> Inl UpstreamURL
      | Some u \<Rightarrow>
          if gu_Scheme u = [] \<or> gu_Opaque u \<noteq> [] \<or> gu_Host u = [] \<or> gu_HasUser u \<or> gu_RawQuery u \<noteq> [] \<or>
             gu_Fragment u \<noteq> [] \<or> gu_ForceQuery u \<or> gu_RawPath u \<noteq> [] then Inl UpstreamURL
          else let scheme = map ascii_lower (gu_Scheme u); hostname = ce_hostname env u; port = ce_port env u;
                   path = rev (dropWhile (\<lambda>c. c = slash) (rev (ce_escapedPath env u)))
               in if scheme \<noteq> ''https'' \<and> scheme \<noteq> ''http'' then Inl UpstreamURL
                  else if hostname = [] then Inl UpstreamURL
                  else if port \<noteq> [] \<and> (\<not> list_all is_digit port \<or> decimal port < 1 \<or> decimal port > 65535) then Inl UpstreamURL
                  else if path \<noteq> [] \<and> path \<noteq> ''/v1'' then Inl UpstreamURL
                  else if scheme = ''http'' \<and>
                    (case ce_parseIP env hostname of None \<Rightarrow> True | Some ip \<Rightarrow> isLoopback ip \<or> \<not> isAllowedPrivateGatewayIP ip)
                  then Inl UpstreamURL
                  else Inr (ce_urlString env (u\<lparr>gu_Scheme := scheme, gu_Path := ''/v1'', gu_RawPath := []\<rparr>))))"

section \<open>Profiles and defaults\<close>

definition Scope :: "relay_config \<Rightarrow> string" where
  "Scope c = (if cf_InstallationScope c = [] then ''production'' else cf_InstallationScope c)"

definition RemoteAuthenticationProfile :: "credentials_config \<Rightarrow> string" where
  "RemoteAuthenticationProfile c =
     (if cc_AuthenticationProfile c \<noteq> [] then cc_AuthenticationProfile c
      else if cc_Source c = ''none'' then ''none'' else ''cloudflare_access_and_gateway_api_key'')"

definition RequiredCredentialKinds :: "string \<Rightarrow> (config_error, string list) result" where
  "RequiredCredentialKinds profile =
     (if profile = ''none'' then Inr []
      else if profile = ''gateway_api_key'' then Inr [''gateway_api_key'']
      else if profile = ''cloudflare_access_and_gateway_api_key''
      then Inr [''cloudflare_access_client_id'', ''cloudflare_access_client_secret'', ''gateway_api_key'']
      else if profile = ''local_opencodex_api_key'' then Inr [''local_opencodex_api_key'']
      else Inl AuthProfile)"

definition ModeForModel :: "config_env \<Rightarrow> responses_config \<Rightarrow> string \<Rightarrow> string option" where
  "ModeForModel env c model =
     (case map_of (rc_ModelModes c) model of
        Some mode \<Rightarrow> Some mode
      | None \<Rightarrow> map_option snd (find (\<lambda>(configured, mode). ce_equalFold env configured model) (rc_ModelModes c)))"

definition IsLocalOpenCodexBaseURL :: "string \<Rightarrow> bool" where
  "IsLocalOpenCodexBaseURL v \<longleftrightarrow> v = localOpenCodexIPv4URL \<or> v = localOpenCodexIPv6URL"

definition IsLocalAppleContainerBaseURL :: "string \<Rightarrow> bool" where
  "IsLocalAppleContainerBaseURL v \<longleftrightarrow> v = localAppleContainerURL"

definition or_default :: "int \<Rightarrow> int \<Rightarrow> int" where
  "or_default value fallback = (if value = 0 then fallback else value)"

definition scheduler_applyDefaults :: "string \<Rightarrow> scheduler_config \<Rightarrow> scheduler_config" where
  "scheduler_applyDefaults primaryListenAddress c =
     c\<lparr>sg_InteractiveListenAddress :=
         (if sg_InteractiveListenAddress c = [] then
            (case SplitHostPort primaryListenAddress of
               Some (host, _) \<Rightarrow> if host = ''127.0.0.1'' \<or> host = ''::1'' then JoinHostPort host ''18182'' else []
             | None \<Rightarrow> [])
          else sg_InteractiveListenAddress c),
       sg_MaxClassifications := or_default (sg_MaxClassifications c) 8,
       sg_MaxPendingRequests := or_default (sg_MaxPendingRequests c) 24,
       sg_MaxPendingEncodedBytes := or_default (sg_MaxPendingEncodedBytes c) (512 * 2 ^ 20),
       sg_QueueTimeoutMS := or_default (sg_QueueTimeoutMS c) 60000,
       sg_MaxGeneralUpstream := or_default (sg_MaxGeneralUpstream c) 4,
       sg_InteractiveReservedUpstream := or_default (sg_InteractiveReservedUpstream c) 1,
       sg_MaxConcurrentTransforms := or_default (sg_MaxConcurrentTransforms c) 2,
       sg_MaxOpenDeliveries := or_default (sg_MaxOpenDeliveries c) 16\<rparr>"

definition applyDefaults :: "relay_config \<Rightarrow> relay_config" where
  "applyDefaults c =
     c\<lparr>cf_UpstreamMode := (if cf_UpstreamMode c = [] then ''external_gateway'' else cf_UpstreamMode c),
       cf_Responses := (cf_Responses c)\<lparr>
         rc_WebSocketMode := (if rc_WebSocketMode (cf_Responses c) = [] then ''passthrough'' else rc_WebSocketMode (cf_Responses c)),
         rc_Scheduler := scheduler_applyDefaults (cf_ListenAddress c) (rc_Scheduler (cf_Responses c))\<rparr>,
       cf_Catalog := (cf_Catalog c)\<lparr>ct_Owner := (if ct_Owner (cf_Catalog c) = [] then ''relay'' else ct_Owner (cf_Catalog c))\<rparr>\<rparr>"

definition clean_absolute :: "string \<Rightarrow> bool" where
  "clean_absolute path \<longleftrightarrow> has_prefix path [slash] \<and> filepath_Clean path = path"

definition NewLocalOpenCodexProfileForCodexConfigWithCatalogName ::
  "string \<Rightarrow> string \<Rightarrow> (config_error, local_opencodex_profile) result" where
  "NewLocalOpenCodexProfileForCodexConfigWithCatalogName codexConfigPath catalogName =
     (if codexConfigPath = [] \<or> \<not> clean_absolute codexConfigPath then Inl LocalProfileInvalid
      else if catalogName \<noteq> ''opencodex-relay-local-catalog.json'' \<and> catalogName \<noteq> ''opencodex-relay-dev-local-catalog.json''
      then Inl LocalProfileInvalid
      else Inr \<lparr>lo_UpstreamBaseURL = localOpenCodexIPv4URL, lo_CatalogPath = filepath_Join (filepath_Dir codexConfigPath) catalogName\<rparr>)"

definition NewLocalAppleContainerProfileForCodexConfigWithCatalogName ::
  "string \<Rightarrow> string \<Rightarrow> (config_error, local_apple_profile) result" where
  "NewLocalAppleContainerProfileForCodexConfigWithCatalogName codexConfigPath catalogName =
     (if codexConfigPath = [] \<or> \<not> clean_absolute codexConfigPath then Inl AppleProfileInvalid
      else if catalogName \<noteq> ''opencodex-relay-apple-container-catalog.json'' \<and>
              catalogName \<noteq> ''opencodex-relay-dev-apple-container-catalog.json''
      then Inl AppleProfileInvalid
      else Inr \<lparr>la_UpstreamBaseURL = localAppleContainerURL, la_CatalogPath = filepath_Join (filepath_Dir codexConfigPath) catalogName,
             la_CredentialAccount = []\<rparr>)"

section \<open>Catalog artifacts\<close>

definition catalogArtifactPaths :: "string \<Rightarrow> string list" where
  "catalogArtifactPaths path = [path, path @ ''.restart-pending'', path @ ''.previous'']"

text \<open>The loop of \<open>canonicalCatalogArtifactPath\<close>, which walks up to the first existing ancestor, with
  fuel; \<open>canonicalCatalogArtifactPath\<close> gives it one step per byte of the path and two more.\<close>

datatype artifact_result = ArtifactPath string | ArtifactError | ArtifactOutOfFuel

fun canonicalArtifactLoop :: "nat \<Rightarrow> config_env \<Rightarrow> string \<Rightarrow> string list \<Rightarrow> artifact_result" where
  "canonicalArtifactLoop 0 env current missingSuffix = ArtifactOutOfFuel"
| "canonicalArtifactLoop (Suc n) env current missingSuffix =
     (case ce_lstat env current of
        Exists \<Rightarrow>
          (case ce_evalSymlinks env current of
             None \<Rightarrow> ArtifactError
           | Some resolved \<Rightarrow> ArtifactPath (filepath_Clean (foldl filepath_Join resolved missingSuffix)))
      | LstatError \<Rightarrow> ArtifactError
      | NotExist \<Rightarrow>
          let parent = filepath_Dir current in
          if parent = current then ArtifactError
          else canonicalArtifactLoop n env parent (filepath_Base current # missingSuffix))"

definition canonicalCatalogArtifactPath :: "config_env \<Rightarrow> string \<Rightarrow> artifact_result" where
  "canonicalCatalogArtifactPath env path = canonicalArtifactLoop (length path + 2) env path []"

definition artifacts_clash :: "config_env \<Rightarrow> string \<Rightarrow> string \<Rightarrow> (config_error, unit) result" where
  "artifacts_clash env first second =
     (case (canonicalCatalogArtifactPath env first, canonicalCatalogArtifactPath env second) of
        (ArtifactPath a, ArtifactPath b) \<Rightarrow>
          if ce_equalFold env a b then Inl ArtifactsShared
          else (case ce_sameFile env first second of
                  None \<Rightarrow> Inl ArtifactsUnresolved
                | Some same \<Rightarrow> if same then Inl ArtifactsShared else Inr ())
      | _ \<Rightarrow> Inl ArtifactsUnresolved)"

fun check_all :: "('a \<Rightarrow> ('e, unit) result) \<Rightarrow> 'a list \<Rightarrow> ('e, unit) result" where
  "check_all f [] = Inr ()"
| "check_all f (x # xs) = (case f x of Inl e \<Rightarrow> Inl e | Inr _ \<Rightarrow> check_all f xs)"

fun validateCatalogArtifactSeparation :: "config_env \<Rightarrow> string list \<Rightarrow> (config_error, unit) result" where
  "validateCatalogArtifactSeparation env [] = Inr ()"
| "validateCatalogArtifactSeparation env (p # ps) =
     (case check_all (\<lambda>second. check_all (\<lambda>a. check_all (\<lambda>b. artifacts_clash env a b) (catalogArtifactPaths second))
         (catalogArtifactPaths p)) ps of
        Inl e \<Rightarrow> Inl e
      | Inr _ \<Rightarrow> validateCatalogArtifactSeparation env ps)"

section \<open>Validation\<close>

definition effective_mode :: "relay_config \<Rightarrow> string" where
  "effective_mode c = (if cf_UpstreamMode c = [] then ''external_gateway'' else cf_UpstreamMode c)"

definition validate_scope :: "relay_config \<Rightarrow> (config_error, unit) result" where
  "validate_scope c =
     (if Scope c = ''production'' then Inr ()
      else if Scope c = ''local_development''
      then (if cf_ListenAddress c \<noteq> ''127.0.0.1:18190'' then Inl ListenDevelopment else Inr ())
      else Inl ScopeInvalid)"

definition validate_external :: "config_env \<Rightarrow> relay_config \<Rightarrow> (config_error, unit) result" where
  "validate_external env c =
     (case NormalizeExternalGatewayURL env (cf_UpstreamBaseURL c) of
        Inl _ \<Rightarrow> Inl UpstreamURL
      | Inr normalized \<Rightarrow>
          let profile = RemoteAuthenticationProfile (cf_Credentials c); src = cc_Source (cf_Credentials c) in
          if normalized \<noteq> cf_UpstreamBaseURL c then Inl UpstreamURL
          else if isl (RequiredCredentialKinds profile) then Inl AuthProfile
          else if profile = ''local_opencodex_api_key'' then Inl LocalKeyReserved
          else if profile = ''none'' \<and> src \<noteq> ''none'' \<and> src \<noteq> ''keychain'' \<and> src \<noteq> ''file'' then Inl CredentialSource
          else if profile \<noteq> ''none'' \<and> src \<noteq> ''keychain'' \<and> src \<noteq> ''file'' then Inl CredentialSource
          else if has_prefix normalized ''http://'' then
            (if profile = ''cloudflare_access_and_gateway_api_key'' then Inl CloudflareNeedsHTTPS
             else if \<not> cc_AllowInsecurePrivateIP (cf_Credentials c) then Inl InsecureNotAcknowledged else Inr ())
          else if cc_AllowInsecurePrivateIP (cf_Credentials c) then Inl InsecureNotHTTP else Inr ())"

definition validate_upstream :: "config_env \<Rightarrow> relay_config \<Rightarrow> (config_error, unit) result" where
  "validate_upstream env c =
     (if effective_mode c = ''external_gateway'' then validate_external env c
      else if effective_mode c = ''local_opencodex'' then
        (if \<not> IsLocalOpenCodexBaseURL (cf_UpstreamBaseURL c) then Inl LocalUpstreamURL
         else if cc_Source (cf_Credentials c) \<noteq> ''none'' then Inl LocalCredentials
         else if RemoteAuthenticationProfile (cf_Credentials c) \<noteq> ''none'' \<or> cc_AllowInsecurePrivateIP (cf_Credentials c)
         then Inl LocalAuthentication else Inr ())
      else if effective_mode c = ''local_apple_container'' then
        (if \<not> cf_localAppleContainerRuntime c \<or> cf_LocalAppleContainer c = None then Inl AppleDerivedOnly
         else if \<not> IsLocalAppleContainerBaseURL (cf_UpstreamBaseURL c) then Inl AppleUpstreamURL
         else if cc_Source (cf_Credentials c) \<noteq> ''keychain'' \<or> cc_File (cf_Credentials c) \<noteq> [] then Inl AppleCredentials
         else if RemoteAuthenticationProfile (cf_Credentials c) \<noteq> ''local_opencodex_api_key'' \<or> cc_AllowInsecurePrivateIP (cf_Credentials c)
         then Inl AppleAuthentication else Inr ())
      else Inl UpstreamModeInvalid)"

fun validate_models :: "config_env \<Rightarrow> string list \<Rightarrow> (string \<times> string) list \<Rightarrow> (config_error, unit) result" where
  "validate_models env seen [] = Inr ()"
| "validate_models env seen ((model, mode) # ms) =
     (if model = [] then Inl ModelEmpty
      else if TrimSpace model \<noteq> model then Inl ModelWhitespace
      else if list_ex (\<lambda>previous. ce_equalFold env previous model) seen then Inl ModelDuplicate
      else if mode \<noteq> ''bounded_json'' then Inl ModelMode
      else validate_models env (seen @ [model]) ms)"

definition validate_responses :: "config_env \<Rightarrow> relay_config \<Rightarrow> (config_error, unit) result" where
  "validate_responses env c =
     (let r = cf_Responses c; ws = (if rc_WebSocketMode r = [] then ''passthrough'' else rc_WebSocketMode r) in
      if cc_Source (cf_Credentials c) = ''file'' \<and> cc_File (cf_Credentials c) = [] then Inl CredentialFileRequired
      else if ws \<noteq> ''passthrough'' \<and> ws \<noteq> ''http_fallback'' then Inl WebSocketMode
      else (case validate_models env [] (rc_ModelModes r) of
              Inl e \<Rightarrow> Inl e
            | Inr _ \<Rightarrow> if rc_ModelModes r \<noteq> [] \<and> ws \<noteq> ''http_fallback'' then Inl ModelsNeedFallback else Inr ()))"

definition validateIntRange :: "int \<Rightarrow> int \<Rightarrow> int \<Rightarrow> (config_error, unit) result" where
  "validateIntRange v minimum maximum = (if v < minimum \<or> v > maximum then Inl RangeError else Inr ())"

definition validate_scheduler :: "relay_config \<Rightarrow> string \<times> int \<Rightarrow> (config_error, unit) result" where
  "validate_scheduler c primary =
     (let s = scheduler_applyDefaults (cf_ListenAddress c) (rc_Scheduler (cf_Responses c)) in
      if Scope c = ''local_development'' \<and> sg_InteractiveListenAddress s \<noteq> ''127.0.0.1:18192'' then Inl InteractiveDevelopment
      else (case parseLoopbackListenAddress (sg_InteractiveListenAddress s) of
        None \<Rightarrow> Inl InteractiveInvalid
      | Some interactive \<Rightarrow>
          if primary = interactive then Inl InteractiveSame
          else check_all (\<lambda>(v, minimum, maximum). validateIntRange v minimum maximum)
            [(sg_MaxClassifications s, 1, 64), (sg_MaxPendingRequests s, 1, 256),
             (sg_MaxPendingEncodedBytes s, minResponsesPendingBytes, maxResponsesPendingBytes),
             (sg_QueueTimeoutMS s, 1000, 300000), (sg_MaxGeneralUpstream s, 1, 64),
             (sg_InteractiveReservedUpstream s, 1, 16), (sg_MaxConcurrentTransforms s, 1, 16),
             (sg_MaxOpenDeliveries s, 1, 256)]))"

definition validate_catalog :: "relay_config \<Rightarrow> (config_error, unit) result" where
  "validate_catalog c =
     (let owner = (if ct_Owner (cf_Catalog c) = [] then ''relay'' else ct_Owner (cf_Catalog c)); mode = effective_mode c;
          path = ct_Path (cf_Catalog c) in
      if owner \<noteq> ''relay'' \<and> owner \<noteq> ''remote_manager'' then Inl CatalogOwnerInvalid
      else if mode = ''local_opencodex'' \<and> owner \<noteq> ''remote_manager'' \<and> \<not> (cf_localProfileRuntime c \<and> owner = ''relay'')
      then Inl CatalogOwnerInvalid
      else if mode = ''local_apple_container'' \<and> owner \<noteq> ''relay'' then Inl CatalogOwnerInvalid
      else if mode = ''external_gateway'' \<and> owner \<noteq> ''relay'' then Inl CatalogOwnerInvalid
      else if cf_ProbeEnabled c \<and> mode \<noteq> ''external_gateway'' then Inl ProbeNeedsExternal
      else if path = [] then Inl CatalogPathRequired
      else if Scope c = ''local_development'' \<and>
        (\<not> clean_absolute path \<or>
         filepath_Base path \<noteq> (if cf_localProfileRuntime c then ''opencodex-relay-dev-local-catalog.json''
            else if cf_localAppleContainerRuntime c then ''opencodex-relay-dev-apple-container-catalog.json''
            else ''opencodex-relay-dev-external-catalog.json'') \<or>
         (\<not> cf_localProfileRuntime c \<and> (case cf_LocalOpenCodex c of None \<Rightarrow> False
            | Some l \<Rightarrow> filepath_Base (lo_CatalogPath l) \<noteq> ''opencodex-relay-dev-local-catalog.json'')) \<or>
         (\<not> cf_localAppleContainerRuntime c \<and> (case cf_LocalAppleContainer c of None \<Rightarrow> False
            | Some l \<Rightarrow> filepath_Base (la_CatalogPath l) \<noteq> ''opencodex-relay-dev-apple-container-catalog.json'')))
      then Inl CatalogDevelopment
      else if ct_AppServerHome (cf_Catalog c) \<noteq> [] \<and> \<not> clean_absolute (ct_AppServerHome (cf_Catalog c)) then Inl AppServerHomeInvalid
      else if ct_CodexExecutable (cf_Catalog c) = [] then Inl ExecutableRequired
      else Inr ())"

definition validateLocalOpenCodexProfile :: "relay_config \<Rightarrow> string \<Rightarrow> (config_error, unit) result" where
  "validateLocalOpenCodexProfile c upstreamMode =
     (if cf_localProfileRuntime c then
        (if cf_LocalOpenCodex c = None \<or> upstreamMode \<noteq> ''local_opencodex'' \<or> ct_Owner (cf_Catalog c) \<noteq> ''relay''
         then Inl LocalProfileInvalid else Inr ())
      else (case cf_LocalOpenCodex c of
        None \<Rightarrow> Inr ()
      | Some l \<Rightarrow>
          if upstreamMode \<noteq> ''external_gateway'' then Inl LocalProfileInvalid
          else if \<not> IsLocalOpenCodexBaseURL (lo_UpstreamBaseURL l) then Inl LocalProfileInvalid
          else if \<not> clean_absolute (lo_CatalogPath l) then Inl LocalProfileInvalid
          else if \<not> clean_absolute (ct_Path (cf_Catalog c)) then Inl LocalProfileInvalid
          else Inr ()))"

definition validateLocalAppleContainerProfile :: "relay_config \<Rightarrow> string \<Rightarrow> (config_error, unit) result" where
  "validateLocalAppleContainerProfile c upstreamMode =
     (if cf_localAppleContainerRuntime c then
        (if cf_LocalAppleContainer c = None \<or> upstreamMode \<noteq> ''local_apple_container'' \<or> ct_Owner (cf_Catalog c) \<noteq> ''relay''
         then Inl AppleProfileInvalid else Inr ())
      else (case cf_LocalAppleContainer c of
        None \<Rightarrow> Inr ()
      | Some l \<Rightarrow>
          if upstreamMode \<noteq> ''external_gateway'' then Inl AppleProfileInvalid
          else if \<not> IsLocalAppleContainerBaseURL (la_UpstreamBaseURL l) then Inl AppleProfileInvalid
          else if \<not> clean_absolute (la_CatalogPath l) then Inl AppleProfileInvalid
          else if filepath_Base (la_CatalogPath l) \<noteq>
            (if Scope c = ''local_development'' then ''opencodex-relay-dev-apple-container-catalog.json''
             else ''opencodex-relay-apple-container-catalog.json'') then Inl AppleProfileInvalid
          else if TrimSpace (la_CredentialAccount l) \<noteq> la_CredentialAccount l then Inl AppleProfileInvalid
          else Inr ()))"

definition RefreshEvery :: "config_env \<Rightarrow> relay_config \<Rightarrow> (config_error, int) result" where
  "RefreshEvery env c =
     (case ce_parseDuration env (ct_RefreshInterval (cf_Catalog c)) of
        None \<Rightarrow> Inl RefreshInterval
      | Some v \<Rightarrow> if v < 60 * 1000000000 then Inl RefreshInterval else Inr v)"

definition profile_paths :: "relay_config \<Rightarrow> string list" where
  "profile_paths c = ct_Path (cf_Catalog c) #
     (case cf_LocalOpenCodex c of None \<Rightarrow> [] | Some l \<Rightarrow> [lo_CatalogPath l]) @
     (case cf_LocalAppleContainer c of None \<Rightarrow> [] | Some l \<Rightarrow> [la_CatalogPath l])"

text \<open>\<open>a then_check b\<close> runs the second check when the first passes; \<open>Validate\<close> is the sequence of the
  blocks of the Go function in their order.\<close>

definition then_check :: "('e, unit) result \<Rightarrow> ('e, unit) result \<Rightarrow> ('e, unit) result" where
  "then_check a b = (case a of Inl e \<Rightarrow> Inl e | Inr _ \<Rightarrow> b)"

definition Validate :: "config_env \<Rightarrow> relay_config \<Rightarrow> (config_error, unit) result" where
  "Validate env c =
     then_check (validate_scope c)
     (if cf_ListenAddress c = [] then Inl ListenRequired
      else (case parseLoopbackListenAddress (cf_ListenAddress c) of
        None \<Rightarrow> Inl ListenInvalid
      | Some primary \<Rightarrow>
          then_check (validate_upstream env c)
         (then_check (validate_responses env c)
         (then_check (validate_scheduler c primary)
         (then_check (validate_catalog c)
         (then_check (validateLocalOpenCodexProfile c (effective_mode c))
         (then_check (validateLocalAppleContainerProfile c (effective_mode c))
         (then_check (if \<not> cf_localProfileRuntime c \<and> \<not> cf_localAppleContainerRuntime c
                      then validateCatalogArtifactSeparation env (profile_paths c) else Inr ())
           (map_sum id (\<lambda>_. ()) (RefreshEvery env c))))))))))"

section \<open>Derived runtime configurations, loading and writing\<close>

definition LocalOpenCodexRuntimeConfig :: "config_env \<Rightarrow> relay_config \<Rightarrow> (config_error, relay_config) result" where
  "LocalOpenCodexRuntimeConfig env c =
     (case cf_LocalOpenCodex c of
        None \<Rightarrow> Inl NotEnrolled
      | Some l \<Rightarrow>
          if cf_UpstreamMode c \<noteq> ''external_gateway'' then Inl NeedsExternal
          else (case Validate env c of
            Inl e \<Rightarrow> Inl e
          | Inr _ \<Rightarrow>
              let r = c\<lparr>cf_UpstreamMode := ''local_opencodex'', cf_UpstreamBaseURL := lo_UpstreamBaseURL l,
                cf_Credentials := \<lparr>cc_Source = ''none'', cc_File = [], cc_Account = [], cc_AuthenticationProfile = [],
                  cc_AllowInsecurePrivateIP = False\<rparr>,
                cf_Catalog := (cf_Catalog c)\<lparr>ct_Owner := ''relay'', ct_Path := lo_CatalogPath l\<rparr>,
                cf_ProbeEnabled := False, cf_LocalAppleContainer := None, cf_localProfileRuntime := True\<rparr>
              in (case Validate env r of Inl e \<Rightarrow> Inl e | Inr _ \<Rightarrow> Inr r)))"

definition LocalAppleContainerRuntimeConfig :: "config_env \<Rightarrow> relay_config \<Rightarrow> (config_error, relay_config) result" where
  "LocalAppleContainerRuntimeConfig env c =
     (case cf_LocalAppleContainer c of
        None \<Rightarrow> Inl NotEnrolled
      | Some l \<Rightarrow>
          if cf_UpstreamMode c \<noteq> ''external_gateway'' then Inl NeedsExternal
          else (case Validate env c of
            Inl e \<Rightarrow> Inl e
          | Inr _ \<Rightarrow>
              let r = c\<lparr>cf_UpstreamMode := ''local_apple_container'', cf_UpstreamBaseURL := la_UpstreamBaseURL l,
                cf_Credentials := \<lparr>cc_Source = ''keychain'', cc_File = [], cc_Account = la_CredentialAccount l,
                  cc_AuthenticationProfile = ''local_opencodex_api_key'', cc_AllowInsecurePrivateIP = False\<rparr>,
                cf_Catalog := (cf_Catalog c)\<lparr>ct_Owner := ''relay'', ct_Path := la_CatalogPath l\<rparr>,
                cf_ProbeEnabled := False, cf_LocalOpenCodex := None, cf_localAppleContainerRuntime := True\<rparr>
              in (case Validate env r of Inl e \<Rightarrow> Inl e | Inr _ \<Rightarrow> Inr r)))"

text \<open>\<open>Load\<close> on the bytes of the file (\<open>None\<close> is a failed read) and \<open>Write\<close>, whose result is the new
  contents of the file: the temporary file may fail to be renamed over it, and after the rename the
  directory may fail to sync.\<close>

definition Load :: "config_env \<Rightarrow> bytes option \<Rightarrow> (config_error, relay_config) result" where
  "Load env file =
     (case file of
        None \<Rightarrow> Inl ConfigUnreadable
      | Some bytes \<Rightarrow> (case ce_decode env bytes of
        None \<Rightarrow> Inl ConfigDecode
      | Some cfg0 \<Rightarrow>
          let cfg = applyDefaults cfg0 in
          (case Validate env cfg of Inl e \<Rightarrow> Inl e | Inr _ \<Rightarrow> Inr cfg)))"

definition Write :: "config_env \<Rightarrow> bool \<Rightarrow> bool \<Rightarrow> bytes option \<Rightarrow> relay_config \<Rightarrow> bytes option \<times> (config_error, unit) result" where
  "Write env renamed synced file cfg0 =
     (let cfg = applyDefaults cfg0 in
      case Validate env cfg of
        Inl e \<Rightarrow> (file, Inl e)
      | Inr _ \<Rightarrow> if renamed then (Some (ce_encode env cfg @ [newline]), if synced then Inr () else Inl ConfigWriteFailed)
                 else (file, Inl ConfigWriteFailed))"

text \<open>\<open>proxy.New\<close>: the limits the proxy's scheduler is built with; durations are nanoseconds.\<close>

definition proxy_limits :: "relay_config \<Rightarrow> limits" where
  "proxy_limits cfg =
     (let s = rc_Scheduler (cf_Responses cfg) in
      \<lparr>MaxClassifications = sg_MaxClassifications s, MaxPendingRequests = sg_MaxPendingRequests s,
       MaxPendingBytes = sg_MaxPendingEncodedBytes s, QueueTimeout = sg_QueueTimeoutMS s * 1000000,
       MaxGeneralUpstream = sg_MaxGeneralUpstream s, InteractiveReservedUpstream = sg_InteractiveReservedUpstream s,
       MaxConcurrentTransforms = sg_MaxConcurrentTransforms s, MaxOpenDeliveries = sg_MaxOpenDeliveries s\<rparr>)"

section \<open>Facts on validation\<close>

lemma then_check_ok [simp]: "then_check a b = Inr () \<longleftrightarrow> a = Inr () \<and> b = Inr ()"
  by (auto simp: then_check_def split: sum.splits)

lemma check_all_ok: "check_all f xs = Inr () \<longleftrightarrow> (\<forall>x \<in> set xs. f x = Inr ())"
  by (induction xs) (auto split: sum.splits)

declare check_all.simps [simp del]

lemma canonicalArtifactLoop_step:
  assumes "filepath_Dir p = p \<or> canonicalArtifactLoop n env (filepath_Dir p) (filepath_Base p # suffix) \<noteq> ArtifactOutOfFuel"
  shows "canonicalArtifactLoop (Suc n) env p suffix \<noteq> ArtifactOutOfFuel"
  using assms by (auto simp: Let_def split: lstat.split option.split)

lemma canonicalArtifactLoop_single:
  assumes "length p \<le> 1" shows "canonicalArtifactLoop (Suc (Suc n)) env p suffix \<noteq> ArtifactOutOfFuel"
proof -
  have dot: "canonicalArtifactLoop (Suc n) env ''.'' s \<noteq> ArtifactOutOfFuel" for s
    by (rule canonicalArtifactLoop_step) (simp only: Dir_dot simp_thms)
  have "p = [] \<or> length p = 1" using assms by (cases p) auto
  then have "filepath_Dir p = p \<or> filepath_Dir p = ''.''" using Dir_single Dir_dot(2) by blast
  then show ?thesis by (rule disjE) (rule canonicalArtifactLoop_step, metis dot)+
qed

text \<open>The walk always ends: a parent is shorter until one byte is left.\<close>

lemma canonicalArtifactLoop_ends: "length p + 2 \<le> n \<Longrightarrow> canonicalArtifactLoop n env p suffix \<noteq> ArtifactOutOfFuel"
proof (induction n arbitrary: p suffix)
  case (Suc n)
  show ?case
  proof (cases "length p \<le> 1")
    case True
    then show ?thesis using canonicalArtifactLoop_single Suc.prems by (metis Suc_le_D add_2_eq_Suc' Suc_le_mono)
  next
    case False
    then have "length (filepath_Dir p) + 2 \<le> n" using Dir_length [of p] Suc.prems by simp
    then show ?thesis using Suc.IH by (intro canonicalArtifactLoop_step) blast
  qed
qed simp

lemma canonicalCatalogArtifactPath_ends: "canonicalCatalogArtifactPath env path \<noteq> ArtifactOutOfFuel"
  unfolding canonicalCatalogArtifactPath_def by (rule canonicalArtifactLoop_ends) simp

lemma range_ok [simp]: "validateIntRange v minimum maximum = Inr () \<longleftrightarrow> minimum \<le> v \<and> v \<le> maximum"
  by (auto simp: validateIntRange_def)

lemma or_default_idem [simp]: "k \<noteq> 0 \<Longrightarrow> or_default (or_default v k) k = or_default v k"
  by (simp add: or_default_def)

lemma scheduler_defaults_idem:
  "scheduler_applyDefaults a (scheduler_applyDefaults a s) = scheduler_applyDefaults a s"
  by (simp add: scheduler_applyDefaults_def split: option.splits prod.splits)

lemma applyDefaults_idem: "applyDefaults (applyDefaults c) = applyDefaults c"
  by (simp add: applyDefaults_def scheduler_defaults_idem)

lemma Validate_parts:
  assumes "Validate env c = Inr ()"
  obtains primary where "parseLoopbackListenAddress (cf_ListenAddress c) = Some primary"
    "validate_scope c = Inr ()" "validate_upstream env c = Inr ()" "validate_responses env c = Inr ()"
    "validate_scheduler c primary = Inr ()" "validate_catalog c = Inr ()"
    "validateLocalOpenCodexProfile c (effective_mode c) = Inr ()"
    "validateLocalAppleContainerProfile c (effective_mode c) = Inr ()"
    "\<not> cf_localProfileRuntime c \<longrightarrow> \<not> cf_localAppleContainerRuntime c \<longrightarrow>
       validateCatalogArtifactSeparation env (profile_paths c) = Inr ()"
  using assms by (auto simp: Validate_def split: if_splits option.splits)

lemma scheduler_ranges:
  assumes "validate_scheduler c primary = Inr ()"
    and "s = scheduler_applyDefaults (cf_ListenAddress c) (rc_Scheduler (cf_Responses c))"
  shows "1 \<le> sg_MaxClassifications s \<and> sg_MaxClassifications s \<le> 64"
    "1 \<le> sg_MaxPendingRequests s \<and> sg_MaxPendingRequests s \<le> 256"
    "minResponsesPendingBytes \<le> sg_MaxPendingEncodedBytes s \<and> sg_MaxPendingEncodedBytes s \<le> maxResponsesPendingBytes"
    "1000 \<le> sg_QueueTimeoutMS s \<and> sg_QueueTimeoutMS s \<le> 300000"
    "1 \<le> sg_MaxGeneralUpstream s \<and> sg_MaxGeneralUpstream s \<le> 64"
    "1 \<le> sg_InteractiveReservedUpstream s \<and> sg_InteractiveReservedUpstream s \<le> 16"
    "1 \<le> sg_MaxConcurrentTransforms s \<and> sg_MaxConcurrentTransforms s \<le> 16"
    "1 \<le> sg_MaxOpenDeliveries s \<and> sg_MaxOpenDeliveries s \<le> 256"
  using assms by (auto simp: validate_scheduler_def Let_def check_all_ok split: if_splits option.splits)

text \<open>C31: a configuration that loads always yields a scheduler. The limits the proxy takes from a
  loaded configuration are accepted by \<open>scheduler.New\<close>, stay within the configured ranges, and the
  queue timeout in nanoseconds fits a 64-bit duration.\<close>

theorem loaded_config_builds_scheduler:
  assumes "Load env file = Inr cfg"
  shows "(\<exists>s. Scheduler.New (proxy_limits cfg) = Inr s) \<and>
    MaxPendingRequests (proxy_limits cfg) \<le> 256 \<and>
    32 * MiB \<le> MaxPendingBytes (proxy_limits cfg) \<and> MaxPendingBytes (proxy_limits cfg) \<le> 16 * 1024 * MiB \<and>
    1000000000 \<le> QueueTimeout (proxy_limits cfg) \<and> QueueTimeout (proxy_limits cfg) < 2 ^ 63"
proof -
  obtain cfg0 where cfg: "cfg = applyDefaults cfg0" and v: "Validate env cfg = Inr ()"
    using assms by (auto simp: Load_def Let_def split: option.splits sum.splits)
  obtain primary where s: "validate_scheduler cfg primary = Inr ()" by (rule Validate_parts [OF v])
  have "rc_Scheduler (cf_Responses cfg) = scheduler_applyDefaults (cf_ListenAddress cfg) (rc_Scheduler (cf_Responses cfg))"
    unfolding cfg by (simp add: applyDefaults_def scheduler_defaults_idem)
  note r = scheduler_ranges [OF s this]
  then show ?thesis
    by (auto simp: Scheduler.New_def limits_validate_def proxy_limits_def Let_def MiB_def
        minResponsesPendingBytes_def maxResponsesPendingBytes_def)
qed

section \<open>An example environment\<close>

definition example_scheduler_config :: scheduler_config where
  "example_scheduler_config = \<lparr>sg_InteractiveListenAddress = [], sg_MaxClassifications = 0, sg_MaxPendingRequests = 0,
     sg_MaxPendingEncodedBytes = 0, sg_QueueTimeoutMS = 0, sg_MaxGeneralUpstream = 0, sg_InteractiveReservedUpstream = 0,
     sg_MaxConcurrentTransforms = 0, sg_MaxOpenDeliveries = 0\<rparr>"

definition example_config :: relay_config where
  "example_config = \<lparr>cf_InstallationScope = [], cf_ListenAddress = DefaultListenAddress, cf_UpstreamMode = ''external_gateway'',
     cf_UpstreamBaseURL = ''http://10.0.0.7/v1'', cf_VoiceEnabled = False,
     cf_Credentials = \<lparr>cc_Source = ''keychain'', cc_File = [], cc_Account = [], cc_AuthenticationProfile = ''gateway_api_key'',
       cc_AllowInsecurePrivateIP = True\<rparr>,
     cf_Responses = \<lparr>rc_WebSocketMode = [], rc_ModelModes = [], rc_Scheduler = example_scheduler_config\<rparr>,
     cf_Catalog = \<lparr>ct_Owner = [], ct_Path = ''/h/e.json'', ct_RefreshInterval = ''10m'', ct_ManageAppServer = False,
       ct_AppServerHome = [], ct_CodexExecutable = ''codex''\<rparr>,
     cf_ProbeEnabled = False,
     cf_LocalOpenCodex = Some \<lparr>lo_UpstreamBaseURL = localOpenCodexIPv4URL, lo_CatalogPath = ''/h/l.json''\<rparr>,
     cf_LocalAppleContainer = None, cf_localProfileRuntime = False, cf_localAppleContainerRuntime = False\<rparr>"

definition example_url :: gateway_url where
  "example_url = \<lparr>gu_Scheme = ''http'', gu_Opaque = [], gu_HasUser = False, gu_Host = ''10.0.0.7'', gu_Path = ''/v1'',
     gu_RawPath = [], gu_ForceQuery = False, gu_RawQuery = [], gu_Fragment = []\<rparr>"

definition example_config_env :: config_env where
  "example_config_env = \<lparr>ce_parseURL = (\<lambda>s. if s = ''http://10.0.0.7/v1'' then Some example_url else None),
     ce_hostname = gu_Host, ce_port = (\<lambda>u. []), ce_escapedPath = gu_Path,
     ce_urlString = (\<lambda>u. if CHR '':'' \<in> set (gu_Scheme u) then [] else gu_Scheme u @ ''://'' @ gu_Host u @ gu_Path u),
     ce_parseIP = (\<lambda>s. if s = ''10.0.0.7'' then Some (IPv4 10 0 0 7) else None), ce_equalFold = (=),
     ce_parseDuration = (\<lambda>s. if s = ''10m'' then Some 600000000000 else None),
     ce_lstat = (\<lambda>p. if p = ''/'' then Exists else NotExist), ce_evalSymlinks = Some, ce_sameFile = (\<lambda>a b. Some False),
     ce_decode = (\<lambda>b. if b = [newline] then Some (applyDefaults example_config) else None), ce_encode = (\<lambda>c. [])\<rparr>"

lemma example_loads: "Load example_config_env (Some [newline]) = Inr (applyDefaults example_config)"
  by code_simp

theorem loaded_config_builds_scheduler_witness:
  "Load example_config_env (Some [newline]) = Inr (applyDefaults example_config) \<and>
   (\<exists>s. Scheduler.New (proxy_limits (applyDefaults example_config)) = Inr s)"
  using loaded_config_builds_scheduler [OF example_loads] example_loads by blast

section \<open>Round trip\<close>

definition durable :: "relay_config \<Rightarrow> relay_config" where
  "durable c = c\<lparr>cf_localProfileRuntime := False, cf_localAppleContainerRuntime := False\<rparr>"

text \<open>C32: a written configuration loads back as itself. The two runtime marks are not serialized, so
  the round trip holds for a durable configuration; what \<open>Load\<close> returns has all defaults filled in and
  filling them in again changes nothing. A failed write leaves the old file or exactly the new
  contents.\<close>

theorem Write_then_Load:
  assumes json: "ce_decode env (ce_encode env (applyDefaults cfg) @ [newline]) = Some (durable (applyDefaults cfg))"
    and call: "Write env renamed synced file cfg = (file', r)" 
    and flags: "\<not> cf_localProfileRuntime cfg" "\<not> cf_localAppleContainerRuntime cfg"
  shows "(r = Inr () \<longrightarrow> Load env file' = Inr (applyDefaults cfg)) \<and> applyDefaults (applyDefaults cfg) = applyDefaults cfg \<and>
    (isl r \<longrightarrow> file' = file \<or> Load env file' = Inr (applyDefaults cfg))"
proof -
  have flags': "durable (applyDefaults cfg) = applyDefaults cfg"
    using flags by (intro relay_config.equality) (simp_all add: durable_def applyDefaults_def)
  have "Load env (Some (ce_encode env (applyDefaults cfg) @ [newline])) = Inr (applyDefaults cfg)" if "Validate env (applyDefaults cfg) = Inr ()"
    using that by (simp add: Load_def json flags' applyDefaults_idem Let_def)
  then show ?thesis using call applyDefaults_idem [of cfg]
    by (auto simp: Write_def Let_def split: sum.splits if_splits)
qed

theorem Write_then_Load_witness:
  "Write example_config_env True True None example_config = (Some [newline], Inr ()) \<and>
   Load example_config_env (Some [newline]) = Inr (applyDefaults example_config)"
proof -
  have j: "ce_decode example_config_env (ce_encode example_config_env (applyDefaults example_config) @ [newline]) =
    Some (durable (applyDefaults example_config))" by code_simp
  have w: "Write example_config_env True True None example_config = (Some [newline], Inr ())" by code_simp
  have f: "\<not> cf_localProfileRuntime example_config" "\<not> cf_localAppleContainerRuntime example_config"
    by (simp_all add: example_config_def)
  show ?thesis using Write_then_Load [OF j w f] w by simp
qed

section \<open>Derived configurations\<close>

lemma separated_paths:
  assumes "validateCatalogArtifactSeparation env (a # ps) = Inr ()" "b \<in> set ps" "\<And>x. ce_equalFold env x x"
  shows "a \<noteq> b"
proof
  assume "a = b"
  have "artifacts_clash env a b = Inr ()"
    using assms(1,2) by (auto simp: check_all_ok catalogArtifactPaths_def split: sum.splits)
  then show False using assms(3) \<open>a = b\<close> by (auto simp: artifacts_clash_def split: artifact_result.splits if_splits)
qed

lemma Validate_separation:
  assumes "Validate env c = Inr ()" "\<not> cf_localProfileRuntime c" "\<not> cf_localAppleContainerRuntime c"
  shows "validateCatalogArtifactSeparation env (profile_paths c) = Inr ()"
  using assms(1)
proof (rule Validate_parts)
qed (use assms in simp_all)

lemma not_durable_local:
  assumes "effective_mode c = ''local_opencodex''" "\<not> cf_localProfileRuntime c" "ct_Owner (cf_Catalog c) = ''relay''"
  shows "Validate env c \<noteq> Inr ()"
  using assms by (auto elim!: Validate_parts simp: validate_catalog_def Let_def)

lemma not_durable_apple:
  assumes "effective_mode c = ''local_apple_container''" "\<not> cf_localAppleContainerRuntime c"
  shows "Validate env c \<noteq> Inr ()"
  using assms by (auto elim!: Validate_parts simp: validate_upstream_def)



section \<open>Plain HTTP\<close>

definition ipv4_value :: "8 word \<Rightarrow> 8 word \<Rightarrow> 8 word \<Rightarrow> 8 word \<Rightarrow> nat" where
  "ipv4_value a b c d = unat a * 2 ^ 24 + unat b * 2 ^ 16 + unat c * 2 ^ 8 + unat d"

text \<open>RFC 1918 as intervals of 32-bit addresses, and the IPv6 unique local prefix \<open>fc00::/7\<close>.\<close>

fun private_address :: "ip \<Rightarrow> bool" where
  "private_address (IPv4 a b c d) =
     (let n = ipv4_value a b c d in
      10 * 2 ^ 24 \<le> n \<and> n < 11 * 2 ^ 24 \<or>
      172 * 2 ^ 24 + 16 * 2 ^ 16 \<le> n \<and> n < 172 * 2 ^ 24 + 32 * 2 ^ 16 \<or>
      192 * 2 ^ 24 + 168 * 2 ^ 16 \<le> n \<and> n < 192 * 2 ^ 24 + 169 * 2 ^ 16)"
| "private_address (IPv6 bs) = (length bs = 16 \<and> (hd bs = 0xfc \<or> hd bs = 0xfd))"

lemma byte_mask_table: "list_all (\<lambda>n. ((word_of_int n :: 8 word) AND 254 = 252) = (n = 252 \<or> n = 253)) (map int [0..<256])"
  by code_simp

lemma byte_less: "unat (w :: 8 word) < 256"
  using unsigned_less [where 'b = 8 and 'a = nat, of w] by simp

lemma byte_mask: "(w :: 8 word) AND 0xfe = 0xfc \<longleftrightarrow> w = 0xfc \<or> w = 0xfd"
proof -
  have "int (unat w) \<in> set (map int [0..<256])" unfolding set_map set_upt using byte_less by (intro imageI) simp
  then have "(word_of_int (int (unat w)) AND (254 :: 8 word) = 252) = (int (unat w) = 252 \<or> int (unat w) = 253)"
    using byte_mask_table unfolding list_all_iff by blast
  moreover have "word_of_int (int (unat w)) = w" by simp
  moreover have "w = 252 \<longleftrightarrow> int (unat w) = 252" "w = 253 \<longleftrightarrow> int (unat w) = 253"
    unfolding word_unat_eq_iff by (simp_all del: of_nat_unat)
  ultimately show ?thesis by (simp only:)
qed

lemma ipv4_interval:
  assumes "l < h" "h \<le> 256"
  shows "x * 2 ^ 24 + l * 2 ^ 16 \<le> ipv4_value a b c d \<and> ipv4_value a b c d < x * 2 ^ 24 + h * 2 ^ 16 \<longleftrightarrow>
    unat a = x \<and> l \<le> unat b \<and> unat b < h"
  (is "?L \<longleftrightarrow> ?R")
proof
  note bytes = byte_less [of b] byte_less [of c] byte_less [of d]
  assume L: ?L
  have "ipv4_value a b c d < (unat a + 1) * 2 ^ 24" "unat a * 2 ^ 24 \<le> ipv4_value a b c d"
    "x * 2 ^ 24 + h * 2 ^ 16 \<le> (x + 1) * 2 ^ 24" using bytes assms by (simp_all add: ipv4_value_def)
  with L have "unat a = x" by simp
  moreover have "ipv4_value a b c d < unat a * 2 ^ 24 + (unat b + 1) * 2 ^ 16" using bytes by (simp add: ipv4_value_def)
  ultimately show ?R using L by (simp add: ipv4_value_def)
next
  note bytes = byte_less [of b] byte_less [of c] byte_less [of d]
  assume R: ?R
  then have "(unat b + 1) * 2 ^ 16 \<le> h * 2 ^ 16" by (intro mult_le_mono1) simp
  then show ?L using R bytes by (simp add: ipv4_value_def)
qed

lemma allowed_is_private: "isAllowedPrivateGatewayIP ip = private_address ip"
proof (cases ip)
  case (IPv4 a b c d)
  have "a = 10 \<longleftrightarrow> unat a = 10" "a = 172 \<longleftrightarrow> unat a = 172" "a = 192 \<longleftrightarrow> unat a = 192"
    unfolding word_unat_eq_iff by simp_all
  moreover have "b = 168 \<longleftrightarrow> 168 \<le> unat b \<and> unat b < 169" "16 \<le> b \<and> b \<le> 31 \<longleftrightarrow> 16 \<le> unat b \<and> unat b < 32"
    unfolding word_unat_eq_iff word_le_nat_alt by auto
  moreover have "10 * 2 ^ 24 \<le> ipv4_value a b c d \<and> ipv4_value a b c d < 11 * 2 ^ 24 \<longleftrightarrow> unat a = 10"
    using ipv4_interval [of 0 256 10 a b c d] byte_less [of b] by simp
  ultimately show ?thesis
    unfolding IPv4 isAllowedPrivateGatewayIP.simps private_address.simps Let_def
    using ipv4_interval [of 16 32 172 a b c d] ipv4_interval [of 168 169 192 a b c d] by simp
qed (simp add: byte_mask)

lemma if_Inl_eq_Inr: "(if b then Inl e else r) = Inr x \<longleftrightarrow> \<not> b \<and> r = Inr x"
  by simp

lemma Normalize_parts:
  assumes "NormalizeExternalGatewayURL env value = Inr out"
  obtains u where "ce_parseURL env value = Some u"
    "out = ce_urlString env (u\<lparr>gu_Scheme := map ascii_lower (gu_Scheme u), gu_Path := ''/v1'', gu_RawPath := []\<rparr>)"
    "map ascii_lower (gu_Scheme u) = ''http'' \<Longrightarrow>
      \<exists>ip. ce_parseIP env (ce_hostname env u) = Some ip \<and> isAllowedPrivateGatewayIP ip \<and> \<not> isLoopback ip"
proof (cases "ce_parseURL env value")
  case None
  then show ?thesis using assms by (simp only: NormalizeExternalGatewayURL_def if_Inl_eq_Inr option.case sum.distinct) blast
next
  case (Some u)
  note * = assms [unfolded NormalizeExternalGatewayURL_def Some option.case Let_def if_Inl_eq_Inr sum.inject]
  show ?thesis
  proof (rule that [OF Some])
    show "out = ce_urlString env (u\<lparr>gu_Scheme := map ascii_lower (gu_Scheme u), gu_Path := ''/v1'', gu_RawPath := []\<rparr>)"
      using * by iprover
  next
    assume "map ascii_lower (gu_Scheme u) = ''http''"
    then have "\<not> (case ce_parseIP env (ce_hostname env u) of None \<Rightarrow> True | Some ip \<Rightarrow> isLoopback ip \<or> \<not> isAllowedPrivateGatewayIP ip)"
      using * by iprover
    then show "\<exists>ip. ce_parseIP env (ce_hostname env u) = Some ip \<and> isAllowedPrivateGatewayIP ip \<and> \<not> isLoopback ip"
      by (simp split: option.splits)
  qed
qed


lemma example_url_String:
  assumes "has_prefix (ce_urlString example_config_env u) ''http://''" shows "gu_Scheme u = ''http''"
proof -
  obtain rest where colon: "CHR '':'' \<notin> set (gu_Scheme u)" and "gu_Scheme u @ ''://'' @ gu_Host u @ gu_Path u = ''http://'' @ rest"
    using assms by (auto simp: example_config_env_def has_prefix_iff split: if_splits)
  then show ?thesis using colon by (auto simp: append_eq_append_conv2 append_eq_Cons_conv Cons_eq_append_conv)
qed


end
