(* ===== verification/Routing_Controller.thy ===== *)
theory Routing_Controller
  imports Routing_Watcher Codex_Config Relay_Config
begin

text \<open>
  Package \<open>routing\<close>, file \<open>controller.go\<close>: the routing controller. This theory holds the controller's
  view of the world, the state transitions of a request and of its cancellation, and the whole
  operations \<open>RequestBackend...\<close>, \<open>Cancel\<close> and \<open>CatalogAdmissionAllowed\<close>; switching is in
  \<open>Routing_Apply\<close>.

  A world is the routing disk and the files that the controller reads and edits (the Codex files and
  \<open>relay.json\<close>). A routine runs on a world and returns the worlds that its writes leave behind, one
  after the other, and its result, so that a statement about a crash is one about all of them. The
  callbacks of the controller and the outcomes of its I/O are arguments: the configuration loader,
  SHA-256, the gates, the probes of the runtimes, credentials and health.
\<close>

section \<open>The controller and its world\<close>

datatype gateway_error =
    ErrGatewayInvalidAddress | ErrGatewayCredentialUnavailable | ErrGatewayAuthenticationFailed | ErrGatewayUnreachable
  | ErrGatewayCatalogInvalid | ErrGatewayTransitionPending | ErrGatewayRuntimeSwap | ErrGatewayUnsupported

datatype controller_error =
    RoutingErr routing_error | CodexErr codex_error | ConfigErr config_error | GatewayErr gateway_error
  | ErrConfigUnavailable | ErrExternalProfileUnavailable | ErrCredentialPreflight | ErrLocalOpenCodexPreflight
  | ErrForeignOverride | ErrArtifactsIncomplete | ErrLegacyInspection | ErrLockUnavailable | ErrRecoveryAction

record controller =
  ct_env :: routing_env
  ct_store :: store
  ct_codexConfigPath :: string
  ct_codexOwner :: owner
  ct_configEnv :: config_env
  ct_loadConfig :: "codex_fs \<Rightarrow> (config_error, relay_config) result"
  ct_sha256 :: "string \<Rightarrow> string"
  ct_localProfileOK :: bool
  ct_hasRuntimeControl :: bool

record world =
  wd_disk :: disk
  wd_files :: codex_fs

abbreviation ErrRecovery :: controller_error where "ErrRecovery \<equiv> RoutingErr ErrRecoveryRequired"

type_synonym 'a routine = "world \<Rightarrow> world list \<times> (controller_error, 'a) result"

definition final_world :: "world \<Rightarrow> world list \<Rightarrow> world" where
  "final_world w trace = last (w # trace)"

text \<open>A value that is computed from the world without a write.\<close>

definition pure_step :: "(world \<Rightarrow> (controller_error, 'a) result) \<Rightarrow> 'a routine" where
  "pure_step f w = ([], f w)"

text \<open>One write to the routing disk and one update of the files.\<close>

definition disk_step :: "(disk \<Rightarrow> disk \<times> (routing_error, unit) result) \<Rightarrow> unit routine" where
  "disk_step f w = (case f (wd_disk w) of (d, r) \<Rightarrow> ([w\<lparr>wd_disk := d\<rparr>], map_sum RoutingErr id r))"

definition files_step :: "(codex_fs \<Rightarrow> codex_fs \<times> (controller_error, unit) result) \<Rightarrow> unit routine" where
  "files_step f w = (case f (wd_files w) of (fs, r) \<Rightarrow> ([w\<lparr>wd_files := fs\<rparr>], r))"

text \<open>Run a step; \<open>handler\<close> is what the source does when it returns an error.\<close>

definition step_or ::
  "'a routine \<Rightarrow> (controller_error \<Rightarrow> 'b routine) \<Rightarrow> ('a \<Rightarrow> 'b routine) \<Rightarrow> 'b routine" where
  "step_or m handler k w =
     (case m w of (t, r) \<Rightarrow>
        (case (case r of Inl e \<Rightarrow> handler e (final_world w t) | Inr x \<Rightarrow> k x (final_world w t)) of
           (t', r') \<Rightarrow> (t @ t', r')))"

definition fail_with :: "controller_error \<Rightarrow> 'a routine" where
  "fail_with e w = ([], Inl e)"

definition return_unit :: "unit routine" where
  "return_unit w = ([], Inr ())"

section \<open>State transitions\<close>

definition activePhaseForBackend :: "backend \<Rightarrow> phase" where
  "activePhaseForBackend b =
     (if b = BackendNone then PhaseNativeActive
      else if validRelayBackend b then PhaseRelayActive else PhaseRecoveryRequired)"

text \<open>\<open>None\<close> is the empty phase.\<close>

definition pendingPhaseForBackends :: "backend \<Rightarrow> backend \<Rightarrow> phase option" where
  "pendingPhaseForBackends desired applied =
     (if desired = BackendNone \<and> validRelayBackend applied then Some PhaseNativePendingRestart
      else if validRelayBackend desired \<and> applied = BackendNone then Some PhaseRelayPendingRestart
      else if validRelayBackend desired \<and> validRelayBackend applied \<and> desired \<noteq> applied then Some PhaseBackendPendingRestart
      else None)"

definition requestBackendTransition :: "state \<Rightarrow> backend \<Rightarrow> (routing_error, state \<times> bool) result" where
  "requestBackendTransition state0 target =
     (if \<not> validBackend target then Inl ErrRecoveryRequired
      else let s = normalizeStateBackends state0 in
        if Phase s = PhaseApplying then Inl ErrTransitionPending
        else if Phase s = PhaseRecoveryRequired then Inl ErrRecoveryRequired
        else if target = DesiredBackend s then Inr (s, False)
        else if target = AppliedBackend s then
          Inr (s\<lparr>DesiredBackend := target, DesiredMode := modeForBackend target, AppliedMode := modeForBackend target,
                 Phase := activePhaseForBackend target, KnownLegacy := False\<rparr>, True)
        else (case pendingPhaseForBackends target (AppliedBackend s) of
                None \<Rightarrow> Inl ErrRecoveryRequired
              | Some phase \<Rightarrow>
                  Inr (s\<lparr>DesiredBackend := target, DesiredMode := modeForBackend target,
                         AppliedMode := modeForBackend (AppliedBackend s), Phase := phase\<rparr>, True)))"

definition cancelTransition :: "state \<Rightarrow> (routing_error, state) result" where
  "cancelTransition s =
     (if Phase s = PhaseNativePendingRestart \<or> Phase s = PhaseRelayPendingRestart \<or> Phase s = PhaseBackendPendingRestart
      then Inr (s\<lparr>DesiredBackend := AppliedBackend s, DesiredMode := modeForBackend (AppliedBackend s),
                  AppliedMode := modeForBackend (AppliedBackend s), Phase := activePhaseForBackend (AppliedBackend s),
                  KnownLegacy := False\<rparr>)
      else Inl ErrTransitionPending)"

definition nextGeneration :: "state \<Rightarrow> bool \<Rightarrow> 64 word" where
  "nextGeneration s legacy = (if legacy then Generation s else Generation s + 1)"

section \<open>Reading the world\<close>

definition maxFingerprintBytes :: nat where "maxFingerprintBytes = 2 ^ 20"

definition fingerprintOptional :: "controller \<Rightarrow> codex_fs \<Rightarrow> string \<Rightarrow> (controller_error, string) result" where
  "fingerprintOptional c fs path =
     (case fs path of
        NoFile \<Rightarrow> Inr ''absent''
      | NotRegular \<Rightarrow> Inl (RoutingErr ErrStateCorrupt)
      | RegularFile _ None \<Rightarrow> Inl (RoutingErr ErrControlFile)
      | RegularFile _ (Some contents) \<Rightarrow>
          if length contents > maxFingerprintBytes then Inl (RoutingErr ErrStateCorrupt) else Inr (ct_sha256 c contents))"

definition maintenancePendingOrInvalid :: "controller \<Rightarrow> disk \<Rightarrow> bool" where
  "maintenancePendingOrInvalid c d =
     (case loadMaintenance (ct_env c) (ct_store c) d of
        Inl _ \<Rightarrow> True
      | Inr (Some _) \<Rightarrow> True
      | Inr None \<Rightarrow>
          (case loadRuntimeRouting (ct_env c) (ct_store c) (ct_codexConfigPath c) d of
             Inl _ \<Rightarrow> True
           | Inr j \<Rightarrow> j \<noteq> None))"

definition general_url :: "relay_config \<Rightarrow> string" where
  "general_url cfg = ''http://'' @ cf_ListenAddress cfg @ ''/v1''"

definition interactive_url :: "relay_config \<Rightarrow> string" where
  "interactive_url cfg = ''http://'' @ sg_InteractiveListenAddress (rc_Scheduler (cf_Responses cfg)) @ ''/v1''"

definition managed_valid :: "codex_fs \<Rightarrow> string \<Rightarrow> owner \<Rightarrow> relay_config \<Rightarrow> (codex_error, unit) result" where
  "managed_valid fs path o1 cfg =
     ValidateManagedRoutingForOwner fs path o1 (general_url cfg) (interactive_url cfg) (ct_Path (cf_Catalog cfg))"

definition managedBackendFromArtifacts ::
  "config_env \<Rightarrow> codex_fs \<Rightarrow> string \<Rightarrow> owner \<Rightarrow> relay_config \<Rightarrow> (controller_error, backend) result" where
  "managedBackendFromArtifacts env fs path o1 cfg =
     (if cf_UpstreamMode cfg = ''local_opencodex'' then
        (case managed_valid fs path o1 cfg of Inl e \<Rightarrow> Inl (CodexErr e) | Inr _ \<Rightarrow> Inr BackendLocalOpenCodex)
      else if cf_UpstreamMode cfg = ''external_gateway'' then
        (let externalMatches = (managed_valid fs path o1 cfg = Inr ());
             localMatches = (cf_LocalOpenCodex cfg \<noteq> None \<and>
               (case LocalOpenCodexRuntimeConfig env cfg of Inl _ \<Rightarrow> False | Inr local \<Rightarrow> managed_valid fs path o1 local = Inr ()));
             appleMatches = (cf_LocalAppleContainer cfg \<noteq> None \<and>
               (case LocalAppleContainerRuntimeConfig env cfg of Inl _ \<Rightarrow> False | Inr apple \<Rightarrow> managed_valid fs path o1 apple = Inr ()))
         in if externalMatches \<and> \<not> localMatches \<and> \<not> appleMatches then Inr BackendExternal
            else if localMatches \<and> \<not> externalMatches \<and> \<not> appleMatches then Inr BackendLocalOpenCodex
            else if appleMatches \<and> \<not> externalMatches \<and> \<not> localMatches then Inr BackendLocalAppleContainer
            else Inl ErrRecovery)
      else Inl ErrRecovery)"

definition inferLegacyState :: "controller \<Rightarrow> codex_fs \<Rightarrow> state \<Rightarrow> (controller_error, state) result" where
  "inferLegacyState c fs s =
     (case InspectRoutingForOwner fs (ct_codexConfigPath c) (ct_codexOwner c) of
        Inl _ \<Rightarrow> Inl ErrLegacyInspection
      | Inr i \<Rightarrow>
          if foreign_or_unmanaged i \<or> ri_ManagedRoot i \<noteq> ri_InteractiveProfileManaged i then Inl ErrRecovery
          else (case (if \<not> ri_ManagedRoot i then
                  Inr (s\<lparr>DesiredMode := ModeNative, AppliedMode := ModeNative, DesiredBackend := BackendNone,
                         AppliedBackend := BackendNone, Phase := PhaseNativeActive\<rparr>)
                else (case ct_loadConfig c fs of
                  Inl _ \<Rightarrow> Inl ErrConfigUnavailable
                | Inr cfg \<Rightarrow>
                    (case managedBackendFromArtifacts (ct_configEnv c) fs (ct_codexConfigPath c) (ct_codexOwner c) cfg of
                       Inl _ \<Rightarrow> Inl ErrRecovery
                     | Inr backend \<Rightarrow>
                         Inr (s\<lparr>DesiredBackend := backend, AppliedBackend := backend, DesiredMode := ModeRelay,
                                AppliedMode := ModeRelay, Phase := PhaseRelayActive\<rparr>)))) of
            Inl e \<Rightarrow> Inl e
          | Inr s' \<Rightarrow> map_sum RoutingErr id (BindCodexConfig (re_wd (ct_env c)) s' (ct_codexConfigPath c))))"

definition boundState :: "controller \<Rightarrow> world \<Rightarrow> (controller_error, state \<times> bool) result" where
  "boundState c w =
     (case Read (ct_env c) (ct_store c) (wd_disk w) of
        Inl e \<Rightarrow> Inl (RoutingErr e)
      | Inr (s, legacy) \<Rightarrow>
          if legacy then (case inferLegacyState c (wd_files w) s of Inl e \<Rightarrow> Inl e | Inr s' \<Rightarrow> Inr (s', True))
          else (case ValidateForCodexConfig (re_wd (ct_env c)) s (st_configPath (ct_store c)) (ct_codexConfigPath c) of
                  Inl e \<Rightarrow> Inl (RoutingErr e)
                | Inr _ \<Rightarrow> Inr (s, False)))"

definition CatalogAdmissionAllowed :: "controller \<Rightarrow> bool \<Rightarrow> world \<Rightarrow> bool" where
  "CatalogAdmissionAllowed c recoveryGateActive w =
     (if recoveryGateActive \<or> maintenancePendingOrInvalid c (wd_disk w) then False
      else (case boundState c w of
              Inl _ \<Rightarrow> False
            | Inr (s, _) \<Rightarrow>
                (case loadJournal (ct_env c) (wd_disk w) of
                   Inl _ \<Rightarrow> False
                 | Inr j \<Rightarrow> j = None \<and> AllowsCatalog s)))"

section \<open>Requests\<close>

record control_io =
  cio_lock :: bool
  cio_recoveryGate :: bool
  cio_ready :: bool
  cio_marker :: bool
  cio_state :: bool

text \<open>What every operation does first, under the lock: the interlocks with recovery, maintenance and
  an unfinished switch, then the bound state. \<open>cio_recoveryGate\<close> is \<open>recoveryGateActive()\<close>.\<close>

definition open_transition :: "controller \<Rightarrow> control_io \<Rightarrow> world \<Rightarrow> (controller_error, state \<times> bool) result" where
  "open_transition c io w =
     (if \<not> cio_lock io then Inl ErrLockUnavailable
      else if cio_recoveryGate io \<or> maintenancePendingOrInvalid c (wd_disk w) then Inl ErrRecovery
      else (case loadJournal (ct_env c) (wd_disk w) of
              Inl _ \<Rightarrow> Inl ErrRecovery
            | Inr (Some _) \<Rightarrow> Inl ErrRecovery
            | Inr None \<Rightarrow> boundState c w))"

definition preflightRequestedBackend :: "controller \<Rightarrow> control_io \<Rightarrow> codex_fs \<Rightarrow> backend \<Rightarrow> (controller_error, unit) result" where
  "preflightRequestedBackend c io fs target =
     (if target \<noteq> BackendExternal \<and> target \<noteq> BackendLocalOpenCodex \<and> target \<noteq> BackendLocalAppleContainer then Inr ()
      else (case ct_loadConfig c fs of
        Inl _ \<Rightarrow> Inl ErrConfigUnavailable
      | Inr cfg \<Rightarrow>
          if target = BackendExternal then
            (if cf_UpstreamMode cfg \<noteq> ''external_gateway'' then Inl ErrExternalProfileUnavailable else Inr ())
          else if target = BackendLocalOpenCodex then
            (if cf_UpstreamMode cfg = ''local_opencodex'' then Inr ()
             else if \<not> ct_localProfileOK c then Inl ErrLocalOpenCodexPreflight
             else if isl (LocalOpenCodexRuntimeConfig (ct_configEnv c) cfg) \<or> \<not> cio_ready io
             then Inl ErrLocalOpenCodexPreflight else Inr ())
          else if \<not> ct_localProfileOK c then Inl ErrLocalOpenCodexPreflight
          else if isl (LocalAppleContainerRuntimeConfig (ct_configEnv c) cfg) then Inl ErrLocalOpenCodexPreflight
          else if \<not> cio_ready io then Inl ErrLocalOpenCodexPreflight else Inr ()))"

definition saveState :: "controller \<Rightarrow> bool \<Rightarrow> bool \<Rightarrow> state \<Rightarrow> unit routine" where
  "saveState c okMarker okState s = disk_step (\<lambda>d. Save (ct_env c) (ct_store c) False okMarker okState d s)"

definition requestBackendWithIntentAndWitness ::
  "controller \<Rightarrow> control_io \<Rightarrow> backend \<Rightarrow> bool \<Rightarrow> string \<Rightarrow> 64 word \<Rightarrow> unit routine" where
  "requestBackendWithIntentAndWitness c io target known expectedConfigDigest expectedRoutingGeneration w =
     (if \<not> validBackend target then ([], Inl (RoutingErr ErrUnsupportedBackend))
      else if target = BackendLocalAppleContainer then ([], Inl ErrRecovery)
      else if known \<and> target \<noteq> BackendExternal then ([], Inl ErrRecovery)
      else (case open_transition c io w of
        Inl e \<Rightarrow> ([], Inl e)
      | Inr (s, legacy) \<Rightarrow>
          if DesiredBackend s = BackendLocalAppleContainer \<or> AppliedBackend s = BackendLocalAppleContainer
          then ([], Inl ErrRecovery)
          else if expectedConfigDigest \<noteq> [] \<and> Generation s \<noteq> expectedRoutingGeneration
          then ([], Inl (RoutingErr ErrGatewayRoutingChanged))
          else if expectedConfigDigest \<noteq> [] \<and>
            fingerprintOptional c (wd_files w) (st_configPath (ct_store c)) \<noteq> Inr expectedConfigDigest
          then ([], Inl (RoutingErr ErrGatewayConfigChanged))
          else (case requestBackendTransition s target of
            Inl e \<Rightarrow> ([], Inl (RoutingErr e))
          | Inr (next, changed) \<Rightarrow>
              (case (if changed \<and> target \<noteq> AppliedBackend s then preflightRequestedBackend c io (wd_files w) target else Inr ()) of
                 Inl e \<Rightarrow> ([], Inl e)
               | Inr _ \<Rightarrow>
                   if known \<and> (\<not> changed \<or> target = AppliedBackend s) then ([], Inl (RoutingErr ErrTransitionPending))
                   else let next' = (if known then next\<lparr>KnownLegacy := True\<rparr>
                                     else if changed then next\<lparr>KnownLegacy := False\<rparr> else next)
                        in if changed \<or> legacy
                           then saveState c (cio_marker io) (cio_state io) (next'\<lparr>Generation := nextGeneration s legacy\<rparr>) w
                           else ([], Inr ())))))"

definition RequestBackendWithIntentAndWitness ::
  "controller \<Rightarrow> control_io \<Rightarrow> backend \<Rightarrow> bool \<Rightarrow> string \<Rightarrow> 64 word \<Rightarrow> unit routine" where
  "RequestBackendWithIntentAndWitness c io target known expectedConfigDigest expectedRoutingGeneration w =
     (if target \<noteq> BackendExternal \<or> length expectedConfigDigest \<noteq> 64 \<or> \<not> isLowerHex expectedConfigDigest \<or>
         expectedRoutingGeneration = 0
      then ([], Inl (RoutingErr ErrGatewayRoutingChanged))
      else requestBackendWithIntentAndWitness c io target known expectedConfigDigest expectedRoutingGeneration w)"

definition RequestBackend :: "controller \<Rightarrow> control_io \<Rightarrow> backend \<Rightarrow> unit routine" where
  "RequestBackend c io target = requestBackendWithIntentAndWitness c io target False [] 0"

text \<open>\<open>Request\<close> with one of the two modes; any other mode is refused.\<close>

definition Request :: "controller \<Rightarrow> control_io \<Rightarrow> mode \<Rightarrow> unit routine" where
  "Request c io target w =
     (case target of
        ModeNative \<Rightarrow> RequestBackend c io BackendNone w
      | ModeRelay \<Rightarrow>
          (case ct_loadConfig c (wd_files w) of
             Inl _ \<Rightarrow> ([], Inl ErrConfigUnavailable)
           | Inr cfg \<Rightarrow>
               if cf_UpstreamMode cfg = ''local_opencodex'' then RequestBackend c io BackendLocalOpenCodex w
               else RequestBackend c io BackendExternal w)
      | _ \<Rightarrow> ([], Inl (RoutingErr ErrUnsupportedBackend)))"

definition Cancel :: "controller \<Rightarrow> control_io \<Rightarrow> unit routine" where
  "Cancel c io w =
     (case open_transition c io w of
        Inl e \<Rightarrow> ([], Inl e)
      | Inr (s, legacy) \<Rightarrow>
          if legacy then ([], Inl (RoutingErr ErrTransitionPending))
          else (case cancelTransition s of
                  Inl e \<Rightarrow> ([], Inl (RoutingErr e))
                | Inr next \<Rightarrow> saveState c (cio_marker io) (cio_state io) (next\<lparr>Generation := Generation s + 1\<rparr>) w))"

section \<open>Requests and cancellations are accepted by the store\<close>

definition controller_bound :: "controller \<Rightarrow> bool" where
  "controller_bound c \<longleftrightarrow> store_bound (ct_env c) (ct_store c) \<and> getwd_rooted (re_wd (ct_env c))"

abbreviation ctl_valid :: "controller \<Rightarrow> state \<Rightarrow> bool" where
  "ctl_valid c s \<equiv> valid_state (re_wd (ct_env c)) (st_configPath (ct_store c)) s"

text \<open>JSON keeps every valid state of this installation, and its encoding fits the size limit.\<close>

definition states_faithful :: "controller \<Rightarrow> state \<Rightarrow> bool" where
  "states_faithful c s \<longleftrightarrow>
     (\<forall>x. ctl_valid c x \<longrightarrow> BoundCodexConfigPath x = BoundCodexConfigPath s \<longrightarrow> state_faithful (ct_env c) x)"

definition stable_or_pending :: "state \<Rightarrow> bool" where
  "stable_or_pending s \<longleftrightarrow> Phase s \<noteq> PhaseApplying \<and> Phase s \<noteq> PhaseRecoveryRequired"

lemma validBackend_cases:
  assumes "validBackend b"
  obtains "b = BackendNone" | "validRelayBackend b"
  using assms by (auto simp: backend_defs)

lemma relay_not_none [simp]: "\<not> validRelayBackend BackendNone"
  by (simp add: validRelayBackend_def)

lemma pending_phase:
  "pendingPhaseForBackends d a = Some p \<Longrightarrow> phase_backends p d a \<and> p \<noteq> PhaseApplying \<and> p \<noteq> PhaseRecoveryRequired"
  by (auto simp: pendingPhaseForBackends_def split: if_splits)

lemma request_transition:
  assumes "ctl_valid c s" "requestBackendTransition s target = Inr (next, changed)"
  obtains "\<not> changed" "next = s" "target = DesiredBackend s" "stable_or_pending s"
  | phase where "changed" "stable_or_pending s" "validBackend target" "target \<noteq> DesiredBackend s"
      "next = s\<lparr>DesiredBackend := target, DesiredMode := modeForBackend target, Phase := phase,
         KnownLegacy := (target \<noteq> AppliedBackend s \<and> KnownLegacy s)\<rparr>"
      "phase_backends phase target (AppliedBackend s)" "stable_or_pending next"
proof (cases changed)
  case False
  then show ?thesis
    using assms that(1) by (auto simp: requestBackendTransition_def Let_def valid_state_normalized stable_or_pending_def
        split: if_splits option.splits)
next
  case True
  have n: "normalizeStateBackends s = s" and am: "AppliedMode s = modeForBackend (AppliedBackend s)"
    using assms(1) by (auto simp: valid_state_normalized valid_state_table)
  have t: "validBackend target" "stable_or_pending s" "target \<noteq> DesiredBackend s"
    using assms(2) True by (auto simp: requestBackendTransition_def Let_def n stable_or_pending_def split: if_splits)
  show ?thesis
  proof (cases "target = AppliedBackend s")
    case home: True
    have "next = s\<lparr>DesiredBackend := target, DesiredMode := modeForBackend target, Phase := activePhaseForBackend target,
         KnownLegacy := (target \<noteq> AppliedBackend s \<and> KnownLegacy s)\<rparr>"
      using assms(2) True t home am
      by (intro state.equality) (auto simp: requestBackendTransition_def Let_def n stable_or_pending_def split: if_splits)
    moreover have "phase_backends (activePhaseForBackend target) target (AppliedBackend s)"
      using t(1) home by (auto simp: activePhaseForBackend_def elim: validBackend_cases)
    moreover have "stable_or_pending next" using calculation(1) t(1)
      by (auto simp: stable_or_pending_def activePhaseForBackend_def elim: validBackend_cases)
    ultimately show ?thesis by (rule that(2) [OF True t(2,1,3)])
  next
    case other: False
    then obtain phase where p: "pendingPhaseForBackends target (AppliedBackend s) = Some phase"
      and nx: "next = s\<lparr>DesiredBackend := target, DesiredMode := modeForBackend target,
                         AppliedMode := modeForBackend (AppliedBackend s), Phase := phase\<rparr>"
      using assms(2) True t by (auto simp: requestBackendTransition_def Let_def n stable_or_pending_def split: if_splits option.splits)
    have ph: "phase_backends phase target (AppliedBackend s)" "phase \<noteq> PhaseApplying" "phase \<noteq> PhaseRecoveryRequired"
      using pending_phase [OF p] by simp_all
    have nx': "next = s\<lparr>DesiredBackend := target, DesiredMode := modeForBackend target, Phase := phase,
         KnownLegacy := (target \<noteq> AppliedBackend s \<and> KnownLegacy s)\<rparr>"
      using nx am other by (intro state.equality) simp_all
    have "stable_or_pending next" using ph(2,3) nx by (simp add: stable_or_pending_def)
    then show ?thesis by (rule that(2) [OF True t(2,1,3) nx' ph(1)])
  qed
qed

text \<open>The phases between which a request or a cancellation moves keep the applied backend, hence
  admission.\<close>

lemma same_applied_same_admission:
  assumes "phase_backends (Phase s) (DesiredBackend s) (AppliedBackend s)" "phase_backends (Phase n) (DesiredBackend n) (AppliedBackend n)"
    and "stable_or_pending s" "stable_or_pending n" "AppliedBackend n = AppliedBackend s"
  shows "AllowsDataPlane n = AllowsDataPlane s" "validateTransition s n = Inr ()"
  using assms
  by (cases "Phase s"; cases "Phase n"; auto simp: AllowsDataPlane_def stable_or_pending_def validateTransition_def)+

lemma map_error_Inr [simp]: "map_sum f id r = Inr y \<longleftrightarrow> r = Inr y"
  by (cases r) auto

lemma map_error_Inl [simp]: "map_sum f id r = Inl e \<longleftrightarrow> (\<exists>x. r = Inl x \<and> e = f x)"
  by (cases r) auto

lemma Read_legacy:
  assumes "Read env st d = Inr (s, True)"
  shows "NewRelayState (re_wd env) (st_configPath st) = Inr s"
  using assms by (auto simp: Read_def split: sum.splits option.splits bool.splits)

lemma artifacts_backend: "managedBackendFromArtifacts env fs path o1 cfg = Inr b \<Longrightarrow> validRelayBackend b"
  by (auto simp: managedBackendFromArtifacts_def Let_def validRelayBackend_def split: if_splits sum.splits)

lemma boundState_read:
  assumes "controller_bound c"
  shows "boundState c w = Inr (s, False) \<longleftrightarrow> Read (ct_env c) (ct_store c) (wd_disk w) = Inr (s, False) \<and>
    canonicalCodexConfigPath (re_wd (ct_env c)) (ct_codexConfigPath c) = Inr (BoundCodexConfigPath s)"
proof -
  have "ValidateFor (re_wd (ct_env c)) s (st_configPath (ct_store c)) = Inr ()"
    if "Read (ct_env c) (ct_store c) (wd_disk w) = Inr (s, False)" for s
    using Read_valid [OF that] assms ValidateFor_valid by (simp add: controller_bound_def)
  then show ?thesis
    by (auto simp: boundState_def ValidateForCodexConfig_def split: sum.splits if_splits)
qed

lemma boundState_legacy:
  assumes "controller_bound c" "boundState c w = Inr (s, True)"
  shows "ctl_valid c s \<and> stable_or_pending s \<and> canonicalCodexConfigPath (re_wd (ct_env c)) (ct_codexConfigPath c) = Inr (BoundCodexConfigPath s)"
proof -
  obtain s0 where s0: "NewRelayState (re_wd (ct_env c)) (st_configPath (ct_store c)) = Inr s0" and inf: "inferLegacyState c (wd_files w) s0 = Inr s"
    using assms(2) by (auto simp: boundState_def dest!: Read_legacy split: sum.splits if_splits)
  have fresh: "Schema s0 = SchemaVersion" "Generation s0 = 1" "BoundConfigPath s0 = st_configPath (ct_store c)" "\<not> KnownLegacy s0"
    using s0 assms(1) by (auto simp: NewRelayState_def controller_bound_def store_bound_def split: sum.splits)
  have "(BindCodexConfig (re_wd (ct_env c)) (s0\<lparr>DesiredMode := ModeNative, AppliedMode := ModeNative, DesiredBackend := BackendNone,
        AppliedBackend := BackendNone, Phase := PhaseNativeActive\<rparr>) (ct_codexConfigPath c) = Inr s) \<or>
      (\<exists>b. validRelayBackend b \<and> BindCodexConfig (re_wd (ct_env c)) (s0\<lparr>DesiredBackend := b, AppliedBackend := b, DesiredMode := ModeRelay,
        AppliedMode := ModeRelay, Phase := PhaseRelayActive\<rparr>) (ct_codexConfigPath c) = Inr s)"
    using inf by (auto simp: inferLegacyState_def Let_def dest!: artifacts_backend split: sum.splits if_splits)
  then obtain s1 where s1: "BindCodexConfig (re_wd (ct_env c)) s1 (ct_codexConfigPath c) = Inr s"
    and kept: "s1 = s0\<lparr>DesiredMode := ModeNative, AppliedMode := ModeNative, DesiredBackend := BackendNone,
        AppliedBackend := BackendNone, Phase := PhaseNativeActive\<rparr> \<or>
      (\<exists>b. validRelayBackend b \<and> s1 = s0\<lparr>DesiredBackend := b, AppliedBackend := b, DesiredMode := ModeRelay,
        AppliedMode := ModeRelay, Phase := PhaseRelayActive\<rparr>)" by blast
  have c1: "canonicalCodexConfigPath (re_wd (ct_env c)) (ct_codexConfigPath c) = Inr (BoundCodexConfigPath s)"
    and s: "s = s1\<lparr>BoundCodexConfigPath := BoundCodexConfigPath s\<rparr>"
    using s1 by (auto simp: BindCodexConfig_def split: sum.splits)
  have "canonicalCodexConfigPath (re_wd (ct_env c)) (BoundCodexConfigPath s) = Inr (BoundCodexConfigPath s)"
    using c1 canonical_idem assms(1) unfolding canonicalCodex_same controller_bound_def by blast
  with kept fresh c1 show ?thesis
    by (subst (1 2) s) (auto simp: valid_state_table stable_or_pending_def relay_backend_mode)
qed

lemma boundState_valid:
  assumes "controller_bound c" "boundState c w = Inr (s, legacy)"
  shows "ctl_valid c s" "canonicalCodexConfigPath (re_wd (ct_env c)) (ct_codexConfigPath c) = Inr (BoundCodexConfigPath s)"
  using assms boundState_legacy [OF assms(1)] boundState_read [OF assms(1)] Read_valid
  by (cases legacy; force)+

lemma final_single [simp]: "final_world w [x] = x" "final_world w [] = w"
  by (simp_all add: final_world_def)

lemma saveState_outcome:
  assumes "saveState c okM okS n w = (trace, r)" "controller_bound c" "ctl_valid c n \<Longrightarrow> state_faithful (ct_env c) n"
    and "ctl_valid c n \<or> normalizeStateBackends n = n"
  shows "wd_files (final_world w trace) = wd_files w \<and>
    dk_journal (wd_disk (final_world w trace)) = dk_journal (wd_disk w) \<and>
    dk_maintenance (wd_disk (final_world w trace)) = dk_maintenance (wd_disk w) \<and>
    dk_runtime (wd_disk (final_world w trace)) = dk_runtime (wd_disk w) \<and>
    (case r of
       Inl _ \<Rightarrow> dk_state (wd_disk (final_world w trace)) = dk_state (wd_disk w)
     | Inr _ \<Rightarrow> ctl_valid c n \<and> Read (ct_env c) (ct_store c) (wd_disk (final_world w trace)) = Inr (n, False))"
proof -
  obtain d r0 where save: "Save (ct_env c) (ct_store c) False okM okS (wd_disk w) n = (d, r0)" by fastforce
  with assms(1) have t: "trace = [w\<lparr>wd_disk := d\<rparr>]" "r = map_sum RoutingErr id r0"
    by (auto simp: saveState_def disk_step_def)
  have norm: "normalizeStateBackends n = n" using assms(4) valid_state_normalized by blast
  have sb: "store_bound (ct_env c) (ct_store c)" using assms(2) by (simp add: controller_bound_def)
  note out = Save_cases [OF save sb, unfolded norm Let_def]
  show ?thesis
  proof (cases r0)
    case (Inl e)
    then show ?thesis using out t by simp
  next
    case (Inr u)
    then have "ctl_valid c n" "writeMarkerAndState (ct_env c) okM okS (wd_disk w) n = (d, Inr ())" using out by auto
    then show ?thesis using out t Inr writeMarkerAndState_read assms(3) by simp
  qed
qed

text \<open>\<open>Save\<close> never objects to a valid successor of the bound state.\<close>

lemma saveState_not_refused:
  assumes "saveState c okM okS n w = (trace, Inl (RoutingErr e))" "controller_bound c" "boundState c w = Inr (s, legacy)"
    and "normalizeStateBackends n = n" "validateTransition s n = Inr ()" "\<not> legacy \<Longrightarrow> Generation n = Generation s + 1"
  shows "e \<noteq> ErrStateTransition \<and> e \<noteq> ErrStateGeneration"
proof -
  have validate: "x \<noteq> ErrStateTransition \<and> x \<noteq> ErrStateGeneration" if "ValidateFor wd n p = Inl x" for x wd p
    using that by (auto simp: ValidateFor_def validateForBound_def canonicalConfigPath_def canonicalCodexConfigPath_def
        phase_consistent_def Let_def split: sum.splits if_splits option.splits phase.splits)
  have files: "x \<noteq> ErrStateTransition \<and> x \<noteq> ErrStateGeneration"
    if "writeMarkerAndState env a b d n = (d', Inl x)" for env a b d d' x
    using that
    by (auto simp: writeMarkerAndState_def Let_def writeStateAtomically_def writeInitializedMarker_def initializedMarkerPresent_def
        elim!: writeControlFileAtomically.elims readStateFile.elims split: sum.splits option.splits if_splits bool.splits)
  obtain d where save: "Save (ct_env c) (ct_store c) False okM okS (wd_disk w) n = (d, Inl e)"
    using assms(1) by (auto simp: saveState_def disk_step_def split: prod.splits)
  show ?thesis
  proof (cases "ValidateFor (re_wd (ct_env c)) n (st_configPath (ct_store c))")
    case (Inl x)
    then show ?thesis using save validate [OF Inl] by (simp add: Save_def assms(4))
  next
    case (Inr u)
    then have nz: "Generation n \<noteq> 0"
      using assms(2) ValidateFor_valid by (auto simp: controller_bound_def valid_state_iff)
    obtain prev where prev: "Read (ct_env c) (ct_store c) (wd_disk w) = Inr (prev, legacy)" "\<not> legacy \<Longrightarrow> prev = s"
      using assms(3) by (auto simp: boundState_def split: sum.splits if_splits)
    have "\<not> legacy \<Longrightarrow> Generation s < Generation n" using assms(6) nz word_succ_bounds(1) [of "Generation s"]
      by (metis add.commute add_eq_0_iff maxUint64_def)
    then show ?thesis
      using save Inr prev assms(5) files by (auto simp: Save_def assms(4) split: if_splits sum.splits)
  qed
qed

text \<open>An error that is not one of the two by which \<open>Save\<close> refuses a transition, and the early returns
  with such an error.\<close>

definition plain_error :: "controller_error \<Rightarrow> bool" where
  "plain_error e \<longleftrightarrow> e \<noteq> RoutingErr ErrStateTransition \<and> e \<noteq> RoutingErr ErrStateGeneration"

definition plain_return :: "world list \<Rightarrow> (controller_error, unit) result \<Rightarrow> bool" where
  "plain_return trace r \<longleftrightarrow> (\<exists>e. trace = [] \<and> r = Inl e \<and> plain_error e)"

lemma plain_errors: "plain_error (RoutingErr ErrUnsupportedBackend)" "plain_error ErrRecovery"
  "plain_error (RoutingErr ErrGatewayRoutingChanged)" "plain_error (RoutingErr ErrGatewayConfigChanged)"
  "plain_error (RoutingErr ErrTransitionPending)"
  by (simp_all add: plain_error_def)

lemma early_if:
  assumes "(if b then ([], Inl e) else x) = (trace, r)" "plain_error e" "\<not> plain_return trace r"
  shows "\<not> b \<and> x = (trace, r)"
  using assms by (auto simp: plain_return_def split: if_splits)

lemma early_case:
  assumes "(case m of Inl e \<Rightarrow> ([], Inl e) | Inr x \<Rightarrow> k x) = (trace, r)" "\<And>e. m = Inl e \<Longrightarrow> plain_error e"
    and "\<not> plain_return trace r"
  shows "\<exists>x. m = Inr x \<and> k x = (trace, r)"
  using assms by (auto simp: plain_return_def split: sum.splits)

lemma early_routing:
  assumes "(case m of Inl e \<Rightarrow> ([], Inl (RoutingErr e)) | Inr x \<Rightarrow> k x) = (trace, r)"
    and "\<And>e. m = Inl e \<Longrightarrow> plain_error (RoutingErr e)" "\<not> plain_return trace r"
  shows "\<exists>x. m = Inr x \<and> k x = (trace, r)"
  using assms by (auto simp: plain_return_def split: sum.splits)

lemma request_cases:
  assumes "requestBackendWithIntentAndWitness c io target known digest gen w = (trace, r)" "boundState c w = Inr (s, legacy)"
  obtains (refused) e where "trace = []" "r = Inl e" "plain_error e"
  | (kept) nx where "trace = []" "r = Inr ()" "\<not> legacy" "requestBackendTransition s target = Inr (nx, False)"
  | (saved) nx changed k where "requestBackendTransition s target = Inr (nx, changed)" "changed \<or> legacy"
      "k \<longrightarrow> target = BackendExternal \<or> \<not> changed \<and> KnownLegacy nx" "\<not> changed \<longrightarrow> k = KnownLegacy nx"
      "saveState c (cio_marker io) (cio_state io) (nx\<lparr>KnownLegacy := k, Generation := nextGeneration s legacy\<rparr>) w = (trace, r)"
proof (cases "plain_return trace r")
  case True
  then show ?thesis using refused by (auto simp: plain_return_def)
next
  case False
  have pre: "plain_error e" if "(if b then preflightRequestedBackend c io fs target else Inr ()) = Inl e" for b e fs
    using that by (auto simp: plain_error_def preflightRequestedBackend_def split: if_splits sum.splits)
  have tr: "plain_error (RoutingErr e)" if "requestBackendTransition s target = Inl e" for e
    using that by (auto simp: plain_error_def requestBackendTransition_def Let_def split: if_splits option.splits)
  have op: "plain_error e" if "open_transition c io w = Inl e" for e
    using that assms(2) by (auto simp: plain_error_def open_transition_def split: if_splits sum.splits option.splits)
  note call = assms(1) [unfolded requestBackendWithIntentAndWitness_def]
  note c1 = early_if [OF call plain_errors(1) False, THEN conjunct2]
  note c2 = early_if [OF c1 plain_errors(2) False, THEN conjunct2]
  note c3 = early_if [OF c2 plain_errors(2) False]
  obtain x where "open_transition c io w = Inr x" using early_case [OF c3 [THEN conjunct2] op False] by blast
  then have o: "open_transition c io w = Inr (s, legacy)"
    using assms(2) by (auto simp: open_transition_def split: if_splits sum.splits option.splits)
  note c4 = c3 [THEN conjunct2, unfolded o sum.case prod.case]
  note c5 = early_if [OF c4 plain_errors(2) False, THEN conjunct2]
  note c6 = early_if [OF c5 plain_errors(3) False, THEN conjunct2]
  note c7 = early_if [OF c6 plain_errors(4) False, THEN conjunct2]
  obtain nx changed where n: "requestBackendTransition s target = Inr (nx, changed)"
    using early_routing [OF c7 tr False] by auto
  note c8 = c7 [unfolded n sum.case prod.case]
  obtain u where u: "(if changed \<and> target \<noteq> AppliedBackend s then preflightRequestedBackend c io (wd_files w) target else Inr ()) = Inr u"
    using early_case [OF c8 _ False] pre by meson
  note c9 = early_if [OF c8 [unfolded u sum.case] plain_errors(5) False]
  define k where "k = (if known then True else if changed then False else KnownLegacy nx)"
  have upd: "(if known then nx\<lparr>KnownLegacy := True\<rparr> else if changed then nx\<lparr>KnownLegacy := False\<rparr> else nx) = nx\<lparr>KnownLegacy := k\<rparr>"
    by (simp add: k_def)
  note run = c9 [THEN conjunct2, unfolded Let_def upd]
  show ?thesis
  proof (cases "changed \<or> legacy")
    case True
    show ?thesis
      by (rule saved [OF n True]) (use run True c3 c9 in \<open>auto simp: k_def\<close>)
  next
    case keep: False
    then have "requestBackendTransition s target = Inr (nx, False)" using n by simp
    then show ?thesis by (rule kept [rotated 3]) (use run keep in auto)
  qed
qed


text \<open>What a request and a cancellation promise: files and journals stay, and either the durable state
  stays (and the store had nothing against the transition) or there is a new one, with the applied
  backend and the admission of the old one.\<close>

definition intent_only :: "controller \<Rightarrow> world \<Rightarrow> state \<Rightarrow> world list \<times> (controller_error, unit) result \<Rightarrow> (state \<Rightarrow> bool) \<Rightarrow> bool" where
  "intent_only c w s run new \<longleftrightarrow>
     (case run of (trace, r) \<Rightarrow> let w' = final_world w trace in
        wd_files w' = wd_files w \<and> dk_journal (wd_disk w') = dk_journal (wd_disk w) \<and>
        dk_maintenance (wd_disk w') = dk_maintenance (wd_disk w) \<and> dk_runtime (wd_disk w') = dk_runtime (wd_disk w) \<and>
        (case r of
           Inl e \<Rightarrow> dk_state (wd_disk w') = dk_state (wd_disk w) \<and> plain_error e
         | Inr _ \<Rightarrow> (\<exists>s'. boundState c w' = Inr (s', False) \<and> AppliedBackend s' = AppliedBackend s \<and>
             AllowsDataPlane s' = AllowsDataPlane s \<and> new s')))"

lemma intent_only_mono:
  assumes "intent_only c w s run new" "\<And>s'. new s' \<Longrightarrow> new' s'"
  shows "intent_only c w s run new'"
  using assms unfolding intent_only_def Let_def by (auto split: prod.splits sum.splits)

text \<open>The state that a request or a cancellation saves.\<close>

lemma successor_saved:
  assumes "controller_bound c" "boundState c w = Inr (s, legacy)" "states_faithful c s" "stable_or_pending s"
    and n: "DesiredMode n = modeForBackend (DesiredBackend n)" "AppliedBackend n = AppliedBackend s" "AppliedMode n = AppliedMode s"
      "BoundConfigPath n = BoundConfigPath s" "BoundCodexConfigPath n = BoundCodexConfigPath s" "Schema n = Schema s"
      "KnownLegacy n \<longrightarrow> DesiredBackend n = BackendExternal" "stable_or_pending n"
      "phase_backends (Phase n) (DesiredBackend n) (AppliedBackend n)" "\<not> legacy \<Longrightarrow> Generation n = Generation s + 1"
  shows "intent_only c w s (saveState c okM okS n w) (\<lambda>s'. s' = n)"
proof (cases "saveState c okM okS n w")
  case save: (Pair trace r)
  note v = boundState_valid [OF assms(1,2)]
  have pb: "phase_backends (Phase s) (DesiredBackend s) (AppliedBackend s)" using v(1) by (simp add: valid_state_table)
  note same = same_applied_same_admission [OF pb n(9) assms(4) n(8) n(2)]
  have norm: "normalizeStateBackends n = n"
    using n(9) by (cases "Phase n") (auto simp: normalizeStateBackends_def backend_defs)
  have "ctl_valid c n \<Longrightarrow> state_faithful (ct_env c) n" using assms(3) n(5) by (auto simp: states_faithful_def)
  note out = saveState_outcome [OF save assms(1) this disjI2 [OF norm]]
  show ?thesis
  proof (cases r)
    case (Inl e)
    have "plain_error e"
      using save Inl saveState_not_refused [OF _ assms(1,2) norm same(2) n(10)] unfolding plain_error_def by blast
    then show ?thesis using out Inl save by (simp add: intent_only_def Let_def)
  next
    case (Inr u)
    then show ?thesis using out v(2) n(2,5) same(1) boundState_read [OF assms(1)] save by (simp add: intent_only_def Let_def)
  qed
qed

lemma cancel_cases:
  assumes "Cancel c io w = (trace, r)" "boundState c w = Inr (s, legacy)"
  obtains (refused) e where "trace = []" "r = Inl e" "plain_error e"
  | (saved) "\<not> legacy" "Phase s = PhaseNativePendingRestart \<or> Phase s = PhaseRelayPendingRestart \<or> Phase s = PhaseBackendPendingRestart"
      "saveState c (cio_marker io) (cio_state io)
        (s\<lparr>DesiredBackend := AppliedBackend s, DesiredMode := modeForBackend (AppliedBackend s),
           AppliedMode := modeForBackend (AppliedBackend s), Phase := activePhaseForBackend (AppliedBackend s),
           KnownLegacy := False, Generation := Generation s + 1\<rparr>) w = (trace, r)"
proof (cases "open_transition c io w = Inr (s, legacy)")
  case True
  show ?thesis
  proof (cases "\<not> legacy \<and> (Phase s = PhaseNativePendingRestart \<or> Phase s = PhaseRelayPendingRestart \<or> Phase s = PhaseBackendPendingRestart)")
    case ok: True
    then show ?thesis using assms(1) True saved by (simp add: Cancel_def cancelTransition_def)
  next
    case False
    then have "trace = []" "r = Inl (RoutingErr ErrTransitionPending)"
      using assms(1) True by (auto simp: Cancel_def cancelTransition_def split: if_splits)
    then show ?thesis by (rule refused [OF _ _ plain_errors(5)])
  qed
next
  case False
  then obtain e where "open_transition c io w = Inl e" "plain_error e"
    using assms(2) by (auto simp: plain_error_def open_transition_def split: if_splits sum.splits option.splits)
  then show ?thesis using assms(1) refused [of e] by (simp add: Cancel_def)
qed

lemma pending_stable: "Phase s = PhaseNativePendingRestart \<or> Phase s = PhaseRelayPendingRestart \<or> Phase s = PhaseBackendPendingRestart
    \<Longrightarrow> stable_or_pending s"
  by (auto simp: stable_or_pending_def)

lemma applied_valid: "ctl_valid c s \<Longrightarrow> stable_or_pending s \<Longrightarrow> validBackend (AppliedBackend s)"
  by (cases "Phase s") (auto simp: valid_state_table stable_or_pending_def backend_defs)

lemma active_phase_backends: "validBackend b \<Longrightarrow> phase_backends (activePhaseForBackend b) b b \<and>
    activePhaseForBackend b \<noteq> PhaseApplying \<and> activePhaseForBackend b \<noteq> PhaseRecoveryRequired"
  by (auto simp: activePhaseForBackend_def elim: validBackend_cases)

lemma request_fields:
  assumes "ctl_valid c s" "requestBackendTransition s target = Inr (nx, changed)"
  shows "DesiredBackend nx = target \<and> DesiredMode nx = modeForBackend target \<and> AppliedBackend nx = AppliedBackend s \<and>
    AppliedMode nx = AppliedMode s \<and> BoundConfigPath nx = BoundConfigPath s \<and> BoundCodexConfigPath nx = BoundCodexConfigPath s \<and>
    Schema nx = Schema s \<and> stable_or_pending nx \<and> phase_backends (Phase nx) target (AppliedBackend s) \<and> stable_or_pending s \<and>
    (\<not> changed \<longrightarrow> KnownLegacy nx \<longrightarrow> target = BackendExternal)"
  using assms
proof (cases rule: request_transition)
  case 1
  then show ?thesis using assms(1) by (simp add: valid_state_table)
next
  case (2 phase)
  then show ?thesis using 2(7) by (simp only: 2(5) state.simps) simp
qed

lemma request_intent:
  assumes "controller_bound c" "boundState c w = Inr (s, legacy)" "states_faithful c s"
  shows "intent_only c w s (requestBackendWithIntentAndWitness c io target known digest gen w) (\<lambda>s'. DesiredBackend s' = target)"
proof (cases "requestBackendWithIntentAndWitness c io target known digest gen w")
  case (Pair trace r)
  note v = boundState_valid [OF assms(1,2)]
  from Pair assms(2) show ?thesis
  proof (cases rule: request_cases)
    case (refused e)
    then show ?thesis using Pair by (simp add: intent_only_def)
  next
    case (kept nx)
    then show ?thesis using Pair assms(2) by (auto simp: intent_only_def elim: request_transition [OF v(1)])
  next
    case (saved nx changed k)
    let ?n = "nx\<lparr>KnownLegacy := k, Generation := nextGeneration s legacy\<rparr>"
    note n = request_fields [OF v(1) saved(1)]
    have st: "stable_or_pending ?n" using n by (simp add: stable_or_pending_def)
    have k: "k \<longrightarrow> target = BackendExternal" using n saved(3) by blast
    have "intent_only c w s (saveState c (cio_marker io) (cio_state io) ?n w) (\<lambda>s'. s' = ?n)"
      by (rule successor_saved [OF assms]) (use n st k in \<open>simp_all add: nextGeneration_def\<close>)
    then show ?thesis unfolding Pair saved(5) by (rule intent_only_mono) (use n in simp)
  qed
qed

lemma cancel_intent:
  assumes "controller_bound c" "boundState c w = Inr (s, legacy)" "states_faithful c s"
  shows "intent_only c w s (Cancel c io w)
    (\<lambda>s'. s' = s\<lparr>DesiredBackend := AppliedBackend s, DesiredMode := AppliedMode s,
       Phase := activePhaseForBackend (AppliedBackend s), KnownLegacy := False, Generation := Generation s + 1\<rparr>)"
proof (cases "Cancel c io w")
  case (Pair trace r)
  note v = boundState_valid [OF assms(1,2)]
  have am: "AppliedMode s = modeForBackend (AppliedBackend s)" using v(1) by (simp add: valid_state_table)
  from Pair assms(2) show ?thesis
  proof (cases rule: cancel_cases)
    case (refused e)
    then show ?thesis using Pair by (simp add: intent_only_def)
  next
    case saved
    define n where "n = s\<lparr>DesiredBackend := AppliedBackend s, DesiredMode := AppliedMode s,
       Phase := activePhaseForBackend (AppliedBackend s), KnownLegacy := False, Generation := Generation s + 1\<rparr>"
    have save: "saveState c (cio_marker io) (cio_state io) n w = (trace, r)"
      using saved(3) unfolding n_def am by (simp add: am [symmetric])
    note sp = pending_stable [OF saved(2)]
    note act = active_phase_backends [OF applied_valid [OF v(1) sp]]
    have "stable_or_pending n" "phase_backends (Phase n) (DesiredBackend n) (AppliedBackend n)"
      using act by (simp_all add: stable_or_pending_def n_def)
    then have "intent_only c w s (saveState c (cio_marker io) (cio_state io) n w) (\<lambda>s'. s' = n)"
      by (intro successor_saved [OF assms sp]) (simp_all add: n_def am)
    then have "intent_only c w s (trace, r) (\<lambda>s'. s' = n)" unfolding save .
    then show ?thesis unfolding Pair n_def .
  qed
qed

text \<open>C35: a request is only an intent. From a bound state, \<open>RequestBackend...\<close> and \<open>Cancel\<close> touch
  neither the Codex files nor a journal; they keep the applied backend and do not change whether
  traffic is admitted. A successful request leaves the target as the desired backend of the durable
  state, a successful cancellation the applied one; after an error the durable state is the old one,
  and the error is never that the store refuses the transition or its generation.\<close>

theorem requests_keep_traffic:
  assumes "controller_bound c" "boundState c w = Inr (s, legacy)" "states_faithful c s"
    and run: "run = requestBackendWithIntentAndWitness c io target known digest gen w \<and> goal = target \<or>
      run = Cancel c io w \<and> goal = AppliedBackend s"
  shows "wd_files (final_world w (fst run)) = wd_files w \<and>
    dk_journal (wd_disk (final_world w (fst run))) = dk_journal (wd_disk w) \<and>
    dk_maintenance (wd_disk (final_world w (fst run))) = dk_maintenance (wd_disk w) \<and>
    dk_runtime (wd_disk (final_world w (fst run))) = dk_runtime (wd_disk w) \<and>
    (case snd run of
       Inl e \<Rightarrow> dk_state (wd_disk (final_world w (fst run))) = dk_state (wd_disk w) \<and>
         e \<noteq> RoutingErr ErrStateTransition \<and> e \<noteq> RoutingErr ErrStateGeneration
     | Inr _ \<Rightarrow> \<exists>s'. boundState c (final_world w (fst run)) = Inr (s', False) \<and> DesiredBackend s' = goal \<and>
         AppliedBackend s' = AppliedBackend s \<and> AllowsDataPlane s' = AllowsDataPlane s)"
proof -
  have "intent_only c w s run (\<lambda>s'. DesiredBackend s' = goal)"
    using run
  proof
    assume "run = Cancel c io w \<and> goal = AppliedBackend s"
    then show ?thesis using intent_only_mono [OF cancel_intent [OF assms(1-3)]] by simp
  qed (use request_intent [OF assms(1-3)] in simp)
  then show ?thesis by (cases run; cases "snd run") (auto simp: intent_only_def plain_error_def Let_def)
qed

section \<open>An example controller\<close>

text \<open>A codec that keeps every valid state bound to one pair of paths, whatever its generation.\<close>

definition word_code :: "64 word \<Rightarrow> bytes" where
  "word_code g = map (\<lambda>i. if bit g i then CHR ''1'' else CHR ''0'') [0..<64]"

definition word_decode :: "bytes \<Rightarrow> 64 word" where
  "word_decode bs = horner_sum of_bool 2 (map (\<lambda>c. c = CHR ''1'') bs)"

lemma word_decode_code: "word_decode (word_code g) = g"
proof -
  have "map ((\<lambda>c. c = CHR ''1'') \<circ> (\<lambda>i. if bit g i then CHR ''1'' else CHR ''0'')) [0..<64] = map (bit g) [0..<64]"
    by (intro map_cong refl) simp
  then have "word_decode (word_code g) = take_bit 64 g"
    unfolding word_decode_def word_code_def map_map by (simp only: horner_sum_bit_eq_take_bit)
  then show ?thesis by (simp add: take_bit_word_eq_self)
qed

definition wide_encode :: "state \<Rightarrow> bytes" where
  "wide_encode s = phase_code (Phase s) # backend_code (DesiredBackend s) # backend_code (AppliedBackend s) #
     (if KnownLegacy s then CHR ''m'' else CHR ''-'') # word_code (Generation s)"

fun wide_decode :: "bytes \<Rightarrow> state json_decode" where
  "wide_decode (p # d # a # m # g) =
     DecodedThenEOF ((example_state (phase_decode p) (backend_decode d) (backend_decode a) (word_decode g))
       \<lparr>KnownLegacy := (m = CHR ''m'')\<rparr>)"
| "wide_decode _ = DecodeFails"

definition wide_env :: routing_env where
  "wide_env = example_env\<lparr>re_decode_state := wide_decode, re_encode_state := wide_encode\<rparr>"

definition wide_disk :: "state \<Rightarrow> disk" where
  "wide_disk s = (example_disk s)\<lparr>dk_state := FileContents (wide_encode s)\<rparr>"

lemma wide_faithful:
  assumes "valid_state None ''/r'' s" "BoundCodexConfigPath s = ''/c''"
  shows "state_faithful wide_env s"
proof -
  have "(\<forall>x. Phase s \<noteq> PhaseOther x) \<and> validRecoveryBackend (DesiredBackend s) \<and> validRecoveryBackend (AppliedBackend s)"
    using assms(1) phase_backends_recovery by (auto simp: valid_state_table)
  then have "wide_decode (wide_encode s) = DecodedThenEOF s"
    using assms by (auto simp: wide_encode_def word_decode_code phase_decode_code backend_decode_code valid_state_table
        schema_defs example_state_def intro!: state.equality)
  moreover have "length (wide_encode s) \<le> maxStateBytes" by (simp add: wide_encode_def word_code_def maxStateBytes_def)
  ultimately show ?thesis by (simp add: state_faithful_def wide_env_def example_env_def)
qed

definition example_controller :: controller where
  "example_controller = \<lparr>ct_env = wide_env, ct_store = example_store, ct_codexConfigPath = ''/c'', ct_codexOwner = ProductionOwner,
     ct_configEnv = example_config_env, ct_loadConfig = (\<lambda>fs. Inr (applyDefaults example_config)),
     ct_sha256 = (\<lambda>s. replicate 64 (CHR ''0'')), ct_localProfileOK = True, ct_hasRuntimeControl = True\<rparr>"

definition good_control_io :: control_io where
  "good_control_io = \<lparr>cio_lock = True, cio_recoveryGate = False, cio_ready = True, cio_marker = True, cio_state = True\<rparr>"

definition example_world :: "state \<Rightarrow> world" where
  "example_world s = \<lparr>wd_disk = wide_disk s, wd_files = (\<lambda>_. NoFile)\<rparr>"

lemma example_controller_bound: "controller_bound example_controller"
  using example_bound by (simp add: controller_bound_def example_controller_def wide_env_def store_bound_def example_env_def getwd_rooted_def)

lemma example_states_faithful: "BoundCodexConfigPath s = ''/c'' \<Longrightarrow> states_faithful example_controller s"
  using wide_faithful by (simp add: states_faithful_def example_controller_def wide_env_def example_env_def example_store_def)

lemma example_boundState:
  assumes "phase_backends ph de ap" "g \<noteq> 0" "wd_disk w = wide_disk (example_state ph de ap g)"
  shows "boundState example_controller w = Inr (example_state ph de ap g, False)"
proof -
  let ?s = "example_state ph de ap g"
  have v: "valid_state None ''/r'' ?s" using example_valid [OF assms(1,2)] by (simp add: example_env_def example_store_def)
  have "Read wide_env example_store (wide_disk ?s) = Inr (?s, False)"
  proof (rule Read_written)
    show "valid_state (re_wd wide_env) (st_configPath example_store) ?s"
      using v by (simp add: wide_env_def example_env_def example_store_def)
    show f: "state_faithful wide_env ?s" by (rule wide_faithful [OF v]) (simp add: example_state_def)
    show "readStateFile (dk_state (wide_disk ?s)) = Inr (Some (re_encode_state wide_env ?s))"
      using f by (simp add: wide_disk_def state_faithful_def wide_env_def)
  qed
  moreover have "canonicalCodexConfigPath None ''/c'' = Inr ''/c''" by code_simp
  ultimately show ?thesis
    unfolding boundState_read [OF example_controller_bound] assms(3)
    by (simp add: example_controller_def) (simp add: wide_env_def example_env_def example_state_def)
qed

lemma example_open:
  assumes "boundState example_controller w = Inr (s, legacy)" "wd_disk w = wide_disk s'"
  shows "open_transition example_controller good_control_io w = Inr (s, legacy)"
proof -
  have d: "dk_journal (wd_disk w) = FileAbsent" "dk_maintenance (wd_disk w) = FileAbsent" "dk_runtime (wd_disk w) = FileAbsent"
    by (simp_all add: assms(2) wide_disk_def example_disk_def)
  show ?thesis
    using assms(1) by (simp add: open_transition_def good_control_io_def maintenancePendingOrInvalid_def loadMaintenance_def
        loadRuntimeRouting_def loadJournal_def d)
qed

lemma example_save:
  assumes "phase_backends ph de ap" "g \<noteq> 0" "phase_backends ph' de' ap'" "g < g'" "g' \<noteq> 0"
    and "validateTransition (example_state ph de ap g) (example_state ph' de' ap' g') = Inr ()"
    and "wd_disk w = wide_disk (example_state ph de ap g)"
  shows "saveState example_controller True True (example_state ph' de' ap' g') w = ([w\<lparr>wd_disk := wide_disk (example_state ph' de' ap' g')\<rparr>], Inr ())"
proof -
  have r: "Read wide_env example_store (wd_disk w) = Inr (example_state ph de ap g, False)"
    using example_boundState [OF assms(1,2,7)] boundState_read [OF example_controller_bound] by (simp add: example_controller_def)
  have "initializedMarkerPresent (dk_marker (wd_disk w)) = Inr True"
    using example_marker by (simp add: assms(7) wide_disk_def)
  moreover have "valid_state (re_wd wide_env) (st_configPath example_store) (example_state ph' de' ap' g')"
    using example_valid [OF assms(3,5)] by (simp add: wide_env_def)
  moreover have "store_bound wide_env example_store"
    using example_controller_bound by (simp add: controller_bound_def example_controller_def)
  ultimately have "Save wide_env example_store False True True (wd_disk w) (example_state ph' de' ap' g') =
      ((wd_disk w)\<lparr>dk_state := FileContents (re_encode_state wide_env (example_state ph' de' ap' g'))\<rparr>, Inr ())"
    using Save_succeeds [OF _ _ r] assms(4,6) by (simp add: example_state_def)
  then show ?thesis
    by (simp add: saveState_def disk_step_def example_controller_def assms(7)) (simp add: wide_disk_def wide_env_def example_disk_def)
qed

theorem requests_keep_traffic_witness:
  "let s = example_state PhaseRelayActive BackendExternal BackendExternal 4;
       w' = final_world (example_world s) (fst (requestBackendWithIntentAndWitness example_controller good_control_io
         BackendNone False [] 0 (example_world s)))
   in \<exists>s'. boundState example_controller w' = Inr (s', False) \<and> DesiredBackend s' = BackendNone \<and>
        AppliedBackend s' = BackendExternal \<and> AllowsDataPlane s'"
proof -
  let ?s = "example_state PhaseRelayActive BackendExternal BackendExternal 4"
  let ?run = "requestBackendWithIntentAndWitness example_controller good_control_io BackendNone False [] 0 (example_world ?s)"
  have b: "boundState example_controller (example_world ?s) = Inr (?s, False)"
    by (rule example_boundState) (simp_all add: validRelayBackend_def example_world_def)
  have n: "nextGeneration ?s False = 5" by (simp add: nextGeneration_def example_state_def)
  have t: "requestBackendTransition ?s BackendNone = Inr (example_state PhaseNativePendingRestart BackendNone BackendExternal 4, True)"
    by (simp add: requestBackendTransition_def example_state_def normalizeStateBackends_def validBackend_def pendingPhaseForBackends_def
        validRelayBackend_def)
  have "saveState example_controller True True (example_state PhaseNativePendingRestart BackendNone BackendExternal 5) (example_world ?s) =
      ([(example_world ?s)\<lparr>wd_disk := wide_disk (example_state PhaseNativePendingRestart BackendNone BackendExternal 5)\<rparr>], Inr ())"
    by (rule example_save [where g = 4 and ph = PhaseRelayActive and de = BackendExternal and ap = BackendExternal]) (simp_all add: validRelayBackend_def example_world_def validateTransition_def example_state_def)
  moreover have o: "open_transition example_controller good_control_io (example_world ?s) = Inr (?s, False)"
    by (rule example_open [OF b, of ?s]) (simp add: example_world_def)
  moreover have "(example_state PhaseNativePendingRestart BackendNone BackendExternal 4)\<lparr>KnownLegacy := False, Generation := 5\<rparr> =
      example_state PhaseNativePendingRestart BackendNone BackendExternal 5" by (simp add: example_state_def)
  moreover have "DesiredBackend ?s = BackendExternal" "AppliedBackend ?s = BackendExternal" by (simp_all add: example_state_def)
  ultimately have "snd ?run = Inr ()"
    unfolding requestBackendWithIntentAndWitness_def o sum.case prod.case t n Let_def
    by (simp add: validBackend_def preflightRequestedBackend_def good_control_io_def)
  moreover have "states_faithful example_controller ?s" by (rule example_states_faithful) (simp add: example_state_def)
  ultimately have "\<exists>s'. boundState example_controller (final_world (example_world ?s) (fst ?run)) = Inr (s', False) \<and>
      DesiredBackend s' = BackendNone \<and> AppliedBackend s' = AppliedBackend ?s \<and> AllowsDataPlane s' = AllowsDataPlane ?s"
    using requests_keep_traffic [OF example_controller_bound b _ disjI1, OF _ conjI [OF refl refl],
        of good_control_io BackendNone False "[]" 0] by simp
  moreover have "AppliedBackend ?s = BackendExternal" "AllowsDataPlane ?s" by (simp_all add: example_state_def AllowsDataPlane_def)
  ultimately show ?thesis unfolding Let_def by simp
qed

end
