(* ===== verification/Routing_Apply.thy ===== *)
theory Routing_Apply
  imports Routing_Controller
begin

text \<open>
  Package \<open>routing\<close>, files \<open>controller.go\<close> and \<open>drift.go\<close>: applying a requested backend. The preflight,
  the parked phase with its journal, the edit of the Codex files, the final state, the removal of the
  journal, and the drift check by which the resident watcher judges the result.

  The waits poll the health of the relay until a deadline; what they see is a list of observations.
  The theorems are about every world that \<open>Apply\<close> leaves behind, so they cover a crash after any of
  its writes.
\<close>

section \<open>Health\<close>

record endpoint =
  ep_Valid :: bool
  ep_Generation :: "64 word"
  ep_DesiredMode :: mode
  ep_AppliedMode :: mode
  ep_Phase :: phase
  ep_RelayAdmission :: string
  ep_CatalogRefresh :: string
  ep_RoutingStateInvalid :: bool
  ep_ActiveRequests :: "int option"
  ep_CatalogLifecycle :: string
  ep_RemoteGateway :: string
  ep_LocalOpenCodex :: string

record local_relay =
  lr_General :: endpoint
  lr_Interactive :: endpoint

definition healthAcknowledgesForStatus :: "endpoint \<Rightarrow> state \<Rightarrow> bool" where
  "healthAcknowledgesForStatus e s \<longleftrightarrow> ep_Valid e \<and> \<not> ep_RoutingStateInvalid e \<and> ep_Generation e = Generation s \<and>
     ep_DesiredMode e = DesiredMode s \<and> ep_AppliedMode e = AppliedMode s \<and> ep_Phase e = Phase s"

definition healthAcknowledges :: "endpoint \<Rightarrow> state \<Rightarrow> bool" where
  "healthAcknowledges e s \<longleftrightarrow> ep_Valid e \<and> \<not> ep_RoutingStateInvalid e \<and> ep_Generation e = Generation s \<and>
     ep_DesiredMode e = DesiredMode s \<and> ep_AppliedMode e = AppliedMode s \<and> ep_Phase e = Phase s \<and>
     ep_RelayAdmission e = ''deny'' \<and> ep_CatalogRefresh e = ''pause'' \<and> ep_CatalogLifecycle e = ''paused''"

definition finalHealthAcknowledges :: "endpoint \<Rightarrow> state \<Rightarrow> bool \<Rightarrow> bool" where
  "finalHealthAcknowledges e s requireLocalCatalog =
     (if \<not> healthAcknowledgesForStatus e s then False
      else (case Phase s of
              PhaseNativeActive \<Rightarrow> ep_RelayAdmission e = ''deny'' \<and> ep_CatalogRefresh e = ''pause'' \<and> ep_CatalogLifecycle e = ''paused''
            | PhaseRelayActive \<Rightarrow>
                if ep_RelayAdmission e \<noteq> ''allow'' \<or> ep_CatalogRefresh e \<noteq> ''run'' then False
                else if requireLocalCatalog then ep_CatalogLifecycle e = ''running'' \<and> ep_LocalOpenCodex e = ''ready''
                else True
            | _ \<Rightarrow> False))"

text \<open>The observations until the deadline; \<open>acknowledged\<close> is the loop's flag.\<close>

fun awaitParked :: "local_relay list \<Rightarrow> state \<Rightarrow> bool \<Rightarrow> (routing_error, unit) result" where
  "awaitParked [] s acknowledged = Inl (if acknowledged then ErrRequestDrain else ErrRelayAcknowledgement)"
| "awaitParked (h # hs) s acknowledged =
     (if healthAcknowledges (lr_General h) s \<and> healthAcknowledges (lr_Interactive h) s then
        (if ep_ActiveRequests (lr_General h) = Some 0 then Inr () else awaitParked hs s True)
      else awaitParked hs s acknowledged)"

fun awaitFinalized :: "local_relay list \<Rightarrow> relay_config \<Rightarrow> state \<Rightarrow> (routing_error, unit) result" where
  "awaitFinalized [] cfg s = Inl ErrRelayFinalization"
| "awaitFinalized (h # hs) cfg s =
     (let requireLocalCatalog = ((AppliedBackend s = BackendLocalOpenCodex \<or> AppliedBackend s = BackendLocalAppleContainer) \<and>
            ct_Owner (cf_Catalog cfg) = ''relay'') in
      if finalHealthAcknowledges (lr_General h) s requireLocalCatalog \<and> finalHealthAcknowledges (lr_Interactive h) s requireLocalCatalog
      then Inr () else awaitFinalized hs cfg s)"

section \<open>Preflight\<close>

record switch_io =
  sw_control :: control_io
  sw_credentials :: bool
  sw_journal1 :: bool
  sw_parked :: "local_relay list"
  sw_catalog :: bool
  sw_runtime :: bool
  sw_files :: enable_io
  sw_stamp :: string
  sw_backup :: "codex_file + unit"
  sw_migrate :: bool
  sw_restore :: bool
  sw_journal2 :: bool
  sw_final :: "bool \<times> bool"
  sw_remove :: bool
  sw_finalized :: "local_relay list"
  sw_recovery :: "bool \<times> bool"

definition preflightNative :: "controller \<Rightarrow> codex_fs \<Rightarrow> (controller_error, unit) result" where
  "preflightNative c fs =
     (case InspectRoutingForOwner fs (ct_codexConfigPath c) (ct_codexOwner c) of
        Inl e \<Rightarrow> Inl (CodexErr e)
      | Inr i \<Rightarrow>
          if foreign_or_unmanaged i then Inl ErrForeignOverride
          else if ri_ManagedRoot i \<noteq> ri_InteractiveProfileManaged i then Inl ErrArtifactsIncomplete else Inr ())"

text \<open>The result is the configuration to apply and \<open>LegacyMigrationRequired\<close>. \<open>sw_credentials\<close> says that
  the credentials load and fit the profile, \<open>cio_ready\<close> that the probed local runtime is ready.\<close>

definition preflightBackendWithLegacyIntent ::
  "controller \<Rightarrow> switch_io \<Rightarrow> codex_fs \<Rightarrow> backend \<Rightarrow> bool \<Rightarrow> (controller_error, relay_config \<times> bool) result" where
  "preflightBackendWithLegacyIntent c io fs target known =
     (case ct_loadConfig c fs of
        Inl _ \<Rightarrow> Inl ErrConfigUnavailable
      | Inr cfg \<Rightarrow>
          let enable = PreflightEnableWithInteractiveProfileForOwner fs (ct_codexConfigPath c) (ct_codexOwner c) in
          (case target of
             BackendNone \<Rightarrow> (case preflightNative c fs of Inl e \<Rightarrow> Inl e | Inr _ \<Rightarrow> Inr (cfg, False))
           | BackendExternal \<Rightarrow>
               if cf_UpstreamMode cfg \<noteq> ''external_gateway'' then Inl ErrExternalProfileUnavailable
               else (case (if known then PlanLegacyMigrationWithInteractiveProfileForOwner fs (ct_codexConfigPath c) (ct_codexOwner c)
                           else map_sum id (\<lambda>_. False) enable) of
                       Inl e \<Rightarrow> Inl (CodexErr e)
                     | Inr required \<Rightarrow> if \<not> sw_credentials io then Inl ErrCredentialPreflight else Inr (cfg, required))
           | BackendLocalOpenCodex \<Rightarrow>
               (case enable of
                  Inl e \<Rightarrow> Inl (CodexErr e)
                | Inr _ \<Rightarrow>
                    if cf_UpstreamMode cfg = ''local_opencodex'' then Inr (cfg, False)
                    else if \<not> ct_localProfileOK c then Inl ErrLocalOpenCodexPreflight
                    else (case LocalOpenCodexRuntimeConfig (ct_configEnv c) cfg of
                            Inl e \<Rightarrow> Inl (ConfigErr e)
                          | Inr local \<Rightarrow> if \<not> cio_ready (sw_control io) then Inl ErrCredentialPreflight else Inr (local, False)))
           | BackendLocalAppleContainer \<Rightarrow>
               (case enable of
                  Inl e \<Rightarrow> Inl (CodexErr e)
                | Inr _ \<Rightarrow>
                    if \<not> ct_localProfileOK c then Inl ErrLocalOpenCodexPreflight
                    else (case LocalAppleContainerRuntimeConfig (ct_configEnv c) cfg of
                            Inl e \<Rightarrow> Inl (ConfigErr e)
                          | Inr local \<Rightarrow> if \<not> cio_ready (sw_control io) then Inl ErrLocalOpenCodexPreflight else Inr (local, False)))
           | _ \<Rightarrow> Inl ErrRecovery))"

section \<open>The Codex files\<close>

definition routingArtifactsMatch :: "codex_fs \<Rightarrow> string \<Rightarrow> owner \<Rightarrow> backend \<Rightarrow> relay_config \<Rightarrow> bool" where
  "routingArtifactsMatch fs path o1 target cfg =
     (if target = BackendNone then ValidateNativeRoutingForOwner fs path o1 = Inr ()
      else if target = BackendExternal \<or> target = BackendLocalOpenCodex \<or> target = BackendLocalAppleContainer
      then managed_valid fs path o1 cfg = Inr ()
      else False)"

definition applyConfigWithLegacyIntent ::
  "controller \<Rightarrow> switch_io \<Rightarrow> backend \<Rightarrow> relay_config \<Rightarrow> bool \<Rightarrow> codex_fs \<Rightarrow> codex_fs \<times> (controller_error, unit) result" where
  "applyConfigWithLegacyIntent c io target cfg known fs =
     (let path = ct_codexConfigPath c; o1 = ct_codexOwner c in
      if routingArtifactsMatch fs path o1 target cfg then (fs, Inr ())
      else if target = BackendNone
      then map_prod id (map_sum CodexErr id) (DisableWithInteractiveProfileForOwner (sw_files io) fs path o1)
      else if target = BackendExternal \<or> target = BackendLocalOpenCodex \<or> target = BackendLocalAppleContainer then
        (if known then
           (if target \<noteq> BackendExternal then (fs, Inl ErrRecovery)
            else map_prod id (map_sum CodexErr (\<lambda>_. ()))
              (EnableWithLegacyMigrationForOwner (sw_stamp io) (sw_backup io) (sw_migrate io) (sw_files io) (sw_restore io)
                 fs path o1 (general_url cfg) (interactive_url cfg) (ct_Path (cf_Catalog cfg))))
         else map_prod id (map_sum CodexErr id)
           (EnableWithInteractiveProfileForOwner (sw_files io) fs path o1 (general_url cfg) (interactive_url cfg) (ct_Path (cf_Catalog cfg))))
      else (fs, Inl ErrRecovery))"

section \<open>Applying\<close>

definition newJournal :: "controller \<Rightarrow> codex_fs \<Rightarrow> state \<Rightarrow> backend \<Rightarrow> bool \<Rightarrow> (controller_error, transaction_journal) result" where
  "newJournal c fs s target legacyMigrationRequired =
     (case fingerprintOptional c fs (st_configPath (ct_store c)) of
        Inl e \<Rightarrow> Inl e
      | Inr relayFingerprint \<Rightarrow> (case fingerprintOptional c fs (ct_codexConfigPath c) of
        Inl e \<Rightarrow> Inl e
      | Inr codexFingerprint \<Rightarrow>
          (case fingerprintOptional c fs (InteractiveProfilePathForOwner (ct_codexConfigPath c) (ct_codexOwner c)) of
             Inl e \<Rightarrow> Inl e
           | Inr interactiveFingerprint \<Rightarrow> Inr
               \<lparr>tj_Schema = SchemaVersion, tj_Kind = KindRoutingSwitch, tj_Generation = Generation s,
                tj_Target = modeForBackend target, tj_Origin = modeForBackend (AppliedBackend s),
                tj_TargetBackend = target, tj_OriginBackend = AppliedBackend s, tj_OriginAuthoritative = True,
                tj_KnownLegacy = legacyMigrationRequired, tj_Stage = StagePrepared,
                tj_RelayConfigFingerprint = relayFingerprint, tj_CodexConfigFingerprint = codexFingerprint,
                tj_InteractiveFingerprint = interactiveFingerprint, tj_OriginRelayConfigFingerprint = [],
                tj_TargetRelayConfigFingerprint = [], tj_BackupConfigFingerprint = []\<rparr>)))"

definition failApplyingLocked :: "controller \<Rightarrow> switch_io \<Rightarrow> state \<Rightarrow> controller_error \<Rightarrow> unit routine" where
  "failApplyingLocked c io s cause =
     step_or (saveState c (fst (sw_recovery io)) (snd (sw_recovery io)) (s\<lparr>Phase := PhaseRecoveryRequired, Generation := Generation s + 1\<rparr>))
       (\<lambda>_. fail_with cause) (\<lambda>_. fail_with cause)"

definition applied_state :: "state \<Rightarrow> backend \<Rightarrow> state" where
  "applied_state applying target =
     applying\<lparr>DesiredMode := modeForBackend target, AppliedMode := modeForBackend target,
       DesiredBackend := target, AppliedBackend := target, KnownLegacy := False,
       Phase := (if target = BackendNone then PhaseNativeActive else PhaseRelayActive), Generation := Generation applying + 1\<rparr>"

definition check_step :: "bool \<Rightarrow> controller_error \<Rightarrow> unit routine" where
  "check_step ok e = pure_step (\<lambda>_. if ok then Inr () else Inl e)"

definition finishApplyingLockedWithOriginAuthority ::
  "controller \<Rightarrow> switch_io \<Rightarrow> state \<Rightarrow> relay_config \<Rightarrow> backend \<Rightarrow> bool \<Rightarrow> bool \<Rightarrow> unit routine" where
  "finishApplyingLockedWithOriginAuthority c io applying cfg target originAuthoritative legacyMigrationRequired =
     (let env = ct_env c; fail = failApplyingLocked c io applying; final = applied_state applying target in
      step_or (pure_step (\<lambda>w. newJournal c (wd_files w) applying target legacyMigrationRequired)) fail (\<lambda>j.
      let journal = j\<lparr>tj_OriginAuthoritative := (originAuthoritative \<and> \<not> legacyMigrationRequired)\<rparr> in
      step_or (disk_step (\<lambda>d. writeJournal env (sw_journal1 io) d journal)) fail (\<lambda>_.
      step_or (pure_step (\<lambda>_. map_sum RoutingErr id (awaitParked (sw_parked io) applying False))) fail (\<lambda>_.
      step_or (check_step ((target = BackendLocalOpenCodex \<or> target = BackendLocalAppleContainer) \<and>
          ct_Owner (cf_Catalog cfg) = ''relay'' \<longrightarrow> sw_catalog io) ErrLocalOpenCodexPreflight) fail (\<lambda>_.
      step_or (check_step (ct_hasRuntimeControl c \<longrightarrow> sw_runtime io) (RoutingErr ErrRelayAcknowledgement)) fail (\<lambda>_.
      step_or (files_step (applyConfigWithLegacyIntent c io target cfg legacyMigrationRequired)) fail (\<lambda>_.
      step_or (pure_step (\<lambda>w. newJournal c (wd_files w) applying target legacyMigrationRequired)) fail (\<lambda>updated.
      step_or (disk_step (\<lambda>d. writeJournal env (sw_journal2 io) d
          (journal\<lparr>tj_Stage := StageConfigMutated, tj_RelayConfigFingerprint := tj_RelayConfigFingerprint updated,
             tj_CodexConfigFingerprint := tj_CodexConfigFingerprint updated,
             tj_InteractiveFingerprint := tj_InteractiveFingerprint updated\<rparr>))) fail (\<lambda>_.
      step_or (saveState c (fst (sw_final io)) (snd (sw_final io)) final) fail (\<lambda>_.
      step_or (disk_step (removeJournal (sw_remove io))) fail_with (\<lambda>_.
      step_or (pure_step (\<lambda>_. map_sum RoutingErr id (awaitFinalized (sw_finalized io) cfg final)))
        (failApplyingLocked c io final) (\<lambda>_. return_unit))))))))))))"

definition applyLocked :: "controller \<Rightarrow> switch_io \<Rightarrow> state \<Rightarrow> unit routine" where
  "applyLocked c io s w =
     (if \<not> validBackend (DesiredBackend s) then ([], Inl ErrRecovery)
      else (case preflightBackendWithLegacyIntent c io (wd_files w) (DesiredBackend s) (KnownLegacy s) of
        Inl e \<Rightarrow> ([], Inl e)
      | Inr (cfg, required) \<Rightarrow>
          let applying = s\<lparr>Phase := PhaseApplying, KnownLegacy := required, Generation := Generation s + 1\<rparr> in
          step_or (saveState c (cio_marker (sw_control io)) (cio_state (sw_control io)) applying) fail_with
            (\<lambda>_. finishApplyingLockedWithOriginAuthority c io applying cfg (DesiredBackend s) True required) w))"

definition Apply :: "controller \<Rightarrow> switch_io \<Rightarrow> bool \<Rightarrow> unit routine" where
  "Apply c io desktopExited w =
     (if \<not> desktopExited then ([], Inl (RoutingErr ErrDesktopExitConfirmation))
      else (case open_transition c (sw_control io) w of
        Inl e \<Rightarrow> ([], Inl e)
      | Inr (s, legacy) \<Rightarrow>
          if legacy \<or> (Phase s \<noteq> PhaseNativePendingRestart \<and> Phase s \<noteq> PhaseRelayPendingRestart \<and> Phase s \<noteq> PhaseBackendPendingRestart)
          then ([], Inl (RoutingErr ErrTransitionPending))
          else if DesiredBackend s = BackendLocalAppleContainer \<or> AppliedBackend s = BackendLocalAppleContainer
          then ([], Inl ErrRecovery)
          else applyLocked c io s w))"

section \<open>The drift check\<close>

definition AppliedRoutingDriftCheck ::
  "(codex_fs \<Rightarrow> (config_error, relay_config) result) \<Rightarrow> config_env \<Rightarrow> codex_fs \<Rightarrow> state \<Rightarrow> bool" where
  "AppliedRoutingDriftCheck load env fs s =
     (if Phase s = PhaseApplying \<or> Phase s = PhaseRecoveryRequired \<or> BoundCodexConfigPath s = [] then True
      else (case load fs of
        Inl _ \<Rightarrow> False
      | Inr cfg \<Rightarrow>
          (case OwnerForID (Scope cfg) of
             Inl _ \<Rightarrow> False
           | Inr o1 \<Rightarrow>
               (case AppliedBackend s of
                  BackendNone \<Rightarrow> ValidateNativeRoutingForOwner fs (BoundCodexConfigPath s) o1 = Inr ()
                | BackendExternal \<Rightarrow> managed_valid fs (BoundCodexConfigPath s) o1 cfg = Inr ()
                | BackendLocalOpenCodex \<Rightarrow>
                    (case LocalOpenCodexRuntimeConfig env cfg of
                       Inl _ \<Rightarrow> False | Inr local \<Rightarrow> managed_valid fs (BoundCodexConfigPath s) o1 local = Inr ())
                | BackendLocalAppleContainer \<Rightarrow>
                    (case LocalAppleContainerRuntimeConfig env cfg of
                       Inl _ \<Rightarrow> False | Inr local \<Rightarrow> managed_valid fs (BoundCodexConfigPath s) o1 local = Inr ())
                | _ \<Rightarrow> False))))"

section \<open>Rules for routines\<close>

text \<open>\<open>runs m w C E Q\<close>: started in \<open>w\<close>, every world that \<open>m\<close> leaves behind satisfies the crash condition
  \<open>C\<close>; an error ends in a world with \<open>E\<close>, a result in one with \<open>Q\<close>.\<close>

definition runs :: "'a routine \<Rightarrow> world \<Rightarrow> (world \<Rightarrow> bool) \<Rightarrow> (controller_error \<Rightarrow> world \<Rightarrow> bool) \<Rightarrow> ('a \<Rightarrow> world \<Rightarrow> bool) \<Rightarrow> bool" where
  "runs m w C E Q \<longleftrightarrow> (\<forall>x \<in> set (fst (m w)). C x) \<and>
     (case snd (m w) of Inl e \<Rightarrow> E e (final_world w (fst (m w))) | Inr a \<Rightarrow> Q a (final_world w (fst (m w))))"

lemma final_append: "final_world w (t @ t') = final_world (final_world w t) t'"
  by (cases t') (simp_all add: final_world_def)

lemma runs_step_or:
  assumes "runs m w C E' Q'" "\<And>e w'. E' e w' \<Longrightarrow> runs (handler e) w' C E Q" "\<And>a w'. Q' a w' \<Longrightarrow> runs (k a) w' C E Q"
  shows "runs (step_or m handler k) w C E Q"
proof (cases "m w")
  case (Pair t r)
  define w' where "w' = final_world w t"
  define cont where "cont = (case r of Inl e \<Rightarrow> handler e w' | Inr x \<Rightarrow> k x w')"
  have t: "\<forall>x \<in> set t. C x" using assms(1) Pair by (simp add: runs_def)
  have "runs (\<lambda>_. cont) w' C E Q"
  proof (cases r)
    case (Inl e)
    then have "E' e w'" using assms(1) Pair by (simp add: runs_def w'_def)
    from assms(2) [OF this] show ?thesis unfolding runs_def cont_def Inl sum.case .
  next
    case (Inr a)
    then have "Q' a w'" using assms(1) Pair by (simp add: runs_def w'_def)
    from assms(3) [OF this] show ?thesis unfolding runs_def cont_def Inr sum.case .
  qed
  moreover have "step_or m handler k w = (t @ fst cont, snd cont)"
    unfolding step_or_def Pair prod.case w'_def [symmetric] cont_def [symmetric] by (simp split: prod.split)
  ultimately show ?thesis using t unfolding runs_def by (cases "snd cont") (auto simp: final_append w'_def)
qed

lemma runs_pure: "(case f w of Inl e \<Rightarrow> E e w | Inr a \<Rightarrow> Q a w) \<Longrightarrow> runs (pure_step f) w C E Q"
  by (cases "f w") (simp_all add: runs_def pure_step_def)

lemma runs_check: "(ok \<Longrightarrow> Q () w) \<Longrightarrow> (\<not> ok \<Longrightarrow> E e w) \<Longrightarrow> runs (check_step ok e) w C E Q"
  by (simp add: runs_def check_step_def pure_step_def)

lemma runs_fail: "E e w \<Longrightarrow> runs (fail_with e) w C E Q"
  by (simp add: runs_def fail_with_def)

lemma runs_return: "Q () w \<Longrightarrow> runs return_unit w C E Q"
  by (simp add: runs_def return_unit_def)

lemma runs_disk:
  assumes "\<And>d r. f (wd_disk w) = (d, r) \<Longrightarrow> C (w\<lparr>wd_disk := d\<rparr>) \<and>
    (case r of Inl e \<Rightarrow> E (RoutingErr e) (w\<lparr>wd_disk := d\<rparr>) | Inr _ \<Rightarrow> Q () (w\<lparr>wd_disk := d\<rparr>))"
  shows "runs (disk_step f) w C E Q"
  using assms by (cases "f (wd_disk w)"; cases "snd (f (wd_disk w))") (auto simp: runs_def disk_step_def)

lemma runs_files:
  assumes "\<And>fs r. f (wd_files w) = (fs, r) \<Longrightarrow> C (w\<lparr>wd_files := fs\<rparr>) \<and>
    (case r of Inl e \<Rightarrow> E e (w\<lparr>wd_files := fs\<rparr>) | Inr _ \<Rightarrow> Q () (w\<lparr>wd_files := fs\<rparr>))"
  shows "runs (files_step f) w C E Q"
  using assms by (cases "f (wd_files w)"; cases "snd (f (wd_files w))") (auto simp: runs_def files_step_def)

lemma runs_mono:
  assumes "runs m w C E Q" "\<And>x. C x \<Longrightarrow> C' x" "\<And>e x. E e x \<Longrightarrow> E' e x" "\<And>a x. Q a x \<Longrightarrow> Q' a x"
  shows "runs m w C' E' Q'"
  using assms by (auto simp: runs_def split: sum.splits)

section \<open>Parked worlds\<close>

definition parked :: "controller \<Rightarrow> world \<Rightarrow> bool" where
  "parked c w \<longleftrightarrow> (\<forall>g. \<not> snapshot_AllowsDataPlane (Refresh (ct_env c) (ct_store c) g (wd_disk w)))"

abbreviation reads :: "controller \<Rightarrow> world \<Rightarrow> state \<Rightarrow> bool" where
  "reads c w s \<equiv> Read (ct_env c) (ct_store c) (wd_disk w) = Inr (s, False)"

lemma parked_by_state: "reads c w s \<Longrightarrow> \<not> AllowsDataPlane s \<Longrightarrow> parked c w"
  using state_parks by (simp add: parked_def)

lemma parked_by_journal: "dk_journal (wd_disk w) \<noteq> FileAbsent \<Longrightarrow> parked c w"
  using journal_parks by (simp add: parked_def)

text \<open>Saving a state whose bound path is that of this installation.\<close>

lemma runs_save:
  assumes "controller_bound c" "states_faithful c s0" "BoundCodexConfigPath n = BoundCodexConfigPath s0" "reads c w s"
    and "normalizeStateBackends n = n"
    and saved: "\<And>x. reads c x n \<Longrightarrow> ctl_valid c n \<Longrightarrow> wd_files x = wd_files w \<Longrightarrow> dk_journal (wd_disk x) = dk_journal (wd_disk w) \<Longrightarrow> C x \<and> Q () x"
    and kept: "\<And>x e. reads c x s \<Longrightarrow> dk_state (wd_disk x) = dk_state (wd_disk w) \<Longrightarrow> wd_files x = wd_files w \<Longrightarrow>
      dk_journal (wd_disk x) = dk_journal (wd_disk w) \<Longrightarrow> C x \<and> E e x"
  shows "runs (saveState c okM okS n) w C E Q"
proof (cases "saveState c okM okS n w")
  case (Pair t r)
  have "ctl_valid c n \<Longrightarrow> state_faithful (ct_env c) n" using assms(2,3) by (simp add: states_faithful_def)
  note out = saveState_outcome [OF Pair assms(1) this disjI2 [OF assms(5)]]
  obtain x where t: "t = [x]" using Pair by (auto simp: saveState_def disk_step_def split: prod.splits)
  have "C x \<and> (case r of Inl e \<Rightarrow> E e x | Inr u \<Rightarrow> Q u x)"
  proof (cases r)
    case (Inl e)
    with out have "dk_state (wd_disk x) = dk_state (wd_disk w)" "wd_files x = wd_files w" "dk_journal (wd_disk x) = dk_journal (wd_disk w)"
      by (simp_all add: t)
    then show ?thesis using kept [OF Read_same_state_file [OF _ assms(4)]] Inl by simp
  next
    case (Inr u)
    with out saved [of x] show ?thesis by (simp add: t)
  qed
  then show ?thesis unfolding runs_def Pair t by (cases r) simp_all
qed

section \<open>Every world of a switch\<close>

text \<open>The world after a completed switch: the final state, no journal, and the files that
  \<open>applyConfigWithLegacyIntent\<close> made from \<open>fs0\<close>.\<close>

definition committed :: "controller \<Rightarrow> switch_io \<Rightarrow> state \<Rightarrow> relay_config \<Rightarrow> backend \<Rightarrow> bool \<Rightarrow> codex_fs \<Rightarrow> world \<Rightarrow> bool" where
  "committed c io applying cfg target migrate fs0 w \<longleftrightarrow>
     reads c w (applied_state applying target) \<and> ctl_valid c (applied_state applying target) \<and>
     loadJournal (ct_env c) (wd_disk w) = Inr None \<and> dk_journal (wd_disk w) = FileAbsent \<and>
     applyConfigWithLegacyIntent c io target cfg migrate fs0 = (wd_files w, Inr ())"

lemma journal_written:
  assumes "writeJournal env ok d j = (d', Inr ())"
  shows "dk_journal d' \<noteq> FileAbsent \<and> dk_state d' = dk_state d"
  using assms by (auto simp: writeJournal_def Let_def dest!: control_write_cases split: sum.splits)

lemma journal_not_written: "writeJournal env ok d j = (d', Inl e) \<Longrightarrow> d' = d"
  by (rule transaction.put_err)

lemma journal_removed:
  assumes "removeJournal ok d = (d', Inr ())"
  shows "dk_journal d' = FileAbsent \<and> dk_state d' = dk_state d"
  using assms by (auto simp: removeJournal_def dest!: control_remove_cases split: sum.splits)

lemma runs_writeJournal:
  assumes "reads c w s" "\<And>x. reads c x s \<Longrightarrow> wd_files x = wd_files w \<Longrightarrow> dk_journal (wd_disk x) \<noteq> FileAbsent \<Longrightarrow> C x \<and> Q () x"
    and "\<And>e. C w \<and> E e w"
  shows "runs (disk_step (\<lambda>d. writeJournal (ct_env c) ok d j)) w C E Q"
proof (rule runs_disk)
  fix d r
  assume wr: "writeJournal (ct_env c) ok (wd_disk w) j = (d, r)"
  show "C (w\<lparr>wd_disk := d\<rparr>) \<and> (case r of Inl e \<Rightarrow> E (RoutingErr e) (w\<lparr>wd_disk := d\<rparr>) | Inr _ \<Rightarrow> Q () (w\<lparr>wd_disk := d\<rparr>))"
  proof (cases r)
    case (Inl e)
    with wr have "d = wd_disk w" using journal_not_written by blast
    then have "w\<lparr>wd_disk := d\<rparr> = w" by simp
    then show ?thesis using assms(3) Inl by simp
  next
    case (Inr u)
    with wr have d: "dk_journal d \<noteq> FileAbsent" "dk_state d = dk_state (wd_disk w)" using journal_written by auto
    then show ?thesis using assms(2) [of "w\<lparr>wd_disk := d\<rparr>"] Read_same_state_file [OF d(2) assms(1)] Inr by simp
  qed
qed

lemma runs_removeJournal:
  assumes "reads c w s" "\<And>x. reads c x s \<Longrightarrow> wd_files x = wd_files w \<Longrightarrow> dk_journal (wd_disk x) = FileAbsent \<Longrightarrow> C x \<and> Q () x"
    and "\<And>e. C w \<and> E e w"
  shows "runs (disk_step (removeJournal ok)) w C E Q"
proof (rule runs_disk)
  fix d r
  assume rm: "removeJournal ok (wd_disk w) = (d, r)"
  show "C (w\<lparr>wd_disk := d\<rparr>) \<and> (case r of Inl e \<Rightarrow> E (RoutingErr e) (w\<lparr>wd_disk := d\<rparr>) | Inr _ \<Rightarrow> Q () (w\<lparr>wd_disk := d\<rparr>))"
  proof (cases r)
    case (Inl e)
    with rm have "d = wd_disk w" using transaction.clear_err by blast
    then have "w\<lparr>wd_disk := d\<rparr> = w" by simp
    then show ?thesis using assms(3) Inl by simp
  next
    case (Inr u)
    with rm have d: "dk_journal d = FileAbsent" "dk_state d = dk_state (wd_disk w)" using journal_removed by auto
    then show ?thesis using assms(2) [of "w\<lparr>wd_disk := d\<rparr>"] Read_same_state_file [OF d(2) assms(1)] Inr by simp
  qed
qed

lemma normalized_states:
  assumes "normalizeStateBackends s = s"
  shows "normalizeStateBackends (s\<lparr>Phase := p, Generation := g\<rparr>) = s\<lparr>Phase := p, Generation := g\<rparr>"
    "normalizeStateBackends (s\<lparr>Phase := p, KnownLegacy := k, Generation := g\<rparr>) = s\<lparr>Phase := p, KnownLegacy := k, Generation := g\<rparr>"
  using assms by (cases s; auto simp: normalizeStateBackends_def Let_def split: if_splits)+

lemma normalized_applied: "validBackend target \<Longrightarrow> normalizeStateBackends (applied_state s target) = applied_state s target"
  by (auto simp: normalizeStateBackends_def applied_state_def validBackend_def)

lemma runs_failApplying:
  assumes "controller_bound c" "states_faithful c s0" "BoundCodexConfigPath s = BoundCodexConfigPath s0" "reads c w s"
    and "\<And>x. reads c x s \<Longrightarrow> wd_files x = wd_files w \<Longrightarrow> dk_journal (wd_disk x) = dk_journal (wd_disk w) \<Longrightarrow> C x"
    and "\<And>x. parked c x \<Longrightarrow> C x"
  shows "runs (failApplyingLocked c io s e) w C (\<lambda>_ _. True) Q"
proof -
  have n: "normalizeStateBackends s = s" using valid_state_normalized Read_valid [OF assms(4)] by blast
  show ?thesis
    unfolding failApplyingLocked_def
  proof (rule runs_step_or [where E' = "\<lambda>_ _. True" and Q' = "\<lambda>_ _. True"])
    show "runs (saveState c (fst (sw_recovery io)) (snd (sw_recovery io)) (s\<lparr>Phase := PhaseRecoveryRequired, Generation := Generation s + 1\<rparr>)) w
        C (\<lambda>_ _. True) (\<lambda>_ _. True)"
    proof (rule runs_save [OF assms(1,2) _ assms(4)])
      fix x
      assume "reads c x (s\<lparr>Phase := PhaseRecoveryRequired, Generation := Generation s + 1\<rparr>)"
      then have "parked c x" by (rule parked_by_state) (simp add: AllowsDataPlane_def)
      then show "C x \<and> True" using assms(6) by blast
    qed (use assms(3,5) normalized_states [OF n] in simp_all)
  qed (simp_all add: runs_fail)
qed

lemma finish_runs:
  assumes c: "controller_bound c" "states_faithful c s0" "BoundCodexConfigPath applying = BoundCodexConfigPath s0"
    and start: "reads c w applying" "Phase applying = PhaseApplying" "validBackend target"
  shows "runs (finishApplyingLockedWithOriginAuthority c io applying cfg target auth migrate) w
    (\<lambda>x. parked c x \<or> committed c io applying cfg target migrate (wd_files w) x) (\<lambda>_ _. True)
    (\<lambda>_ x. committed c io applying cfg target migrate (wd_files w) x)"
    (is "runs _ _ ?C _ ?Q")
proof -
  let ?fs = "wd_files w" and ?final = "applied_state applying target"
  let ?A = "\<lambda>x. reads c x applying \<and> wd_files x = ?fs"
  let ?B = "\<lambda>x. ?A x \<and> dk_journal (wd_disk x) \<noteq> FileAbsent"
  let ?D = "\<lambda>x. reads c x applying \<and> dk_journal (wd_disk x) \<noteq> FileAbsent \<and>
    applyConfigWithLegacyIntent c io target cfg migrate ?fs = (wd_files x, Inr ())"
  let ?F = "\<lambda>x. reads c x ?final \<and> ctl_valid c ?final \<and> dk_journal (wd_disk x) \<noteq> FileAbsent \<and>
    applyConfigWithLegacyIntent c io target cfg migrate ?fs = (wd_files x, Inr ())"
  have park: "reads c x applying \<Longrightarrow> ?C x" for x using parked_by_state start(2) by (simp add: AllowsDataPlane_def)
  have jpark: "dk_journal (wd_disk x) \<noteq> FileAbsent \<Longrightarrow> ?C x" for x using parked_by_journal by blast
  have fail: "runs (failApplyingLocked c io applying e) x ?C (\<lambda>_ _. True) ?Q" if "reads c x applying" for x e
    by (rule runs_failApplying [OF c that]) (use park in blast)+
  have fail': "runs (failApplyingLocked c io ?final e) x ?C (\<lambda>_ _. True) ?Q" if "?Q () x" for x e
  proof (rule runs_failApplying [OF c(1,2)])
    show "BoundCodexConfigPath ?final = BoundCodexConfigPath s0" using c(3) by (simp add: applied_state_def)
    show "reads c x ?final" using that by (simp add: committed_def)
    fix y assume "reads c y ?final" "wd_files y = wd_files x" "dk_journal (wd_disk y) = dk_journal (wd_disk x)"
    with that show "?C y" by (simp add: committed_def loadJournal_def)
  qed blast
  show ?thesis
    unfolding finishApplyingLockedWithOriginAuthority_def Let_def
    apply (rule runs_step_or [where E' = "\<lambda>_ y. reads c y applying" and Q' = "\<lambda>_. ?A"], rule runs_pure, simp add: start split: sum.split, erule fail)
    apply (rule runs_step_or [where E' = "\<lambda>_ y. reads c y applying" and Q' = "\<lambda>_. ?B"], rule runs_writeJournal [where s = applying], blast, use jpark in simp, use park in blast, erule fail)
    apply (rule runs_step_or [where E' = "\<lambda>_ y. reads c y applying" and Q' = "\<lambda>_. ?B"], rule runs_pure, simp split: sum.split, erule fail)
    apply (rule runs_step_or [where E' = "\<lambda>_ y. reads c y applying" and Q' = "\<lambda>_. ?B"], rule runs_check, blast, blast, erule fail)
    apply (rule runs_step_or [where E' = "\<lambda>_ y. reads c y applying" and Q' = "\<lambda>_. ?B"], rule runs_check, blast, blast, erule fail)
    apply (rule runs_step_or [where E' = "\<lambda>_ y. reads c y applying" and Q' = "\<lambda>_. ?D"], rule runs_files, use jpark in \<open>force split: sum.split\<close>, erule fail)
    apply (rule runs_step_or [where E' = "\<lambda>_ y. reads c y applying" and Q' = "\<lambda>_. ?D"], rule runs_pure, simp split: sum.split, erule fail)
    apply (rule runs_step_or [where E' = "\<lambda>_ y. reads c y applying" and Q' = "\<lambda>_. ?D"], rule runs_writeJournal [where s = applying], blast, use jpark in simp, use park in blast, erule fail)
    apply (rule runs_step_or [where E' = "\<lambda>_ y. reads c y applying" and Q' = "\<lambda>_. ?F"])
      apply (rule runs_save [OF c(1,2), where s = applying])
         apply (simp add: applied_state_def c(3))
        apply blast
       apply (rule normalized_applied [OF start(3)])
       apply (use jpark in force)
      apply (use park in blast)
     apply (erule fail)
    apply (rule runs_step_or [where E' = "\<lambda>_ _. True" and Q' = "\<lambda>_. ?Q ()"])
      apply (rule runs_removeJournal, blast, simp add: committed_def loadJournal_def, use jpark in blast)
     apply (rule runs_fail, simp)
    apply (rule runs_step_or [where E' = "\<lambda>_. ?Q ()" and Q' = "\<lambda>_. ?Q ()"])
      apply (rule runs_pure, simp split: sum.split)
     apply (erule fail')
    apply (rule runs_return, blast)
    done
qed

definition untouched :: "world \<Rightarrow> world \<Rightarrow> bool" where
  "untouched w x \<longleftrightarrow> wd_files x = wd_files w \<and> dk_state (wd_disk x) = dk_state (wd_disk w) \<and> dk_journal (wd_disk x) = dk_journal (wd_disk w)"

definition applying_state :: "state \<Rightarrow> bool \<Rightarrow> state" where
  "applying_state s required = s\<lparr>Phase := PhaseApplying, KnownLegacy := required, Generation := Generation s + 1\<rparr>"

lemma early_return:
  assumes "(if b then ([], Inl e) else x) = (trace, r)" "\<not> (trace = [] \<and> isl r)"
  shows "\<not> b \<and> x = (trace, r)"
  using assms by (auto split: if_splits)

lemma applyLocked_runs:
  assumes c: "controller_bound c" "states_faithful c s" and start: "reads c w s"
    and pre: "preflightBackendWithLegacyIntent c io (wd_files w) (DesiredBackend s) (KnownLegacy s) = Inr (cfg, required)"
    and target: "validBackend (DesiredBackend s)"
  shows "runs (applyLocked c io s) w
    (\<lambda>x. untouched w x \<or> parked c x \<or> committed c io (applying_state s required) cfg (DesiredBackend s) required (wd_files w) x)
    (\<lambda>_ _. True) (\<lambda>_ x. committed c io (applying_state s required) cfg (DesiredBackend s) required (wd_files w) x)"
    (is "runs _ _ ?C _ ?Q")
proof -
  let ?n = "applying_state s required"
  have norm: "normalizeStateBackends ?n = ?n"
    using normalized_states(2) [OF valid_state_normalized [OF Read_valid [OF start]]] by (simp add: applying_state_def)
  have run: "runs (step_or (saveState c (cio_marker (sw_control io)) (cio_state (sw_control io)) ?n) fail_with
      (\<lambda>_. finishApplyingLockedWithOriginAuthority c io ?n cfg (DesiredBackend s) True required)) w ?C (\<lambda>_ _. True) ?Q"
  proof (rule runs_step_or [where E' = "\<lambda>_ _. True" and Q' = "\<lambda>_ x. reads c x ?n \<and> wd_files x = wd_files w"])
    show "runs (saveState c (cio_marker (sw_control io)) (cio_state (sw_control io)) ?n) w ?C (\<lambda>_ _. True)
        (\<lambda>_ x. reads c x ?n \<and> wd_files x = wd_files w)"
    proof (rule runs_save [OF c _ start norm])
      fix x
      assume "reads c x ?n" "wd_files x = wd_files w"
      moreover have "parked c x" using parked_by_state [OF calculation(1)] by (simp add: applying_state_def AllowsDataPlane_def)
      ultimately show "?C x \<and> reads c x ?n \<and> wd_files x = wd_files w" by blast
    qed (simp_all add: applying_state_def untouched_def)
  next
    fix a x
    assume x: "reads c x ?n \<and> wd_files x = wd_files w"
    show "runs (finishApplyingLockedWithOriginAuthority c io ?n cfg (DesiredBackend s) True required) x ?C (\<lambda>_ _. True) ?Q"
      by (rule runs_mono [OF finish_runs [OF c]]) (use x target in \<open>auto simp: applying_state_def\<close>)
  qed (simp add: runs_fail)
  have eq: "applyLocked c io s w = step_or (saveState c (cio_marker (sw_control io)) (cio_state (sw_control io)) ?n) fail_with
      (\<lambda>_. finishApplyingLockedWithOriginAuthority c io ?n cfg (DesiredBackend s) True required) w"
    by (simp add: applyLocked_def target pre applying_state_def Let_def)
  show ?thesis using run unfolding runs_def eq .
qed

lemma Apply_cases:
  assumes "Apply c io exited w = (trace, r)" "controller_bound c" "boundState c w = Inr (s, legacy)" "states_faithful c s"
  obtains (refused) "trace = []" "isl r"
  | (switched) cfg required where "reads c w s" "validBackend (DesiredBackend s)" "DesiredBackend s \<noteq> BackendLocalAppleContainer"
      "preflightBackendWithLegacyIntent c io (wd_files w) (DesiredBackend s) (KnownLegacy s) = Inr (cfg, required)"
      "\<And>x. x \<in> set trace \<Longrightarrow> untouched w x \<or> parked c x \<or>
        committed c io (applying_state s required) cfg (DesiredBackend s) required (wd_files w) x"
      "r = Inr () \<Longrightarrow> committed c io (applying_state s required) cfg (DesiredBackend s) required (wd_files w) (final_world w trace)"
proof (cases "trace = [] \<and> isl r")
  case False
  have o: "open_transition c (sw_control io) w = Inr (s, legacy)"
  proof (cases "open_transition c (sw_control io) w")
    case (Inl e)
    then show ?thesis using False assms(1) by (auto simp: Apply_def split: if_splits)
  next
    case (Inr p)
    then show ?thesis using assms(3) by (auto simp: open_transition_def split: if_splits sum.splits option.splits)
  qed
  note e1 = early_return [OF assms(1) [unfolded Apply_def o sum.case prod.case] False, THEN conjunct2]
  note e2 = early_return [OF e1 False]
  note e3 = early_return [OF e2 [THEN conjunct2] False]
  have l: "\<not> legacy" "applyLocked c io s w = (trace, r)" "DesiredBackend s \<noteq> BackendLocalAppleContainer"
    using e2 e3 by blast+
  have start: "reads c w s" using assms(3) l(1) boundState_read [OF assms(2), of w s] by simp
  obtain cfg required where p: "validBackend (DesiredBackend s)"
      "preflightBackendWithLegacyIntent c io (wd_files w) (DesiredBackend s) (KnownLegacy s) = Inr (cfg, required)"
  proof (cases "preflightBackendWithLegacyIntent c io (wd_files w) (DesiredBackend s) (KnownLegacy s)")
    case (Inl e)
    with early_return [OF l(2) [unfolded applyLocked_def] False] False show ?thesis by auto
  next
    case (Inr p)
    then show ?thesis using that early_return [OF l(2) [unfolded applyLocked_def] False] by (cases p) blast
  qed
  note run = applyLocked_runs [OF assms(2,4) start p(2,1), unfolded runs_def l(2) fst_conv snd_conv]
  show ?thesis by (rule switched [OF start p(1) l(3) p(2)]) (use run in auto)
qed (use refused in blast)

text \<open>A completed switch from \<open>w\<close> to the backend that \<open>s\<close> desires.\<close>

definition switch_completed :: "controller \<Rightarrow> switch_io \<Rightarrow> state \<Rightarrow> world \<Rightarrow> world \<Rightarrow> bool" where
  "switch_completed c io s w x \<longleftrightarrow>
     (\<exists>s'. Read (ct_env c) (ct_store c) (wd_disk x) = Inr (s', False) \<and>
        DesiredBackend s' = DesiredBackend s \<and> AppliedBackend s' = DesiredBackend s \<and> Generation s' = Generation s + 2 \<and>
        Phase s' = (if DesiredBackend s = BackendNone then PhaseNativeActive else PhaseRelayActive)) \<and>
     dk_journal (wd_disk x) = FileAbsent \<and>
     (\<exists>cfg migrate. applyConfigWithLegacyIntent c io (DesiredBackend s) cfg migrate (wd_files w) = (wd_files x, Inr ()))"

lemma committed_completes:
  assumes "committed c io (applying_state s required) cfg (DesiredBackend s) required (wd_files w) x"
  shows "switch_completed c io s w x"
  using assms unfolding switch_completed_def committed_def
  by (intro conjI exI [of _ "applied_state (applying_state s required) (DesiredBackend s)"])
    (auto simp: applied_state_def applying_state_def)

text \<open>C36: a switch is crash safe. Whatever write of \<open>Apply\<close> is the last one before a crash, the world it
  leaves is the old one, or one in which the resident watcher admits no traffic whatever its gates
  say, or the completed switch: the durable state names the requested backend as the applied one, two
  generations later and in its stable phase, no journal is left, and the Codex files are the edited
  ones. A successful \<open>Apply\<close> ends in a completed switch.\<close>

theorem Apply_crash_safe:
  assumes "Apply c io exited w = (trace, r)" "controller_bound c" "boundState c w = Inr (s, legacy)" "states_faithful c s"
  shows "(\<forall>x \<in> set trace.
      (wd_files x = wd_files w \<and> dk_state (wd_disk x) = dk_state (wd_disk w) \<and> dk_journal (wd_disk x) = dk_journal (wd_disk w)) \<or>
      (\<forall>g. \<not> snapshot_AllowsDataPlane (Refresh (ct_env c) (ct_store c) g (wd_disk x))) \<or> switch_completed c io s w x) \<and>
    (r = Inr () \<longrightarrow> switch_completed c io s w (final_world w trace))"
  using assms
proof (cases rule: Apply_cases)
  case refused
  then show ?thesis by auto
next
  case (switched cfg required)
  then show ?thesis using committed_completes unfolding untouched_def parked_def by blast
qed

section \<open>A completed switch satisfies the watcher\<close>

text \<open>The witnesses of the other two transactions are no business of the controller's routines.\<close>

definition side_kept :: "'a routine \<Rightarrow> bool" where
  "side_kept m \<longleftrightarrow> (\<forall>w. \<forall>x \<in> set (fst (m w)). dk_maintenance (wd_disk x) = dk_maintenance (wd_disk w) \<and>
     dk_runtime (wd_disk x) = dk_runtime (wd_disk w))"

lemma side_kept_final: "side_kept m \<Longrightarrow> dk_maintenance (wd_disk (final_world w (fst (m w)))) = dk_maintenance (wd_disk w) \<and>
    dk_runtime (wd_disk (final_world w (fst (m w)))) = dk_runtime (wd_disk w)"
  by (cases "fst (m w) = []") (auto simp: side_kept_def final_world_def)

lemma side_kept_step_or:
  assumes "side_kept m" "\<And>e. side_kept (h e)" "\<And>a. side_kept (k a)"
  shows "side_kept (step_or m h k)"
  unfolding side_kept_def
proof (intro allI ballI)
  fix w x
  obtain t r where m: "m w = (t, r)" by fastforce
  define cont where "cont = (case r of Inl e \<Rightarrow> h e (final_world w t) | Inr a \<Rightarrow> k a (final_world w t))"
  have "\<exists>n. side_kept n \<and> cont = n (final_world w t)" unfolding cont_def using assms(2,3) by (cases r) auto
  then obtain n where n: "side_kept n" "cont = n (final_world w t)" by blast
  assume "x \<in> set (fst (step_or m h k w))"
  moreover have "fst (step_or m h k w) = t @ fst cont"
    unfolding step_or_def m prod.case cont_def [symmetric] by (simp split: prod.split)
  ultimately have "x \<in> set t \<or> x \<in> set (fst cont)" by simp
  then show "dk_maintenance (wd_disk x) = dk_maintenance (wd_disk w) \<and> dk_runtime (wd_disk x) = dk_runtime (wd_disk w)"
    using assms(1) n side_kept_final [OF assms(1), of w] m unfolding side_kept_def by fastforce
qed

lemma side_kept_disk:
  assumes "\<And>d. dk_maintenance (fst (f d)) = dk_maintenance d \<and> dk_runtime (fst (f d)) = dk_runtime d"
  shows "side_kept (disk_step f)"
  using assms by (auto simp: side_kept_def disk_step_def split: prod.splits) (metis fst_conv)+

lemma side_kept_basic: "side_kept (pure_step f)" "side_kept (check_step b e)" "side_kept (fail_with e)" "side_kept return_unit" "side_kept (files_step g)"
  by (auto simp: side_kept_def pure_step_def check_step_def fail_with_def return_unit_def files_step_def split: prod.splits)

lemma side_kept_journal: "side_kept (disk_step (\<lambda>d. writeJournal env ok d j))" "side_kept (disk_step (removeJournal ok))"
  by (intro side_kept_disk, simp add: writeJournal_def removeJournal_def Let_def split: sum.split)+

lemma side_kept_save: "controller_bound c \<Longrightarrow> side_kept (saveState c okM okS n)"
  unfolding saveState_def
proof (rule side_kept_disk)
  fix d
  assume "controller_bound c"
  then show "dk_maintenance (fst (Save (ct_env c) (ct_store c) False okM okS d n)) = dk_maintenance d \<and>
      dk_runtime (fst (Save (ct_env c) (ct_store c) False okM okS d n)) = dk_runtime d"
    using Save_cases [of "ct_env c" "ct_store c" False okM okS d n] unfolding controller_bound_def by (metis prod.collapse)
qed

lemma side_kept_finish:
  "controller_bound c \<Longrightarrow> side_kept (finishApplyingLockedWithOriginAuthority c io applying cfg target auth migrate)"
  unfolding finishApplyingLockedWithOriginAuthority_def failApplyingLocked_def Let_def
  by (intro side_kept_step_or side_kept_basic side_kept_journal side_kept_save)

text \<open>The user's own text in the Codex file, without this relay's markers and without carriage returns.\<close>

definition plain_user_text :: "codex_fs \<Rightarrow> string \<Rightarrow> owner \<Rightarrow> bool" where
  "plain_user_text fs path o1 \<longleftrightarrow>
     (\<forall>content t. readOptional fs path = Inr content \<longrightarrow> removeManagedForOwner content o1 = Inr t \<longrightarrow> marker_free o1 t \<and> carriage \<notin> set t) \<and>
     (\<forall>raw. snapshotOptional fs path = Inr (Some raw) \<longrightarrow> carriage \<notin> set raw)"

definition block_values :: "owner \<Rightarrow> relay_config \<Rightarrow> bool" where
  "block_values o1 cfg \<longleftrightarrow> block_value o1 (general_url cfg) \<and> block_value o1 (interactive_url cfg) \<and> block_value o1 (ct_Path (cf_Catalog cfg))"

lemma Disable_frame:
  assumes "DisableWithInteractiveProfileForOwner io fs path o1 = (fs', Inr ())" "q \<noteq> path" "q \<noteq> InteractiveProfilePathForOwner path o1"
  shows "fs' q = fs q"
  using assms(1)
proof (cases rule: Disable_prepared)
  case (ready i base profile fs1 r1)
  then have "fs1 q = fs q" using DisableForOwner_frame assms(2) by blast
  then show ?thesis using ready(5) assms(3) by (auto simp: remove_file_def split: sum.splits if_splits prod.splits)
qed simp

lemma applyConfig_matches:
  assumes run: "applyConfigWithLegacyIntent c io target cfg False fs = (fs', Inr ())"
    and user: "plain_user_text fs (ct_codexConfigPath c) (ct_codexOwner c)" "config_leaf (ct_codexConfigPath c)"
    and vals: "block_values (ct_codexOwner c) cfg" and native: "target = BackendNone \<Longrightarrow> preflightNative c fs = Inr ()"
  shows "routingArtifactsMatch fs' (ct_codexConfigPath c) (ct_codexOwner c) target cfg \<and>
    (\<forall>q. q \<noteq> ct_codexConfigPath c \<longrightarrow> q \<noteq> InteractiveProfilePathForOwner (ct_codexConfigPath c) (ct_codexOwner c) \<longrightarrow> fs' q = fs q)"
proof (cases "routingArtifactsMatch fs (ct_codexConfigPath c) (ct_codexOwner c) target cfg")
  case True
  then have "fs' = fs" using run by (simp add: applyConfigWithLegacyIntent_def)
  then show ?thesis using True by simp
next
  case changed: False
  let ?path = "ct_codexConfigPath c" and ?o = "ct_codexOwner c"
  show ?thesis
  proof (cases "target = BackendNone")
    case True
    then have dis: "DisableWithInteractiveProfileForOwner (sw_files io) fs ?path ?o = (fs', Inr ())"
      using run changed by (auto simp: applyConfigWithLegacyIntent_def Let_def map_prod_def split: prod.splits)
    obtain i where i: "InspectRoutingForOwner fs ?path ?o = Inr i" "\<not> foreign_or_unmanaged i"
      using native [OF True] by (auto simp: preflightNative_def split: sum.splits if_splits)
    obtain content t where r: "readOptional fs ?path = Inr content" "removeManagedForOwner content ?o = Inr t"
      using i(1) by (auto simp: Inspect_iff)
    obtain base where b: "snapshotOptional fs ?path = Inr base" using dis by (cases rule: Disable_prepared) auto
    have "ValidateNativeRoutingForOwner fs' ?path ?o = Inr ()"
      using Disable_native [OF dis i r _ b _ user(2)] user(1) r b by (auto simp: plain_user_text_def)
    then show ?thesis using True Disable_frame [OF dis] by (simp add: routingArtifactsMatch_def)
  next
    case False
    then have relay: "target = BackendExternal \<or> target = BackendLocalOpenCodex \<or> target = BackendLocalAppleContainer"
      and en: "EnableWithInteractiveProfileForOwner (sw_files io) fs ?path ?o (general_url cfg) (interactive_url cfg) (ct_Path (cf_Catalog cfg)) = (fs', Inr ())"
      using run changed by (auto simp: applyConfigWithLegacyIntent_def Let_def map_prod_def split: prod.splits if_splits)
    have "managed_valid fs' ?path ?o cfg = Inr () \<and> (\<forall>q. q \<noteq> ?path \<longrightarrow> q \<noteq> InteractiveProfilePathForOwner ?path ?o \<longrightarrow> fs' q = fs q)"
      unfolding managed_valid_def
      by (rule Enable_validates [OF en _ user(2)]) (use user(1) vals in \<open>auto simp: plain_user_text_def block_values_def\<close>)
    then show ?thesis using relay False by (auto simp: routingArtifactsMatch_def)
  qed
qed

lemma preflight_config:
  assumes "preflightBackendWithLegacyIntent c io fs target known = Inr (cfg, required)"
  obtains cfg0 where "ct_loadConfig c fs = Inr cfg0" "\<not> known \<Longrightarrow> \<not> required"
    "target = BackendNone \<Longrightarrow> preflightNative c fs = Inr () \<and> cfg = cfg0" "target = BackendExternal \<Longrightarrow> cfg = cfg0"
    "target = BackendLocalOpenCodex \<Longrightarrow>
      cf_UpstreamMode cfg0 = ''local_opencodex'' \<and> cfg = cfg0 \<or> LocalOpenCodexRuntimeConfig (ct_configEnv c) cfg0 = Inr cfg"
  using assms
  by (cases target; cases "PreflightEnableWithInteractiveProfileForOwner fs (ct_codexConfigPath c) (ct_codexOwner c)")
    (auto simp: preflightBackendWithLegacyIntent_def Let_def split: sum.splits if_splits)

lemma drift_passes:
  assumes "Phase s = PhaseNativeActive \<or> Phase s = PhaseRelayActive" "load fs = Inr cfg0" "OwnerForID (Scope cfg0) = Inr o1"
    and "AppliedBackend s = target" "routingArtifactsMatch fs (BoundCodexConfigPath s) o1 target cfg" "target \<noteq> BackendLocalAppleContainer"
    and "target = BackendNone \<Longrightarrow> cfg = cfg0" "target = BackendExternal \<Longrightarrow> cfg = cfg0"
    and "target = BackendLocalOpenCodex \<Longrightarrow> LocalOpenCodexRuntimeConfig env cfg0 = Inr cfg"
  shows "AppliedRoutingDriftCheck load env fs s"
  using assms by (cases target) (auto simp: AppliedRoutingDriftCheck_def routingArtifactsMatch_def)

lemma Apply_side_clear:
  assumes "Apply c io exited w = (trace, Inr ())" "controller_bound c"
  shows "loadMaintenance (ct_env c) (ct_store c) (wd_disk (final_world w trace)) = Inr None \<and>
    loadRuntimeRouting (ct_env c) (ct_store c) path (wd_disk (final_world w trace)) = Inr None"
proof -
  have go: "\<not> (trace = [] \<and> isl (Inr () :: (controller_error, unit) result))" by simp
  note e1 = early_return [OF assms(1) [unfolded Apply_def] go, THEN conjunct2]
  obtain s legacy where o: "open_transition c (sw_control io) w = Inr (s, legacy)"
    using e1 by (cases "open_transition c (sw_control io) w") auto
  note e2 = early_return [OF early_return [OF e1 [unfolded o sum.case prod.case] go, THEN conjunct2] go, THEN conjunct2]
  have "side_kept (applyLocked c io s)"
    unfolding side_kept_def
  proof (intro allI ballI)
    fix y x
    assume "x \<in> set (fst (applyLocked c io s y))"
    then obtain cfg required where "x \<in> set (fst (step_or (saveState c (cio_marker (sw_control io)) (cio_state (sw_control io)) (applying_state s required))
        fail_with (\<lambda>_. finishApplyingLockedWithOriginAuthority c io (applying_state s required) cfg (DesiredBackend s) True required) y))"
      unfolding applyLocked_def Let_def applying_state_def by (auto split: if_splits sum.splits prod.splits)
    moreover have "side_kept (step_or (saveState c (cio_marker (sw_control io)) (cio_state (sw_control io)) (applying_state s required))
        fail_with (\<lambda>_. finishApplyingLockedWithOriginAuthority c io (applying_state s required) cfg (DesiredBackend s) True required))"
      by (intro side_kept_step_or side_kept_save side_kept_basic side_kept_finish assms(2))
    ultimately show "dk_maintenance (wd_disk x) = dk_maintenance (wd_disk y) \<and> dk_runtime (wd_disk x) = dk_runtime (wd_disk y)"
      unfolding side_kept_def by blast
  qed
  from side_kept_final [OF this, of w] have k: "dk_maintenance (wd_disk (final_world w trace)) = dk_maintenance (wd_disk w)"
    "dk_runtime (wd_disk (final_world w trace)) = dk_runtime (wd_disk w)" by (simp_all add: e2)
  have "loadMaintenance (ct_env c) (ct_store c) (wd_disk w) = Inr None" "loadRuntimeRouting (ct_env c) (ct_store c) (ct_codexConfigPath c) (wd_disk w) = Inr None"
    using o by (auto simp: open_transition_def maintenancePendingOrInvalid_def split: if_splits sum.splits option.splits)
  then show ?thesis
    by (auto simp: loadMaintenance_def loadRuntimeRouting_def k split: sum.splits option.splits if_splits json_decode.splits)
qed

lemma Refresh_clear:
  assumes "Read env st d = Inr (s, False)" "dk_journal d = FileAbsent" "loadMaintenance env st d = Inr None"
    and "loadRuntimeRouting env st (BoundCodexConfigPath s) d = Inr None" "AppliedBackend s \<noteq> BackendLocalAppleContainer"
    and "g_driftCheck g = Some drift" "drift s" "g_recoveryGate g \<noteq> Some False"
  shows "Refresh env st g d = \<lparr>ws_State = s, ws_Legacy = False, ws_Invalid = False\<rparr>"
proof -
  have "HasPendingTransaction env st d = Inr False" using assms(2) by (simp add: HasPendingTransaction_def)
  then have "\<not> witness_error env st d s False" "\<not> gate_error env st g d s False"
    using assms by (auto simp: witness_error_def gate_error_def found_def stableStateForBackend_def split: option.splits)
  then show ?thesis by (simp add: Refresh_def assms(1))
qed


text \<open>A static local profile never passes the drift check. If \<open>relay.json\<close> itself selects
  \<open>local_opencodex\<close>, the topology that the preflight and the routing requests support, the runtime profile
  that \<open>AppliedRoutingDriftCheck\<close> asks for does not exist, so every durable state with the local backend
  applied parks the resident relay, although nothing has drifted.\<close>

theorem static_local_profile_parked:
  assumes "load fs = Inr cfg" "cf_UpstreamMode cfg = ''local_opencodex''" "Read env st d = Inr (s, False)"
    and "AppliedBackend s = BackendLocalOpenCodex" "Phase s \<noteq> PhaseApplying" "Phase s \<noteq> PhaseRecoveryRequired" "BoundCodexConfigPath s \<noteq> []"
    and "g_driftCheck g = Some (AppliedRoutingDriftCheck load cenv fs)"
  shows "\<not> snapshot_AllowsDataPlane (Refresh env st g d)"
proof -
  have "\<not> AppliedRoutingDriftCheck load cenv fs s"
    using assms(1,2,4-7) by (auto simp: AppliedRoutingDriftCheck_def LocalOpenCodexRuntimeConfig_def split: option.splits sum.splits)
  then have "gate_error env st g d s False" using assms(5,6,8) by (simp add: gate_error_def)
  then show ?thesis by (simp add: Refresh_def assms(3))
qed

section \<open>A switch that succeeds\<close>

definition ends :: "'a routine \<Rightarrow> world \<Rightarrow> 'a \<Rightarrow> world \<Rightarrow> bool" where
  "ends m w a w' \<longleftrightarrow> snd (m w) = Inr a \<and> final_world w (fst (m w)) = w'"

lemma ends_step_or:
  assumes "ends m w a w1" "ends (k a) w1 b w2"
  shows "ends (step_or m h k) w b w2"
  using assms by (cases "m w"; cases "k a w1") (auto simp: ends_def step_or_def final_append)

lemma ends_basic:
  "f w = Inr a \<Longrightarrow> ends (pure_step f) w a w" "ok \<Longrightarrow> ends (check_step ok e) w () w" "ends return_unit w () w"
  "g (wd_disk w) = (d, Inr ()) \<Longrightarrow> ends (disk_step g) w () (w\<lparr>wd_disk := d\<rparr>)"
  "q (wd_files w) = (fs, Inr ()) \<Longrightarrow> ends (files_step q) w () (w\<lparr>wd_files := fs\<rparr>)"
  by (simp_all add: ends_def pure_step_def check_step_def return_unit_def disk_step_def files_step_def)

lemma example_save_journal:
  assumes "phase_backends ph de ap" "g \<noteq> 0" "phase_backends ph' de' ap'" "g < g'" "g' \<noteq> 0"
    and "validateTransition (example_state ph de ap g) (example_state ph' de' ap' g') = Inr ()"
    and "wd_disk w = (wide_disk (example_state ph de ap g))\<lparr>dk_journal := j\<rparr>"
  shows "ends (saveState example_controller True True (example_state ph' de' ap' g')) w ()
    (w\<lparr>wd_disk := (wide_disk (example_state ph' de' ap' g'))\<lparr>dk_journal := j\<rparr>\<rparr>)"
proof -
  let ?s = "example_state ph de ap g" and ?n = "example_state ph' de' ap' g'"
  have same: "dk_state (wd_disk w) = dk_state (wide_disk ?s)" by (simp add: assms(7))
  have "Read wide_env example_store (wide_disk ?s) = Inr (?s, False)"
    using example_boundState [OF assms(1,2), of "example_world ?s"] boundState_read [OF example_controller_bound, of "example_world ?s" ?s]
    by (simp add: example_controller_def example_world_def)
  then have r: "Read wide_env example_store (wd_disk w) = Inr (?s, False)" by (rule Read_same_state_file [OF same])
  have "initializedMarkerPresent (dk_marker (wd_disk w)) = Inr True" using example_marker by (simp add: assms(7) wide_disk_def)
  moreover have "valid_state (re_wd wide_env) (st_configPath example_store) ?n" using example_valid [OF assms(3,5)] by (simp add: wide_env_def)
  moreover have "store_bound wide_env example_store"
    using example_controller_bound by (simp add: controller_bound_def example_controller_def)
  ultimately have "Save wide_env example_store False True True (wd_disk w) ?n =
      ((wd_disk w)\<lparr>dk_state := FileContents (re_encode_state wide_env ?n)\<rparr>, Inr ())"
    using Save_succeeds [OF _ _ r] assms(4,6) by (simp add: example_state_def)
  then show ?thesis
    by (simp add: ends_def saveState_def disk_step_def example_controller_def assms(7)) (simp add: wide_disk_def wide_env_def example_disk_def)
qed

definition example_endpoint :: "state \<Rightarrow> endpoint" where
  "example_endpoint s = (let on = AllowsDataPlane s in
     \<lparr>ep_Valid = True, ep_Generation = Generation s, ep_DesiredMode = DesiredMode s, ep_AppliedMode = AppliedMode s, ep_Phase = Phase s,
      ep_RelayAdmission = (if on then ''allow'' else ''deny''), ep_CatalogRefresh = (if on then ''run'' else ''pause''),
      ep_RoutingStateInvalid = False, ep_ActiveRequests = Some 0, ep_CatalogLifecycle = (if on then ''running'' else ''paused''),
      ep_RemoteGateway = ''ready'', ep_LocalOpenCodex = ''ready''\<rparr>)"

definition example_health :: "state \<Rightarrow> local_relay" where
  "example_health s = \<lparr>lr_General = example_endpoint s, lr_Interactive = example_endpoint s\<rparr>"

abbreviation pending4 :: state where "pending4 \<equiv> example_state PhaseRelayPendingRestart BackendExternal BackendNone 4"
abbreviation applying5 :: state where "applying5 \<equiv> example_state PhaseApplying BackendExternal BackendNone 5"
abbreviation active6 :: state where "active6 \<equiv> example_state PhaseRelayActive BackendExternal BackendExternal 6"

definition example_switch_io :: switch_io where
  "example_switch_io = \<lparr>sw_control = good_control_io, sw_credentials = True, sw_journal1 = True,
     sw_parked = [example_health pending4, example_health applying5], sw_catalog = True, sw_runtime = True, sw_files = good_io,
     sw_stamp = [], sw_backup = Inr (), sw_migrate = True, sw_restore = True, sw_journal2 = True, sw_final = (True, True),
     sw_remove = True, sw_finalized = [example_health active6], sw_recovery = (True, True)\<rparr>"

lemma example_config_urls:
  "general_url (applyDefaults example_config) = ''http://127.0.0.1:18180/v1''"
  "interactive_url (applyDefaults example_config) = ''http://127.0.0.1:18182/v1''"
  "ct_Path (cf_Catalog (applyDefaults example_config)) = ''/h/e.json''"
  by code_simp+

abbreviation example_cfg :: relay_config where "example_cfg \<equiv> applyDefaults example_config"

lemma example_preflight:
  "preflightBackendWithLegacyIntent example_controller example_switch_io (\<lambda>_. NoFile) BackendExternal False = Inr (example_cfg, False)"
  by code_simp

text \<open>A file small enough to be hashed.\<close>

fun small_file :: "codex_file \<Rightarrow> bool" where
  "small_file NoFile = True"
| "small_file (RegularFile _ (Some x)) = (length x < 1000)"
| "small_file _ = False"

lemma small_fingerprint: "small_file (fs p) \<Longrightarrow> \<exists>x. fingerprintOptional example_controller fs p = Inr x \<and> fingerprint_ok x"
proof -
  have "isLowerHex (replicate 64 (CHR ''0''))" by code_simp
  then show "small_file (fs p) \<Longrightarrow> \<exists>x. fingerprintOptional example_controller fs p = Inr x \<and> fingerprint_ok x"
    by (cases "fs p" rule: small_file.cases)
      (simp_all add: fingerprintOptional_def maxFingerprintBytes_def example_controller_def fingerprint_ok_def)
qed

lemma example_enables:
  obtains fs' where "applyConfigWithLegacyIntent example_controller example_switch_io BackendExternal example_cfg False (\<lambda>_. NoFile) = (fs', Inr ())"
    "small_file (fs' ''/r'')" "small_file (fs' ''/c'')" "small_file (fs' (InteractiveProfilePathForOwner ''/c'' ProductionOwner))"
proof -
  let ?run = "applyConfigWithLegacyIntent example_controller example_switch_io BackendExternal example_cfg False (\<lambda>_. NoFile)"
  have r: "snd ?run = Inr ()" by code_simp
  have 1: "small_file (fst ?run ''/r'')" by code_simp
  have 2: "small_file (fst ?run ''/c'')" by code_simp
  have 3: "small_file (fst ?run (InteractiveProfilePathForOwner ''/c'' ProductionOwner))" by code_simp
  show ?thesis by (rule that [OF _ 1 2 3]) (use r in \<open>metis prod.collapse\<close>)
qed

definition good_journal :: "transaction_journal \<Rightarrow> bool" where
  "good_journal j \<longleftrightarrow> transaction_validate j = Inr () \<and> tj_Schema j = SchemaVersion \<and> tj_Kind j = KindRoutingSwitch"

lemma example_journal:
  assumes "small_file (fs ''/r'')" "small_file (fs ''/c'')" "small_file (fs (InteractiveProfilePathForOwner ''/c'' ProductionOwner))"
  obtains j where "newJournal example_controller fs applying5 BackendExternal False = Inr j" "good_journal j"
proof -
  obtain a b p where f: "fingerprintOptional example_controller fs ''/r'' = Inr a" "fingerprintOptional example_controller fs ''/c'' = Inr b"
    "fingerprintOptional example_controller fs (InteractiveProfilePathForOwner ''/c'' ProductionOwner) = Inr p"
    and ok: "fingerprint_ok a" "fingerprint_ok b" "fingerprint_ok p"
    using small_fingerprint [of fs, OF assms(1)] small_fingerprint [of fs, OF assms(2)] small_fingerprint [of fs, OF assms(3)] by blast
  have none: "fingerprint_ok []" by (simp add: fingerprint_ok_def)
  have paths: "st_configPath (ct_store example_controller) = ''/r''" "ct_codexConfigPath example_controller = ''/c''"
    "ct_codexOwner example_controller = ProductionOwner" by (simp_all add: example_controller_def example_store_def)
  show ?thesis
    by (rule that, simp add: newJournal_def paths f)
      (simp add: good_journal_def transaction_validate_def example_state_def validBackend_def ok none)
qed

lemma good_update:
  assumes "good_journal j" "good_journal u"
  shows "good_journal (j\<lparr>tj_OriginAuthoritative := b\<rparr>)"
    "good_journal (j\<lparr>tj_OriginAuthoritative := b, tj_Stage := StageConfigMutated, tj_RelayConfigFingerprint := tj_RelayConfigFingerprint u,
       tj_CodexConfigFingerprint := tj_CodexConfigFingerprint u, tj_InteractiveFingerprint := tj_InteractiveFingerprint u\<rparr>)"
  using assms by (auto simp: good_journal_def transaction_validate_def split: if_splits)

lemma good_writes:
  assumes "good_journal j" "dk_journal (wd_disk w) \<noteq> FileRefused"
  shows "ends (disk_step (\<lambda>d. writeJournal wide_env True d j)) w () (w\<lparr>wd_disk := (wd_disk w)\<lparr>dk_journal := FileContents []\<rparr>\<rparr>)"
proof (rule ends_basic(4))
  have "normalizeTransactionJournal j = j" using assms(1) by (simp add: good_journal_def normalizeTransactionJournal_def schema_defs)
  then show "writeJournal wide_env True (wd_disk w) j = ((wd_disk w)\<lparr>dk_journal := FileContents []\<rparr>, Inr ())"
    using assms by (cases "dk_journal (wd_disk w)") (simp_all add: good_journal_def writeJournal_def wide_env_def example_env_def)
qed

lemma example_waits:
  "awaitParked (sw_parked example_switch_io) applying5 False = Inr ()"
  "awaitFinalized (sw_finalized example_switch_io) example_cfg active6 = Inr ()"
  by (simp_all add: example_switch_io_def example_health_def example_endpoint_def example_state_def healthAcknowledges_def
      AllowsDataPlane_def finalHealthAcknowledges_def healthAcknowledgesForStatus_def Let_def validRelayBackend_def)

lemma example_finish:
  assumes run: "applyConfigWithLegacyIntent example_controller example_switch_io BackendExternal example_cfg False (\<lambda>_. NoFile) = (fs', Inr ())"
    "small_file (fs' ''/r'')" "small_file (fs' ''/c'')" "small_file (fs' (InteractiveProfilePathForOwner ''/c'' ProductionOwner))"
  shows "ends (finishApplyingLockedWithOriginAuthority example_controller example_switch_io applying5 example_cfg BackendExternal True False)
    (example_world applying5) () \<lparr>wd_disk = wide_disk active6, wd_files = fs'\<rparr>"
proof -
  obtain j where j: "newJournal example_controller (\<lambda>_. NoFile) applying5 BackendExternal False = Inr j" "good_journal j"
    by (rule example_journal [of "\<lambda>_. NoFile"]) simp_all
  obtain u where u: "newJournal example_controller fs' applying5 BackendExternal False = Inr u" "good_journal u"
    by (rule example_journal [OF run(2-4)])
  have io: "sw_journal1 example_switch_io = True" "sw_journal2 example_switch_io = True" "sw_remove example_switch_io = True" "sw_final example_switch_io = (True, True)"
    "sw_catalog example_switch_io" "sw_runtime example_switch_io" by (simp_all add: example_switch_io_def)
  have env: "ct_env example_controller = wide_env" by (simp add: example_controller_def)
  have final: "applied_state applying5 BackendExternal = active6" by (simp add: applied_state_def example_state_def)
  have step: "validateTransition applying5 active6 = Inr ()" by (simp add: validateTransition_def example_state_def validRelayBackend_def)
  note goods = good_update [OF j(2) u(2)]
  show ?thesis
    unfolding finishApplyingLockedWithOriginAuthority_def Let_def env final io fst_conv snd_conv
    apply (rule ends_step_or, rule ends_basic(1), simp add: example_world_def, rule j(1))
    apply (rule ends_step_or, rule good_writes, rule goods(1), simp add: example_world_def wide_disk_def example_disk_def)
    apply (rule ends_step_or, rule ends_basic(1), simp add: example_waits)
    apply (rule ends_step_or, rule ends_basic(2), simp add: io)
    apply (rule ends_step_or, rule ends_basic(2), simp add: io)
    apply (rule ends_step_or, rule ends_basic(5), simp add: example_world_def, rule run(1))
    apply (rule ends_step_or, rule ends_basic(1), simp, rule u(1))
    apply (rule ends_step_or, rule good_writes, rule goods(2), simp)
    apply (rule ends_step_or, rule example_save_journal [where ph = PhaseApplying and de = BackendExternal and ap = BackendNone and g = 5 and j = "FileContents []"])
           apply (simp_all add: step example_world_def validRelayBackend_def validBackend_def)
    apply (rule ends_step_or, rule ends_basic(4), simp add: removeJournal_def)
    apply (rule ends_step_or, rule ends_basic(1), simp add: example_waits)
    apply (simp add: ends_def return_unit_def wide_disk_def example_disk_def)
    done
qed

lemma example_apply:
  obtains fs' where "ends (Apply example_controller example_switch_io True) (example_world pending4) () \<lparr>wd_disk = wide_disk active6, wd_files = fs'\<rparr>"
proof -
  obtain fs' where run: "applyConfigWithLegacyIntent example_controller example_switch_io BackendExternal example_cfg False (\<lambda>_. NoFile) = (fs', Inr ())"
    "small_file (fs' ''/r'')" "small_file (fs' ''/c'')" "small_file (fs' (InteractiveProfilePathForOwner ''/c'' ProductionOwner))"
    by (rule example_enables)
  have b: "boundState example_controller (example_world pending4) = Inr (pending4, False)"
    by (rule example_boundState) (simp_all add: validRelayBackend_def example_world_def)
  have o: "open_transition example_controller (sw_control example_switch_io) (example_world pending4) = Inr (pending4, False)"
    using example_open [OF b, of pending4] by (simp add: example_world_def example_switch_io_def)
  have apply5: "pending4\<lparr>Phase := PhaseApplying, KnownLegacy := False, Generation := Generation pending4 + 1\<rparr> = applying5"
    by (simp add: example_state_def)
  have io: "cio_marker (sw_control example_switch_io) = True" "cio_state (sw_control example_switch_io) = True"
    by (simp_all add: example_switch_io_def good_control_io_def)
  have s: "DesiredBackend pending4 = BackendExternal" "KnownLegacy pending4 = False" "Phase pending4 = PhaseRelayPendingRestart"
    "AppliedBackend pending4 = BackendNone" by (simp_all add: example_state_def)
  have w: "wd_files (example_world pending4) = (\<lambda>_. NoFile)" by (simp add: example_world_def)
  have step: "validateTransition pending4 applying5 = Inr ()" by (simp add: validateTransition_def example_state_def validRelayBackend_def)
  have "(example_world pending4)\<lparr>wd_disk := wide_disk applying5\<rparr> = example_world applying5" by (simp add: example_world_def)
  then have save: "ends (saveState example_controller True True applying5) (example_world pending4) () (example_world applying5)"
    using example_save [of PhaseRelayPendingRestart BackendExternal BackendNone 4 PhaseApplying BackendExternal BackendNone 5 "example_world pending4"] step
    by (simp add: ends_def example_world_def validRelayBackend_def validBackend_def)
  have "Apply example_controller example_switch_io True (example_world pending4) = applyLocked example_controller example_switch_io pending4 (example_world pending4)"
    unfolding Apply_def o sum.case prod.case s by simp
  moreover have "applyLocked example_controller example_switch_io pending4 (example_world pending4) =
      step_or (saveState example_controller True True applying5) fail_with
        (\<lambda>_. finishApplyingLockedWithOriginAuthority example_controller example_switch_io applying5 example_cfg BackendExternal True False) (example_world pending4)"
    unfolding applyLocked_def s w example_preflight sum.case prod.case Let_def apply5 [unfolded s] io by (simp add: validBackend_def)
  ultimately have "ends (Apply example_controller example_switch_io True) (example_world pending4) () \<lparr>wd_disk = wide_disk active6, wd_files = fs'\<rparr>"
    using ends_step_or [OF save example_finish [OF run], of fail_with] by (simp add: ends_def)
  then show ?thesis by (rule that)
qed

theorem Apply_crash_safe_witness:
  "\<exists>trace. Apply example_controller example_switch_io True (example_world pending4) = (trace, Inr ()) \<and>
     switch_completed example_controller example_switch_io pending4 (example_world pending4) (final_world (example_world pending4) trace)"
proof -
  obtain fs' where "ends (Apply example_controller example_switch_io True) (example_world pending4) () \<lparr>wd_disk = wide_disk active6, wd_files = fs'\<rparr>"
    by (rule example_apply)
  then obtain trace where run: "Apply example_controller example_switch_io True (example_world pending4) = (trace, Inr ())"
    by (metis ends_def prod.collapse)
  have "boundState example_controller (example_world pending4) = Inr (pending4, False)"
    by (rule example_boundState) (simp_all add: validRelayBackend_def example_world_def)
  from Apply_crash_safe [OF run example_controller_bound this] example_states_faithful [of pending4] run
  show ?thesis by (simp add: example_state_def)
qed

definition example_gates :: "codex_fs \<Rightarrow> gates" where
  "example_gates fs = \<lparr>g_driftCheck = Some (AppliedRoutingDriftCheck (ct_loadConfig example_controller) (ct_configEnv example_controller) fs),
     g_recoveryGate = Some True, g_stateRecoveryGate = None\<rparr>"


theorem static_local_profile_parked_witness:
  "let s = example_state PhaseRelayActive BackendLocalOpenCodex BackendLocalOpenCodex 4;
       load = (\<lambda>fs. Inr (example_cfg\<lparr>cf_UpstreamMode := ''local_opencodex''\<rparr>))
   in \<not> snapshot_AllowsDataPlane (Refresh wide_env example_store
        \<lparr>g_driftCheck = Some (AppliedRoutingDriftCheck load example_config_env (\<lambda>_. NoFile)), g_recoveryGate = None, g_stateRecoveryGate = None\<rparr>
        (wide_disk s))"
proof -
  let ?s = "example_state PhaseRelayActive BackendLocalOpenCodex BackendLocalOpenCodex 4"
  have "boundState example_controller (example_world ?s) = Inr (?s, False)"
    by (rule example_boundState) (simp_all add: validRelayBackend_def example_world_def)
  then have "Read wide_env example_store (wide_disk ?s) = Inr (?s, False)"
    using boundState_read [OF example_controller_bound, of "example_world ?s" ?s] by (simp add: example_controller_def example_world_def)
  then show ?thesis
    unfolding Let_def by (rule static_local_profile_parked [where cfg = "example_cfg\<lparr>cf_UpstreamMode := ''local_opencodex''\<rparr>", rotated 2]) (simp_all add: example_state_def)
qed

end
