(* ===== verification/Routing_Gateway.thy ===== *)
theory Routing_Gateway
  imports Routing_Apply
begin

text \<open>
  Package \<open>routing\<close>, file \<open>gateway.go\<close>, with the journal checks of \<open>controller.go\<close> that it shares with
  recovery: inspecting, testing and replacing the external gateway in \<open>relay.json\<close>, the reload of the
  running relay with its backup and journal, its rollback, and its recovery after a crash.

  \<open>relay.json\<close> and its backup are files of the world. Credentials are opaque values; what the keychain,
  the catalog request, the health of the relay and every write answer are fields of \<open>gateway_io\<close>. The
  preflight runs without the lock, so it sees two worlds, before and after its network request, and
  the operation itself a third.
\<close>

section \<open>Files\<close>

text \<open>\<open>owned\<close>: the file belongs to the effective user.\<close>

fun validateExistingControlFile :: "bool \<Rightarrow> codex_file \<Rightarrow> bool" where
  "validateExistingControlFile owned NoFile = True"
| "validateExistingControlFile owned NotRegular = False"
| "validateExistingControlFile owned (RegularFile mode0600 contents) = (mode0600 \<and> owned)"

definition gatewayBackupPath :: "string \<Rightarrow> string" where
  "gatewayBackupPath configPath = filepath_Clean configPath @ ''.gateway-backup.json''"

abbreviation relay_path :: "controller \<Rightarrow> string" where "relay_path c \<equiv> st_configPath (ct_store c)"
abbreviation backup_path :: "controller \<Rightarrow> string" where "backup_path c \<equiv> gatewayBackupPath (relay_path c)"

definition configDigest :: "controller \<Rightarrow> relay_config \<Rightarrow> string" where
  "configDigest c cfg = ct_sha256 c (ce_encode (ct_configEnv c) cfg @ [newline])"

text \<open>\<open>config.Write\<close> to \<open>relay.json\<close>; \<open>io\<close> says whether the rename and the directory sync succeed. \<open>Write\<close>
  gets no old contents, so \<open>None\<close> means that the file is left alone.\<close>

definition write_config :: "controller \<Rightarrow> bool \<times> bool \<Rightarrow> relay_config \<Rightarrow> codex_fs \<Rightarrow> codex_fs \<times> (controller_error, unit) result" where
  "write_config c io cfg fs =
     (case Write (ct_configEnv c) (fst io) (snd io) None cfg of
        (None, r) \<Rightarrow> (fs, map_sum ConfigErr id r)
      | (Some contents, r) \<Rightarrow> (fs(relay_path c := RegularFile True (Some contents)), map_sum ConfigErr id r))"

definition load_backup :: "controller \<Rightarrow> codex_fs \<Rightarrow> (config_error, relay_config) result" where
  "load_backup c fs = Load (ct_configEnv c) (case fs (backup_path c) of RegularFile _ contents \<Rightarrow> contents | _ \<Rightarrow> None)"

record backup_io =
  bo_owned :: bool
  bo_done :: bool
  bo_synced :: bool

definition createGatewayBackup :: "controller \<Rightarrow> backup_io \<Rightarrow> codex_fs \<Rightarrow> codex_fs \<times> (controller_error, unit) result" where
  "createGatewayBackup c io fs =
     (if \<not> validateExistingControlFile (bo_owned io) (fs (relay_path c)) then (fs, Inl (RoutingErr ErrStateCorrupt))
      else if fs (backup_path c) \<noteq> NoFile then (fs, Inl ErrRecovery)
      else if fs (relay_path c) = NoFile \<or> \<not> bo_done io then (fs, Inl (RoutingErr ErrControlFile))
      else (fs(backup_path c := fs (relay_path c)), if bo_synced io then Inr () else Inl (RoutingErr ErrControlFile)))"

definition removeGatewayBackup :: "controller \<Rightarrow> backup_io \<Rightarrow> codex_fs \<Rightarrow> codex_fs \<times> (controller_error, unit) result" where
  "removeGatewayBackup c io fs =
     (if \<not> validateExistingControlFile (bo_owned io) (fs (backup_path c)) then (fs, Inl (RoutingErr ErrStateCorrupt))
      else if fs (backup_path c) \<noteq> NoFile \<and> \<not> bo_done io then (fs, Inl (RoutingErr ErrControlFile))
      else (fs(backup_path c := NoFile), if bo_synced io then Inr () else Inl (RoutingErr ErrControlFile)))"

section \<open>Inspection and preflight\<close>

record gateway_candidate =
  ga_UpstreamBaseURL :: string
  ga_AuthenticationProfile :: string
  ga_AllowInsecurePrivateIP :: bool

record gateway_inspection =
  gn_UpstreamBaseURL :: string
  gn_ConfigDigest :: string
  gn_RoutingGeneration :: "64 word"
  gn_CredentialSource :: string
  gn_CredentialAccount :: string
  gn_CredentialsEditable :: bool
  gn_AuthenticationProfile :: string
  gn_RequiredCredentials :: "string list"
  gn_AllowInsecurePrivateIP :: bool

record gateway_receipt =
  gr_ConfigDigest :: string
  gr_RoutingGeneration :: "64 word"
  gr_RuntimeReloaded :: bool

record gateway_preflight =
  gp_current :: relay_config
  gp_candidate :: relay_config
  gp_configDigest :: string
  gp_state :: state
  gp_credentials :: string
  gp_count :: int

datatype catalog_error = ErrValidationAuthentication | ErrValidationUnreachable | ErrValidationCatalog | ErrValidationOther

record gateway_io =
  gi_control :: control_io
  gi_gate :: bool
  gi_owned :: "bool \<times> bool"
  gi_account :: "string \<Rightarrow> string option"
  gi_credentials :: "string option \<times> string option \<times> string option \<times> string option"
  gi_profileOK :: "string \<Rightarrow> string \<Rightarrow> bool"
  gi_catalog :: "catalog_error + int"
  gi_stale :: backup_io
  gi_backup :: backup_io
  gi_discard :: backup_io
  gi_journal1 :: bool
  gi_parked :: "local_relay list"
  gi_write :: "bool \<times> bool"
  gi_journal2 :: bool
  gi_runtime :: bool
  gi_final :: "bool \<times> bool"
  gi_finalized :: "local_relay list"
  gi_remove :: bool
  gi_cleanup :: backup_io
  gi_journal3 :: bool
  gi_park :: "bool \<times> bool"
  gi_restore :: "bool \<times> bool"
  gi_rollbackJournal :: bool
  gi_rollbackRuntime :: bool
  gi_rollbackFinal :: "bool \<times> bool"
  gi_rollbackRemove :: bool
  gi_rollbackFinalized :: "local_relay list"

fun classifyGatewayValidationError :: "catalog_error \<Rightarrow> gateway_error" where
  "classifyGatewayValidationError ErrValidationAuthentication = ErrGatewayAuthenticationFailed"
| "classifyGatewayValidationError ErrValidationUnreachable = ErrGatewayUnreachable"
| "classifyGatewayValidationError ErrValidationCatalog = ErrGatewayCatalogInvalid"
| "classifyGatewayValidationError ErrValidationOther = ErrGatewayCatalogInvalid"

definition codex_bound :: "controller \<Rightarrow> disk \<Rightarrow> state option" where
  "codex_bound c d =
     (case Read (ct_env c) (ct_store c) d of
        Inl _ \<Rightarrow> None
      | Inr (s, legacy) \<Rightarrow>
          if legacy \<or> ValidateForCodexConfig (re_wd (ct_env c)) s (relay_path c) (ct_codexConfigPath c) \<noteq> Inr () then None else Some s)"

definition GatewayInspect :: "controller \<Rightarrow> gateway_io \<Rightarrow> world \<Rightarrow> (controller_error, gateway_inspection) result" where
  "GatewayInspect c io w =
     (if gi_gate io \<or> maintenancePendingOrInvalid c (wd_disk w) then Inl ErrRecovery
      else if \<not> validateExistingControlFile (fst (gi_owned io)) (wd_files w (relay_path c)) then Inl (GatewayErr ErrGatewayUnsupported)
      else (case ct_loadConfig c (wd_files w) of
        Inl _ \<Rightarrow> Inl (GatewayErr ErrGatewayUnsupported)
      | Inr cfg \<Rightarrow> if cf_UpstreamMode cfg \<noteq> ''external_gateway'' then Inl (GatewayErr ErrGatewayUnsupported)
      else (case codex_bound c (wd_disk w) of
        None \<Rightarrow> Inl (GatewayErr ErrGatewayUnsupported)
      | Some s \<Rightarrow> if loadJournal (ct_env c) (wd_disk w) \<noteq> Inr None then Inl ErrRecovery
      else (case fingerprintOptional c (wd_files w) (relay_path c) of
        Inl _ \<Rightarrow> Inl (GatewayErr ErrGatewayUnsupported)
      | Inr digest \<Rightarrow> if digest = ''absent'' then Inl (GatewayErr ErrGatewayUnsupported)
      else let editable = (cc_Source (cf_Credentials cfg) = ''keychain'');
               profile = RemoteAuthenticationProfile (cf_Credentials cfg) in
        (case (if editable then gi_account io (cc_Account (cf_Credentials cfg)) else Some []) of
           None \<Rightarrow> Inl (GatewayErr ErrGatewayUnsupported)
         | Some account \<Rightarrow>
             (case RequiredCredentialKinds profile of
                Inl _ \<Rightarrow> Inl (GatewayErr ErrGatewayUnsupported)
              | Inr required \<Rightarrow> Inr
                  \<lparr>gn_UpstreamBaseURL = cf_UpstreamBaseURL cfg, gn_ConfigDigest = digest, gn_RoutingGeneration = Generation s,
                   gn_CredentialSource = cc_Source (cf_Credentials cfg), gn_CredentialAccount = account, gn_CredentialsEditable = editable,
                   gn_AuthenticationProfile = profile, gn_RequiredCredentials = required,
                   gn_AllowInsecurePrivateIP = cc_AllowInsecurePrivateIP (cf_Credentials cfg)\<rparr>))))))"

definition gateway_candidate_config :: "relay_config \<Rightarrow> string \<Rightarrow> gateway_candidate \<Rightarrow> relay_config" where
  "gateway_candidate_config current normalized request =
     current\<lparr>cf_UpstreamBaseURL := normalized,
       cf_Credentials := (cf_Credentials current)\<lparr>
         cc_AuthenticationProfile := (if ga_AuthenticationProfile request \<noteq> [] then ga_AuthenticationProfile request
                                      else cc_AuthenticationProfile (cf_Credentials current)),
         cc_AllowInsecurePrivateIP := ga_AllowInsecurePrivateIP request\<rparr>\<rparr>"

definition gatewayPreflight ::
  "controller \<Rightarrow> gateway_io \<Rightarrow> gateway_candidate \<Rightarrow> world \<Rightarrow> world \<Rightarrow> (controller_error, gateway_preflight) result" where
  "gatewayPreflight c io request w w' =
     (if gi_gate io \<or> maintenancePendingOrInvalid c (wd_disk w) then Inl ErrRecovery
      else if \<not> validateExistingControlFile (fst (gi_owned io)) (wd_files w (relay_path c)) then Inl (GatewayErr ErrGatewayUnsupported)
      else (case ct_loadConfig c (wd_files w) of
        Inl _ \<Rightarrow> Inl (GatewayErr ErrGatewayUnsupported)
      | Inr current \<Rightarrow> if cf_UpstreamMode current \<noteq> ''external_gateway'' then Inl (GatewayErr ErrGatewayUnsupported)
      else (case NormalizeExternalGatewayURL (ct_configEnv c) (ga_UpstreamBaseURL request) of
        Inl _ \<Rightarrow> Inl (GatewayErr ErrGatewayInvalidAddress)
      | Inr normalized \<Rightarrow>
      let candidate = gateway_candidate_config current normalized request;
          profile = RemoteAuthenticationProfile (cf_Credentials candidate) in
      if Validate (ct_configEnv c) candidate \<noteq> Inr () then Inl (GatewayErr ErrGatewayInvalidAddress)
      else (case codex_bound c (wd_disk w) of
        None \<Rightarrow> Inl (RoutingErr ErrGatewayRoutingChanged)
      | Some s \<Rightarrow>
      if Phase s = PhaseApplying \<or> Phase s = PhaseRecoveryRequired then Inl ErrRecovery
      else if Phase s \<noteq> PhaseRelayActive \<and> Phase s \<noteq> PhaseNativeActive then Inl (GatewayErr ErrGatewayTransitionPending)
      else if loadJournal (ct_env c) (wd_disk w) \<noteq> Inr None then Inl ErrRecovery
      else (case fingerprintOptional c (wd_files w) (relay_path c) of
        Inl _ \<Rightarrow> Inl (GatewayErr ErrGatewayUnsupported)
      | Inr digest \<Rightarrow> if digest = ''absent'' then Inl (GatewayErr ErrGatewayUnsupported)
      else (case fst (gi_credentials io) of
        None \<Rightarrow> Inl (GatewayErr ErrGatewayCredentialUnavailable)
      | Some values \<Rightarrow> if \<not> gi_profileOK io profile values then Inl (GatewayErr ErrGatewayCredentialUnavailable)
      else (case gi_catalog io of
        Inl e \<Rightarrow> Inl (GatewayErr (classifyGatewayValidationError e))
      | Inr count \<Rightarrow>
      if fingerprintOptional c (wd_files w') (relay_path c) \<noteq> Inr digest then Inl (RoutingErr ErrGatewayConfigChanged)
      else (case Read (ct_env c) (ct_store c) (wd_disk w') of
        Inl _ \<Rightarrow> Inl (RoutingErr ErrGatewayRoutingChanged)
      | Inr (s', legacy) \<Rightarrow>
      if legacy \<or> Generation s' \<noteq> Generation s \<or> Phase s' \<noteq> Phase s then Inl (RoutingErr ErrGatewayRoutingChanged)
      else if fst (snd (gi_credentials io)) \<noteq> Some values then Inl (GatewayErr ErrGatewayCredentialUnavailable)
      else Inr \<lparr>gp_current = current, gp_candidate = candidate, gp_configDigest = digest, gp_state = s,
                gp_credentials = values, gp_count = count\<rparr>))))))))"

definition GatewayTest ::
  "controller \<Rightarrow> gateway_io \<Rightarrow> gateway_candidate \<Rightarrow> world \<Rightarrow> world \<Rightarrow> (controller_error, string \<times> 64 word \<times> int) result" where
  "GatewayTest c io request w w' =
     map_sum id (\<lambda>p. (gp_configDigest p, Generation (gp_state p), gp_count p)) (gatewayPreflight c io request w w')"

section \<open>The reload\<close>

definition parkGatewayReloadLocked :: "controller \<Rightarrow> gateway_io \<Rightarrow> state \<Rightarrow> controller_error \<Rightarrow> 'a routine" where
  "parkGatewayReloadLocked c io s cause =
     step_or (saveState c (fst (gi_park io)) (snd (gi_park io)) (s\<lparr>Phase := PhaseRecoveryRequired, Generation := Generation s + 1\<rparr>))
       (\<lambda>_. fail_with cause) (\<lambda>_. fail_with cause)"

text \<open>A journal is written whatever comes of it.\<close>

definition journal_anyway :: "controller \<Rightarrow> bool \<Rightarrow> transaction_journal \<Rightarrow> 'a routine \<Rightarrow> 'a routine" where
  "journal_anyway c ok journal k = step_or (disk_step (\<lambda>d. writeJournal (ct_env c) ok d journal)) (\<lambda>_. k) (\<lambda>_. k)"

definition reloaded_state :: "state \<Rightarrow> state" where
  "reloaded_state applying = applying\<lparr>Phase := PhaseRelayActive, Generation := Generation applying + 1\<rparr>"

definition return_value :: "'a \<Rightarrow> 'a routine" where
  "return_value x w = ([], Inr x)"

definition or_digest :: "string \<Rightarrow> string \<Rightarrow> string" where
  "or_digest fingerprint digest = (if fingerprint = [] then digest else fingerprint)"

definition rollbackGatewayReloadLocked ::
  "controller \<Rightarrow> gateway_io \<Rightarrow> state \<Rightarrow> relay_config \<Rightarrow> transaction_journal option \<Rightarrow> controller_error \<Rightarrow> 'a routine" where
  "rollbackGatewayReloadLocked c io applying origin journal cause =
     (let originDigest = configDigest c origin; park = parkGatewayReloadLocked c io; final = reloaded_state applying in
      step_or (files_step (write_config c (gi_restore io) origin)) (\<lambda>_. park applying cause) (\<lambda>_.
      step_or (pure_step (\<lambda>w. case journal of
          Some j \<Rightarrow> Inr j
        | None \<Rightarrow> map_sum id (\<lambda>j. j\<lparr>tj_Kind := KindGatewayReload, tj_OriginRelayConfigFingerprint := originDigest,
            tj_TargetRelayConfigFingerprint := originDigest, tj_BackupConfigFingerprint := originDigest\<rparr>)
            (newJournal c (wd_files w) applying BackendExternal False))) (\<lambda>_. park applying cause) (\<lambda>j0.
      let j = j0\<lparr>tj_Stage := StagePrepared, tj_RelayConfigFingerprint := originDigest,
        tj_OriginRelayConfigFingerprint := or_digest (tj_OriginRelayConfigFingerprint j0) originDigest,
        tj_TargetRelayConfigFingerprint := or_digest (tj_TargetRelayConfigFingerprint j0) originDigest,
        tj_BackupConfigFingerprint := or_digest (tj_BackupConfigFingerprint j0) originDigest\<rparr> in
      step_or (disk_step (\<lambda>d. writeJournal (ct_env c) (gi_rollbackJournal io) d j)) (\<lambda>_. park applying cause) (\<lambda>_.
      step_or (check_step (ct_hasRuntimeControl c \<and> gi_rollbackRuntime io) cause) (\<lambda>_. park applying cause) (\<lambda>_.
      step_or (saveState c (fst (gi_rollbackFinal io)) (snd (gi_rollbackFinal io)) final) (\<lambda>_. park applying cause) (\<lambda>_.
      step_or (disk_step (removeJournal (gi_rollbackRemove io))) (\<lambda>_. park final cause) (\<lambda>_.
      step_or (pure_step (\<lambda>_. map_sum RoutingErr id (awaitFinalized (gi_rollbackFinalized io) origin final)))
        (\<lambda>_. journal_anyway c (gi_journal3 io) j (park final cause)) (\<lambda>_.
      step_or (files_step (removeGatewayBackup c (gi_cleanup io))) (\<lambda>_. journal_anyway c (gi_journal3 io) j (park final cause)) (\<lambda>_.
      fail_with cause)))))))))"

definition applyGatewayReloadLocked ::
  "controller \<Rightarrow> gateway_io \<Rightarrow> state \<Rightarrow> relay_config \<Rightarrow> relay_config \<Rightarrow> string \<Rightarrow> gateway_receipt routine" where
  "applyGatewayReloadLocked c io s current candidate expectedCredentials =
     (if \<not> ct_hasRuntimeControl c then fail_with (GatewayErr ErrGatewayRuntimeSwap)
      else let env = ct_env c; targetDigest = configDigest c candidate;
        applying = s\<lparr>Phase := PhaseApplying, Generation := Generation s + 1\<rparr>; final = reloaded_state applying;
        rollback = rollbackGatewayReloadLocked c io applying current; park = parkGatewayReloadLocked c io;
        swap = GatewayErr ErrGatewayRuntimeSwap; changed = RoutingErr ErrGatewayConfigChanged in
      step_or (pure_step (\<lambda>w. fingerprintOptional c (wd_files w) (relay_path c))) (\<lambda>_. fail_with changed) (\<lambda>originDigest.
      step_or (check_step (originDigest \<noteq> ''absent'') changed) fail_with (\<lambda>_.
      step_or (files_step (createGatewayBackup c (gi_backup io))) (\<lambda>_. fail_with ErrRecovery) (\<lambda>_.
      step_or (pure_step (\<lambda>w. fingerprintOptional c (wd_files w) (backup_path c))) (\<lambda>_. fail_with ErrRecovery) (\<lambda>backupDigest.
      step_or (check_step (backupDigest = originDigest) ErrRecovery) fail_with (\<lambda>_.
      step_or (saveState c (cio_marker (gi_control io)) (cio_state (gi_control io)) applying)
        (\<lambda>e. step_or (files_step (removeGatewayBackup c (gi_discard io))) (\<lambda>_. fail_with e) (\<lambda>_. fail_with e)) (\<lambda>_.
      step_or (pure_step (\<lambda>w. newJournal c (wd_files w) applying BackendExternal False)) (\<lambda>_. rollback None swap) (\<lambda>j.
      let journal = j\<lparr>tj_Kind := KindGatewayReload, tj_Stage := StagePrepared, tj_OriginRelayConfigFingerprint := originDigest,
        tj_TargetRelayConfigFingerprint := targetDigest, tj_BackupConfigFingerprint := backupDigest,
        tj_RelayConfigFingerprint := originDigest\<rparr> in
      step_or (disk_step (\<lambda>d. writeJournal env (gi_journal1 io) d journal)) (\<lambda>_. rollback (Some journal) swap) (\<lambda>_.
      step_or (pure_step (\<lambda>_. map_sum RoutingErr id (awaitParked (gi_parked io) applying False))) (\<lambda>_. rollback (Some journal) swap) (\<lambda>_.
      step_or (files_step (write_config c (gi_write io) candidate)) (\<lambda>_. rollback (Some journal) changed) (\<lambda>_.
      let mutated = journal\<lparr>tj_Stage := StageConfigMutated, tj_RelayConfigFingerprint := targetDigest\<rparr> in
      step_or (disk_step (\<lambda>d. writeJournal env (gi_journal2 io) d mutated)) (\<lambda>_. rollback (Some mutated) swap) (\<lambda>_.
      step_or (check_step (snd (snd (snd (gi_credentials io))) = Some expectedCredentials) swap)
        (\<lambda>_. rollback (Some mutated) (GatewayErr ErrGatewayCredentialUnavailable)) (\<lambda>_.
      step_or (check_step (gi_runtime io) swap) (\<lambda>_. rollback (Some mutated) swap) (\<lambda>_.
      step_or (saveState c (fst (gi_final io)) (snd (gi_final io)) final) (\<lambda>_. park applying swap) (\<lambda>_.
      step_or (pure_step (\<lambda>_. map_sum RoutingErr id (awaitFinalized (gi_finalized io) candidate final))) (\<lambda>_. park final swap) (\<lambda>_.
      step_or (pure_step (\<lambda>w. fingerprintOptional c (wd_files w) (relay_path c))) (\<lambda>_. park final changed) (\<lambda>digest.
      step_or (check_step (digest = targetDigest) changed) (\<lambda>_. park final changed) (\<lambda>_.
      step_or (disk_step (removeJournal (gi_remove io))) (\<lambda>_. park final swap) (\<lambda>_.
      step_or (files_step (removeGatewayBackup c (gi_cleanup io))) (\<lambda>_. journal_anyway c (gi_journal3 io) mutated (park final swap)) (\<lambda>_.
      return_value \<lparr>gr_ConfigDigest = digest, gr_RoutingGeneration = Generation final, gr_RuntimeReloaded = True\<rparr>))))))))))))))))))))"

text \<open>The branch of \<open>GatewayApply\<close> for a relay that does not use the external gateway at the moment.\<close>

definition applyGatewayInactive ::
  "controller \<Rightarrow> gateway_io \<Rightarrow> state \<Rightarrow> relay_config \<Rightarrow> relay_config \<Rightarrow> string \<Rightarrow> string \<Rightarrow> gateway_receipt routine" where
  "applyGatewayInactive c io s current candidate currentDigest expectedCredentials =
     (let changed = RoutingErr ErrGatewayConfigChanged; targetDigest = configDigest c candidate;
        digest_is = \<lambda>digest. pure_step (\<lambda>w. if fingerprintOptional c (wd_files w) (relay_path c) = Inr digest then Inr () else Inl changed) in
      step_or (files_step (write_config c (gi_write io) candidate)) (\<lambda>_. fail_with changed) (\<lambda>_.
      if snd (snd (snd (gi_credentials io))) \<noteq> Some expectedCredentials then
        step_or (digest_is targetDigest) fail_with (\<lambda>_.
        step_or (files_step (write_config c (gi_restore io) current)) (\<lambda>_. fail_with changed) (\<lambda>_.
        step_or (digest_is currentDigest) fail_with (\<lambda>_. fail_with (GatewayErr ErrGatewayCredentialUnavailable))))
      else step_or (digest_is targetDigest) fail_with (\<lambda>_.
        return_value \<lparr>gr_ConfigDigest = targetDigest, gr_RoutingGeneration = Generation s, gr_RuntimeReloaded = False\<rparr>)))"

definition GatewayApply ::
  "controller \<Rightarrow> gateway_io \<Rightarrow> world \<Rightarrow> world \<Rightarrow> gateway_candidate \<Rightarrow> string \<Rightarrow> 64 word \<Rightarrow> gateway_receipt routine" where
  "GatewayApply c io w0 w1 request expectedConfigDigest expectedRoutingGeneration w =
     (if expectedConfigDigest = [] \<or> expectedRoutingGeneration = 0 then ([], Inl (RoutingErr ErrGatewayConfigChanged))
      else (case gatewayPreflight c io request w0 w1 of
        Inl e \<Rightarrow> ([], Inl e)
      | Inr p \<Rightarrow>
      if gp_configDigest p \<noteq> expectedConfigDigest then ([], Inl (RoutingErr ErrGatewayConfigChanged))
      else if Generation (gp_state p) \<noteq> expectedRoutingGeneration then ([], Inl (RoutingErr ErrGatewayRoutingChanged))
      else (case open_transition c (gi_control io) w of
        Inl e \<Rightarrow> ([], Inl (if \<not> cio_lock (gi_control io) \<or> cio_recoveryGate (gi_control io) \<or> maintenancePendingOrInvalid c (wd_disk w) \<or>
            loadJournal (ct_env c) (wd_disk w) \<noteq> Inr None then e else RoutingErr ErrGatewayRoutingChanged))
      | Inr (s, legacy) \<Rightarrow>
      if legacy \<or> Generation s \<noteq> expectedRoutingGeneration then ([], Inl (RoutingErr ErrGatewayRoutingChanged))
      else if Phase s \<noteq> PhaseRelayActive \<and> Phase s \<noteq> PhaseNativeActive then ([], Inl (GatewayErr ErrGatewayTransitionPending))
      else step_or (files_step (removeGatewayBackup c (gi_stale io))) (\<lambda>_. fail_with ErrRecovery) (\<lambda>_.
      step_or (pure_step (\<lambda>w. if validateExistingControlFile (snd (gi_owned io)) (wd_files w (relay_path c)) then Inr ()
          else Inl (GatewayErr ErrGatewayUnsupported))) fail_with (\<lambda>_.
      step_or (pure_step (\<lambda>w. if fingerprintOptional c (wd_files w) (relay_path c) = Inr expectedConfigDigest then Inr ()
          else Inl (RoutingErr ErrGatewayConfigChanged))) fail_with (\<lambda>_.
      step_or (pure_step (\<lambda>w. map_sum (\<lambda>_. RoutingErr ErrGatewayConfigChanged) id (ct_loadConfig c (wd_files w)))) fail_with (\<lambda>current.
      step_or (check_step (configDigest c current = configDigest c (gp_current p)) (RoutingErr ErrGatewayConfigChanged)) fail_with (\<lambda>_.
      step_or (check_step (fst (snd (snd (gi_credentials io))) = Some (gp_credentials p)) (GatewayErr ErrGatewayCredentialUnavailable)) fail_with (\<lambda>_.
      if expectedConfigDigest = configDigest c (gp_candidate p) then
        return_value \<lparr>gr_ConfigDigest = expectedConfigDigest, gr_RoutingGeneration = Generation s, gr_RuntimeReloaded = False\<rparr>
      else if \<not> (Phase s = PhaseRelayActive \<and> AppliedBackend s = BackendExternal) then
        applyGatewayInactive c io s current (gp_candidate p) expectedConfigDigest (gp_credentials p)
      else applyGatewayReloadLocked c io s current (gp_candidate p) (gp_credentials p))))))) w)))"

section \<open>Journals and the files they describe\<close>

definition gatewayJournalObservedStage :: "controller \<Rightarrow> codex_fs \<Rightarrow> transaction_journal \<Rightarrow> (controller_error, transaction_stage) result" where
  "gatewayJournalObservedStage c fs j =
     (if tj_Kind j \<noteq> KindGatewayReload then Inl ErrRecovery
      else if fingerprintOptional c fs (backup_path c) \<noteq> Inr (tj_BackupConfigFingerprint j) then Inl ErrRecovery
      else (case fingerprintOptional c fs (relay_path c) of
              Inl _ \<Rightarrow> Inl ErrRecovery
            | Inr f \<Rightarrow>
                if f = tj_OriginRelayConfigFingerprint j then Inr StagePrepared
                else if f = tj_TargetRelayConfigFingerprint j then Inr StageConfigMutated
                else Inl ErrRecovery))"

definition journalMatchesCurrentFiles :: "controller \<Rightarrow> codex_fs \<Rightarrow> transaction_journal \<Rightarrow> bool" where
  "journalMatchesCurrentFiles c fs j \<longleftrightarrow>
     (if tj_Kind j = KindGatewayReload then \<not> isl (gatewayJournalObservedStage c fs j)
      else fingerprintOptional c fs (relay_path c) = Inr (tj_RelayConfigFingerprint j)) \<and>
     \<not> isl (fingerprintOptional c fs (relay_path c)) \<and>
     fingerprintOptional c fs (ct_codexConfigPath c) = Inr (tj_CodexConfigFingerprint j) \<and>
     fingerprintOptional c fs (InteractiveProfilePathForOwner (ct_codexConfigPath c) (ct_codexOwner c)) = Inr (tj_InteractiveFingerprint j)"

definition recoveryStateFromJournal :: "controller \<Rightarrow> transaction_journal \<Rightarrow> (controller_error, state) result" where
  "recoveryStateFromJournal c j =
     (case NewRecoveryState (re_wd (ct_env c)) (relay_path c) of
        Inl e \<Rightarrow> Inl (RoutingErr e)
      | Inr s0 \<Rightarrow> (case BindCodexConfig (re_wd (ct_env c)) s0 (ct_codexConfigPath c) of
        Inl e \<Rightarrow> Inl (RoutingErr e)
      | Inr s \<Rightarrow> Inr (s\<lparr>Generation := tj_Generation j + 1, DesiredMode := tj_Target j, AppliedMode := tj_Origin j,
          DesiredBackend := tj_TargetBackend j, AppliedBackend := tj_OriginBackend j, KnownLegacy := tj_KnownLegacy j\<rparr>)))"

section \<open>Recovery of a reload\<close>

datatype recovery_action = RecoveryComplete | RecoveryRollback | RecoveryOther string

record gateway_recovery_io =
  gv_replace1 :: "bool \<times> bool"
  gv_write :: "bool \<times> bool"
  gv_replace2 :: "bool \<times> bool"
  gv_journal :: bool
  gv_parked :: "local_relay list"
  gv_runtime :: bool
  gv_final :: "bool \<times> bool"
  gv_remove :: bool
  gv_finalized :: "local_relay list"
  gv_journal2 :: bool
  gv_cleanup :: backup_io
  gv_park :: "bool \<times> bool"

definition replaceState :: "controller \<Rightarrow> bool \<times> bool \<Rightarrow> state \<Rightarrow> unit routine" where
  "replaceState c io s = disk_step (\<lambda>d. Replace (ct_env c) (ct_store c) False (fst io) (snd io) d s)"

definition parkGatewayRecoveryLocked :: "controller \<Rightarrow> gateway_recovery_io \<Rightarrow> state \<Rightarrow> unit routine" where
  "parkGatewayRecoveryLocked c io s =
     step_or (saveState c (fst (gv_park io)) (snd (gv_park io)) (s\<lparr>Phase := PhaseRecoveryRequired, Generation := Generation s + 1\<rparr>))
       (\<lambda>_. fail_with ErrRecovery) (\<lambda>_. fail_with ErrRecovery)"

text \<open>The configuration that an action restores, the digest it must have, and the stage recorded for it.\<close>

definition gateway_selection ::
  "controller \<Rightarrow> codex_fs \<Rightarrow> transaction_journal \<Rightarrow> recovery_action \<Rightarrow> (controller_error, relay_config \<times> transaction_stage) result" where
  "gateway_selection c fs j action =
     (case gatewayJournalObservedStage c fs j of
        Inl _ \<Rightarrow> Inl ErrRecovery
      | Inr observed \<Rightarrow>
          (case (case action of
                   RecoveryComplete \<Rightarrow> if observed \<noteq> StageConfigMutated then Inl ConfigUnreadable else ct_loadConfig c fs
                 | RecoveryRollback \<Rightarrow> load_backup c fs
                 | RecoveryOther _ \<Rightarrow> Inl ConfigUnreadable) of
             Inl _ \<Rightarrow> Inl ErrRecovery
           | Inr selected \<Rightarrow>
               let expected = (case action of RecoveryComplete \<Rightarrow> tj_TargetRelayConfigFingerprint j | _ \<Rightarrow> tj_OriginRelayConfigFingerprint j) in
               if configDigest c selected \<noteq> expected then Inl ErrRecovery
               else Inr (selected, (case action of RecoveryComplete \<Rightarrow> StageConfigMutated | _ \<Rightarrow> StagePrepared))))"

definition recoverGatewayLocked ::
  "controller \<Rightarrow> gateway_recovery_io \<Rightarrow> (controller_error, state \<times> bool) result \<Rightarrow> transaction_journal \<Rightarrow> recovery_action \<Rightarrow> unit routine" where
  "recoverGatewayLocked c io bound j action =
     (if \<not> ct_hasRuntimeControl c then fail_with ErrRecovery
      else step_or (pure_step (\<lambda>w. gateway_selection c (wd_files w) j action)) (\<lambda>_. fail_with ErrRecovery) (\<lambda>(selected, stage).
      step_or
        (case bound of
           Inr (s, False) \<Rightarrow>
             if Phase s = PhaseRecoveryRequired then return_value s
             else step_or (pure_step (\<lambda>_. recoveryStateFromJournal c j)) fail_with (\<lambda>r.
               let r' = (if Generation s \<ge> Generation r then r\<lparr>Generation := Generation s + 1\<rparr> else r) in
               step_or (replaceState c (gv_replace1 io) r') fail_with (\<lambda>_. return_value r'))
         | _ \<Rightarrow> step_or (pure_step (\<lambda>_. recoveryStateFromJournal c j)) fail_with (\<lambda>r.
               step_or (replaceState c (gv_replace1 io) r) fail_with (\<lambda>_. return_value r)))
        (\<lambda>_. fail_with ErrRecovery) (\<lambda>recovery.
      step_or (files_step (write_config c (gv_write io) selected)) (\<lambda>_. fail_with ErrRecovery) (\<lambda>_.
      let applying = recovery\<lparr>DesiredMode := ModeRelay, AppliedMode := ModeRelay, DesiredBackend := BackendExternal,
            AppliedBackend := BackendExternal, Phase := PhaseApplying, Generation := Generation recovery + 1\<rparr>;
          park = parkGatewayRecoveryLocked c io; final = reloaded_state applying;
          journal = j\<lparr>tj_Generation := Generation applying, tj_Stage := stage, tj_RelayConfigFingerprint := configDigest c selected\<rparr>;
          again = step_or (disk_step (\<lambda>d. writeJournal (ct_env c) (gv_journal2 io) d journal)) (\<lambda>_. park final) (\<lambda>_. park final) in
      step_or (replaceState c (gv_replace2 io) applying) (\<lambda>_. fail_with ErrRecovery) (\<lambda>_.
      step_or (disk_step (\<lambda>d. writeJournal (ct_env c) (gv_journal io) d journal)) (\<lambda>_. park applying) (\<lambda>_.
      step_or (pure_step (\<lambda>_. map_sum RoutingErr id (awaitParked (gv_parked io) applying False))) (\<lambda>_. park applying) (\<lambda>_.
      step_or (check_step (gv_runtime io) ErrRecovery) (\<lambda>_. park applying) (\<lambda>_.
      step_or (saveState c (fst (gv_final io)) (snd (gv_final io)) final) (\<lambda>_. park applying) (\<lambda>_.
      step_or (disk_step (removeJournal (gv_remove io))) (\<lambda>_. park final) (\<lambda>_.
      step_or (pure_step (\<lambda>_. map_sum RoutingErr id (awaitFinalized (gv_finalized io) selected final))) (\<lambda>_. again) (\<lambda>_.
      step_or (files_step (removeGatewayBackup c (gv_cleanup io))) (\<lambda>_. again) (\<lambda>_. return_unit))))))))))))"

section \<open>Rules for the gateway's routines\<close>

lemma runs_value: "Q x w \<Longrightarrow> runs (return_value x) w C E Q"
  by (simp add: runs_def return_value_def)

lemma runs_park:
  assumes "controller_bound c" "states_faithful c s0" "BoundCodexConfigPath s = BoundCodexConfigPath s0" "reads c w s"
    and "\<And>x. reads c x s \<Longrightarrow> wd_files x = wd_files w \<Longrightarrow> dk_journal (wd_disk x) = dk_journal (wd_disk w) \<Longrightarrow> C x"
    and "\<And>x. parked c x \<Longrightarrow> wd_files x = wd_files w \<Longrightarrow> C x"
  shows "runs (step_or (saveState c okM okS (s\<lparr>Phase := PhaseRecoveryRequired, Generation := Generation s + 1\<rparr>)) (\<lambda>_. fail_with e) (\<lambda>_. fail_with e)) w
    C (\<lambda>_ _. True) Q"
proof (rule runs_step_or [where E' = "\<lambda>_ _. True" and Q' = "\<lambda>_ _. True"])
  have n: "normalizeStateBackends s = s" using valid_state_normalized Read_valid [OF assms(4)] by blast
  show "runs (saveState c okM okS (s\<lparr>Phase := PhaseRecoveryRequired, Generation := Generation s + 1\<rparr>)) w C (\<lambda>_ _. True) (\<lambda>_ _. True)"
  proof (rule runs_save [OF assms(1,2) _ assms(4)])
    fix x
    assume "reads c x (s\<lparr>Phase := PhaseRecoveryRequired, Generation := Generation s + 1\<rparr>)" "wd_files x = wd_files w"
    moreover have "parked c x" by (rule parked_by_state [OF calculation(1)]) (simp add: AllowsDataPlane_def)
    ultimately show "C x \<and> True" using assms(6) by blast
  qed (use assms(3,5) normalized_states [OF n] in simp_all)
qed (simp_all add: runs_fail)

text \<open>Bytes of \<open>relay.json\<close> that a gateway change can leave, and everything else as before.\<close>

definition config_file :: "controller \<Rightarrow> relay_config \<Rightarrow> codex_file" where
  "config_file c cfg = RegularFile True (Some (ce_encode (ct_configEnv c) (applyDefaults cfg) @ [newline]))"

definition gateway_files :: "controller \<Rightarrow> codex_file set \<Rightarrow> codex_fs \<Rightarrow> codex_fs \<Rightarrow> bool" where
  "gateway_files c versions fs0 fs \<longleftrightarrow> fs (relay_path c) \<in> versions \<and> (\<forall>q. q \<noteq> relay_path c \<longrightarrow> q \<noteq> backup_path c \<longrightarrow> fs q = fs0 q)"

lemma backup_path_differs: "controller_bound c \<Longrightarrow> backup_path c \<noteq> relay_path c"
proof -
  assume c: "controller_bound c"
  obtain a where "filepath_Abs (re_wd (ct_env c)) (relay_path c) = Some a" "filepath_Clean a = relay_path c"
    using c by (auto simp: controller_bound_def store_bound_def canonicalConfigPath_def split: if_splits option.splits)
  then have "filepath_Clean (relay_path c) = relay_path c" using Abs_clean c unfolding controller_bound_def by metis
  then show ?thesis by (simp add: gatewayBackupPath_def)
qed

lemma write_config_cases:
  assumes "write_config c io cfg fs = (fs', r)"
  shows "fs' = fs \<and> isl r \<or> fs' = fs(relay_path c := config_file c cfg)"
  using assms by (auto simp: write_config_def Write_def Let_def config_file_def split: sum.splits if_splits)

lemma gateway_files_write:
  assumes "gateway_files c V fs0 fs" "config_file c cfg \<in> V" "write_config c io cfg fs = (fs', r)"
  shows "gateway_files c V fs0 fs'"
  using write_config_cases [OF assms(3)] assms(1,2) by (auto simp: gateway_files_def)

lemma gateway_files_backup:
  assumes "gateway_files c V fs0 fs" "controller_bound c" "createGatewayBackup c io fs = (fs', r) \<or> removeGatewayBackup c io fs = (fs', r)"
  shows "gateway_files c V fs0 fs' \<and> fs' (relay_path c) = fs (relay_path c)"
  using assms(1,3) backup_path_differs [OF assms(2)]
  by (auto simp: gateway_files_def createGatewayBackup_def removeGatewayBackup_def split: if_splits)

lemma runs_gateway_files:
  assumes "\<And>fs r. f (wd_files w) = (fs, r) \<Longrightarrow> P (w\<lparr>wd_files := fs\<rparr>)" "\<And>x. P x \<Longrightarrow> C x"
    and "\<And>fs. f (wd_files w) = (fs, Inr ()) \<Longrightarrow> P (w\<lparr>wd_files := fs\<rparr>) \<Longrightarrow> Q () (w\<lparr>wd_files := fs\<rparr>)"
  shows "runs (files_step f) w C (\<lambda>_. P) Q"
  by (rule runs_files) (use assms in \<open>fastforce split: sum.splits\<close>)

section \<open>Every world of a gateway change\<close>

abbreviation reload_applying :: "state \<Rightarrow> state" where
  "reload_applying s \<equiv> s\<lparr>Phase := PhaseApplying, Generation := Generation s + 1\<rparr>"

definition gateway_world :: "controller \<Rightarrow> codex_file set \<Rightarrow> codex_fs \<Rightarrow> state \<Rightarrow> world \<Rightarrow> bool" where
  "gateway_world c V fs0 s x \<longleftrightarrow> gateway_files c V fs0 (wd_files x) \<and>
     (reads c x s \<or> reads c x (reloaded_state (reload_applying s)) \<or> parked c x)"

lemma gateway_parked: "gateway_files c V fs0 (wd_files x) \<Longrightarrow> parked c x \<Longrightarrow> gateway_world c V fs0 s x"
  by (simp add: gateway_world_def)

lemma gateway_applying: "gateway_files c V fs0 (wd_files x) \<Longrightarrow> reads c x (reload_applying s) \<Longrightarrow> gateway_world c V fs0 s x"
  by (rule gateway_parked) (auto intro: parked_by_state simp: AllowsDataPlane_def)

lemma gateway_read: "gateway_files c V fs0 (wd_files x) \<Longrightarrow> reads c x s \<or> reads c x (reloaded_state (reload_applying s)) \<Longrightarrow> gateway_world c V fs0 s x"
  by (auto simp: gateway_world_def)

lemma runs_gateway_park:
  assumes c: "controller_bound c" "states_faithful c s" and w: "gateway_files c V fs0 (wd_files w)"
    and n: "reads c w n" "n = s \<or> n = reload_applying s \<or> n = reloaded_state (reload_applying s)"
  shows "runs (parkGatewayReloadLocked c io n e) w (gateway_world c V fs0 s) (\<lambda>_ _. True) Q"
  unfolding parkGatewayReloadLocked_def
proof (rule runs_park [OF c _ n(1)])
  show "BoundCodexConfigPath n = BoundCodexConfigPath s" using n(2) by (auto simp: reloaded_state_def)
  fix x :: world
  assume "wd_files x = wd_files w"
  then have f: "gateway_files c V fs0 (wd_files x)" using w by simp
  show "gateway_world c V fs0 s x" if "reads c x n" using n(2) that gateway_read [OF f] gateway_applying [OF f] by auto
  show "gateway_world c V fs0 s x" if "parked c x" by (rule gateway_parked [OF f that])
qed

lemma runs_journal_anyway:
  assumes "reads c w n" "gateway_files c V fs0 (wd_files w)" "\<And>x. reads c x n \<Longrightarrow> gateway_files c V fs0 (wd_files x) \<Longrightarrow> gateway_world c V fs0 s x"
    and "\<And>x. reads c x n \<Longrightarrow> gateway_files c V fs0 (wd_files x) \<Longrightarrow> runs k x (gateway_world c V fs0 s) E Q"
  shows "runs (journal_anyway c ok j k) w (gateway_world c V fs0 s) E Q"
  unfolding journal_anyway_def
  by (rule runs_step_or [where E' = "\<lambda>_ x. reads c x n \<and> gateway_files c V fs0 (wd_files x)" and Q' = "\<lambda>_ x. reads c x n \<and> gateway_files c V fs0 (wd_files x)"],
      rule runs_writeJournal [OF assms(1)]) (use assms in auto)

lemma runs_gateway_save:
  assumes c: "controller_bound c" "states_faithful c s" and w: "gateway_files c V fs0 (wd_files w)" "reads c w m"
    and m: "m = s \<or> m = reload_applying s" and n: "n = reload_applying s \<or> n = reloaded_state (reload_applying s)"
  shows "runs (saveState c okM okS n) w (gateway_world c V fs0 s) (\<lambda>_ x. reads c x m \<and> gateway_files c V fs0 (wd_files x))
    (\<lambda>_ x. reads c x n \<and> gateway_files c V fs0 (wd_files x) \<and> dk_journal (wd_disk x) = dk_journal (wd_disk w))"
proof (rule runs_save [OF c _ w(2)])
  have "normalizeStateBackends m = m" using valid_state_normalized [OF Read_valid [OF w(2)]] .
  with m n show "normalizeStateBackends n = n"
    by (cases s) (auto simp: normalizeStateBackends_def reloaded_state_def Let_def split: if_splits)
  show "BoundCodexConfigPath n = BoundCodexConfigPath s" using n by (auto simp: reloaded_state_def)
qed (use w m n gateway_read gateway_applying in auto)

lemma rollback_runs:
  assumes c: "controller_bound c" "states_faithful c s" and w: "reads c w (reload_applying s)" "gateway_files c V fs0 (wd_files w)"
    and V: "config_file c origin \<in> V"
  shows "runs (rollbackGatewayReloadLocked c io (reload_applying s) origin journal cause) w (gateway_world c V fs0 s) (\<lambda>_ _. True) Q"
proof -
  let ?n = "reload_applying s" and ?final = "reloaded_state (reload_applying s)" and ?C = "gateway_world c V fs0 s"
  let ?B = "\<lambda>x. reads c x ?n \<and> gateway_files c V fs0 (wd_files x)"
  let ?J = "\<lambda>x. ?B x \<and> dk_journal (wd_disk x) \<noteq> FileAbsent"
  let ?F = "\<lambda>x. reads c x ?final \<and> gateway_files c V fs0 (wd_files x)"
  have park: "runs (parkGatewayReloadLocked c io ?n cause) x ?C (\<lambda>_ _. True) Q" if "?B x" for x
    using runs_gateway_park [OF c, of V fs0 x ?n] that by blast
  have park': "runs (parkGatewayReloadLocked c io ?final cause) x ?C (\<lambda>_ _. True) Q" if "?F x" for x
    using runs_gateway_park [OF c, of V fs0 x ?final] that by blast
  have again: "runs (journal_anyway c ok j (parkGatewayReloadLocked c io ?final cause)) x ?C (\<lambda>_ _. True) Q" if "?F x" for x j ok
    by (rule runs_journal_anyway [where n = ?final]) (use that park' gateway_read in auto)
  have inC: "?B x \<Longrightarrow> ?C x" "?F x \<Longrightarrow> ?C x" for x using gateway_applying gateway_read by blast+
  have wr: "?B (x\<lparr>wd_files := fs\<rparr>)" if "?B x" "write_config c i origin (wd_files x) = (fs, r)" for x fs r i
    using gateway_files_write [OF _ V that(2)] that(1) by simp
  have bk: "?F (x\<lparr>wd_files := fs\<rparr>)" if "?F x" "removeGatewayBackup c i (wd_files x) = (fs, r)" for x fs r i
    using gateway_files_backup [OF _ c(1) disjI2 [OF that(2)]] that(1) by simp
  show ?thesis
    unfolding rollbackGatewayReloadLocked_def Let_def
    apply (rule runs_step_or [where E' = "\<lambda>_. ?B" and Q' = "\<lambda>_. ?B"])
      apply (rule runs_gateway_files, erule wr [OF conjI [OF w]], erule inC, assumption)
     apply (erule park)
    apply (rule runs_step_or [where E' = "\<lambda>_. ?B" and Q' = "\<lambda>_. ?B"], rule runs_pure, simp split: sum.split, erule park)
    apply (rule runs_step_or [where E' = "\<lambda>_. ?B" and Q' = "\<lambda>_. ?J"])
      apply (rule runs_writeJournal [where s = ?n], blast, simp add: inC, simp add: inC)
     apply (erule park)
    apply (rule runs_step_or [where E' = "\<lambda>_. ?B" and Q' = "\<lambda>_. ?J"], rule runs_check, blast, blast, erule park)
    apply (rule runs_step_or [where E' = "\<lambda>_. ?B" and Q' = "\<lambda>_. ?F"])
      apply (rule runs_mono [OF runs_gateway_save [OF c, where m = ?n]], blast, blast, blast, blast, assumption, blast, blast)
     apply (erule park)
    apply (rule runs_step_or [where E' = "\<lambda>_. ?F" and Q' = "\<lambda>_. ?F"])
      apply (rule runs_removeJournal [where s = ?final], blast, simp add: inC, simp add: inC)
     apply (erule park')
    apply (rule runs_step_or [where E' = "\<lambda>_. ?F" and Q' = "\<lambda>_. ?F"], rule runs_pure, simp split: sum.split, erule again)
    apply (rule runs_step_or [where E' = "\<lambda>_. ?F" and Q' = "\<lambda>_. ?F"])
      apply (rule runs_gateway_files, erule (1) bk, erule inC, assumption)
     apply (erule again)
    apply (rule runs_fail, blast)
    done
qed

text \<open>What a receipt says about the world it is returned in.\<close>

definition receipt_holds :: "controller \<Rightarrow> relay_config \<Rightarrow> state \<Rightarrow> gateway_receipt \<Rightarrow> world \<Rightarrow> bool" where
  "receipt_holds c candidate s receipt x \<longleftrightarrow>
     gr_ConfigDigest receipt = configDigest c candidate \<and>
     fingerprintOptional c (wd_files x) (relay_path c) = Inr (gr_ConfigDigest receipt) \<and>
     (\<exists>s'. reads c x s' \<and> Generation s' = gr_RoutingGeneration receipt \<and> AppliedBackend s' = AppliedBackend s \<and>
       (Phase s' = PhaseRelayActive \<or> Phase s' = PhaseNativeActive)) \<and>
     dk_journal (wd_disk x) = FileAbsent"

lemma fingerprint_same: "fs p = fs' p \<Longrightarrow> fingerprintOptional c fs p = fingerprintOptional c fs' p"
  by (simp add: fingerprintOptional_def)

lemma reload_committed:
  assumes c: "controller_bound c" "states_faithful c s"
    and w: "reads c w (reloaded_state (reload_applying s))" "gateway_files c V fs0 (wd_files w)" "fingerprintOptional c (wd_files w) (relay_path c) = Inr digest"
  shows "runs (step_or (check_step (digest = configDigest c candidate) e1) (\<lambda>_. parkGatewayReloadLocked c io (reloaded_state (reload_applying s)) e1) (\<lambda>_.
      step_or (disk_step (removeJournal (gi_remove io))) (\<lambda>_. parkGatewayReloadLocked c io (reloaded_state (reload_applying s)) e2) (\<lambda>_.
      step_or (files_step (removeGatewayBackup c (gi_cleanup io)))
        (\<lambda>_. journal_anyway c (gi_journal3 io) j (parkGatewayReloadLocked c io (reloaded_state (reload_applying s)) e2)) (\<lambda>_.
      return_value \<lparr>gr_ConfigDigest = digest, gr_RoutingGeneration = Generation (reloaded_state (reload_applying s)), gr_RuntimeReloaded = True\<rparr>)))) w
    (gateway_world c V fs0 s) (\<lambda>_ _. True) (\<lambda>receipt x. receipt_holds c candidate s receipt x)"
proof -
  let ?final = "reloaded_state (reload_applying s)" and ?C = "gateway_world c V fs0 s"
  let ?Q = "\<lambda>receipt x. receipt_holds c candidate s receipt x"
  let ?F = "\<lambda>x. reads c x ?final \<and> gateway_files c V fs0 (wd_files x)"
  let ?D = "\<lambda>x. ?F x \<and> fingerprintOptional c (wd_files x) (relay_path c) = Inr digest \<and> digest = configDigest c candidate"
  let ?G = "\<lambda>x. ?D x \<and> dk_journal (wd_disk x) = FileAbsent"
  have park: "runs (parkGatewayReloadLocked c io ?final e) x ?C (\<lambda>_ _. True) ?Q" if "?F x" for x e
    using runs_gateway_park [OF c, of V fs0 x ?final] that by blast
  have again: "runs (journal_anyway c ok j (parkGatewayReloadLocked c io ?final e)) x ?C (\<lambda>_ _. True) ?Q" if "?F x" for x j ok e
    by (rule runs_journal_anyway [where n = ?final]) (use that park gateway_read in auto)
  have inC: "?F x \<Longrightarrow> ?C x" for x using gateway_read by blast
  have rm: "?G (x\<lparr>wd_files := fs\<rparr>)" if "?G x" "removeGatewayBackup c i (wd_files x) = (fs, r)" for x fs r i
  proof -
    have "gateway_files c V fs0 fs \<and> fs (relay_path c) = wd_files x (relay_path c)"
      using gateway_files_backup [OF _ c(1) disjI2 [OF that(2)]] that(1) by blast
    then show ?thesis using that(1) fingerprint_same [of fs "relay_path c" "wd_files x" c] by simp
  qed
  show ?thesis
    apply (rule runs_step_or [where E' = "\<lambda>_. ?F" and Q' = "\<lambda>_. ?D"], rule runs_check, use w in blast, use w in blast, erule park)
    apply (rule runs_step_or [where E' = "\<lambda>_. ?F" and Q' = "\<lambda>_. ?G"])
      apply (rule runs_removeJournal [where s = ?final], blast, simp add: inC, simp add: inC)
     apply (erule park)
    apply (rule runs_step_or [where E' = "\<lambda>_. ?F" and Q' = "\<lambda>_. ?G"])
      apply (rule runs_mono [OF runs_gateway_files [where P = ?G and C = ?C and Q = "\<lambda>_. ?G"]], erule (1) rm, use inC in blast, assumption, assumption, blast, assumption)
     apply (erule again)
    apply (rule runs_value)
    apply (auto simp: receipt_holds_def reloaded_state_def)
    done
qed

lemma reload_runs:
  assumes c: "controller_bound c" "states_faithful c s" and w: "reads c w s" "gateway_files c V fs0 (wd_files w)" 
    and V: "config_file c current \<in> V" "config_file c candidate \<in> V"
  shows "runs (applyGatewayReloadLocked c io s current candidate credentials) w (gateway_world c V fs0 s) (\<lambda>_ _. True)
    (\<lambda>receipt x. receipt_holds c candidate s receipt x)"
proof -
  let ?n = "reload_applying s" and ?final = "reloaded_state (reload_applying s)" and ?C = "gateway_world c V fs0 s"
  let ?Q = "\<lambda>receipt x. receipt_holds c candidate s receipt x"
  let ?A = "\<lambda>x. reads c x s \<and> gateway_files c V fs0 (wd_files x)"
  let ?B = "\<lambda>x. reads c x ?n \<and> gateway_files c V fs0 (wd_files x)"
  let ?F = "\<lambda>x. reads c x ?final \<and> gateway_files c V fs0 (wd_files x)"
  let ?D = "\<lambda>digest x. ?F x \<and> fingerprintOptional c (wd_files x) (relay_path c) = Inr digest"
  have park: "runs (parkGatewayReloadLocked c io n e) x ?C (\<lambda>_ _. True) ?Q" if "?B x \<and> n = ?n \<or> ?F x \<and> n = ?final" for x n e
    using runs_gateway_park [OF c, of V fs0 x n] that by blast
  have undo: "runs (rollbackGatewayReloadLocked c io ?n current j e) x ?C (\<lambda>_ _. True) ?Q" if "?B x" for x j e
    using rollback_runs [OF c _ _ V(1)] that by blast
  have inC: "?A x \<Longrightarrow> ?C x" "?B x \<Longrightarrow> ?C x" "?F x \<Longrightarrow> ?C x" for x using gateway_applying gateway_read by blast+
  have wr: "?B (x\<lparr>wd_files := fs\<rparr>)" if "?B x" "write_config c i candidate (wd_files x) = (fs, r)" for x fs r i
    using gateway_files_write [OF _ V(2) that(2)] that(1) by simp
  have mk: "?A (x\<lparr>wd_files := fs\<rparr>)" if "?A x" "createGatewayBackup c i (wd_files x) = (fs, r) \<or> removeGatewayBackup c i (wd_files x) = (fs, r)" for x fs r i
    using gateway_files_backup [OF _ c(1) that(2)] that(1) by simp
  show ?thesis
    unfolding applyGatewayReloadLocked_def Let_def
    apply (simp only: if_split [of "\<lambda>m. runs m _ _ _ _"], intro conjI impI, rule runs_fail, blast)
    apply (rule runs_step_or [where E' = "\<lambda>_. ?A" and Q' = "\<lambda>_. ?A"], rule runs_pure, simp add: w split: sum.split, rule runs_fail, blast)
    apply (rule runs_step_or [where E' = "\<lambda>_. ?A" and Q' = "\<lambda>_. ?A"], rule runs_check, blast, blast, rule runs_fail, blast)
    apply (rule runs_step_or [where E' = "\<lambda>_. ?A" and Q' = "\<lambda>_. ?A"])
      apply (rule runs_gateway_files, erule mk [OF _ disjI1], assumption, erule inC, assumption)
     apply (rule runs_fail, blast)
    apply (rule runs_step_or [where E' = "\<lambda>_. ?A" and Q' = "\<lambda>_. ?A"], rule runs_pure, simp split: sum.split, rule runs_fail, blast)
    apply (rule runs_step_or [where E' = "\<lambda>_. ?A" and Q' = "\<lambda>_. ?A"], rule runs_check, blast, blast, rule runs_fail, blast)
    apply (rule runs_step_or [where E' = "\<lambda>_. ?A" and Q' = "\<lambda>_. ?B"])
      apply (rule runs_mono [OF runs_gateway_save [OF c, where m = s]], blast, blast, blast, blast, assumption, blast, blast)
     apply (rule runs_step_or [where E' = "\<lambda>_ _. True" and Q' = "\<lambda>_ _. True"])
       apply (rule runs_mono [OF runs_gateway_files [where P = ?A and C = ?C and Q = "\<lambda>_ _. True"]], erule mk [OF _ disjI2], assumption, erule inC, blast, assumption, blast, blast)
      apply (rule runs_fail, blast)+
    apply (rule runs_step_or [where E' = "\<lambda>_. ?B" and Q' = "\<lambda>_. ?B"], rule runs_pure, simp split: sum.split, erule undo)
    apply (rule runs_step_or [where E' = "\<lambda>_. ?B" and Q' = "\<lambda>_. ?B"])
      apply (rule runs_writeJournal [where s = ?n], blast, simp add: inC, simp add: inC)
     apply (erule undo)
    apply (rule runs_step_or [where E' = "\<lambda>_. ?B" and Q' = "\<lambda>_. ?B"], rule runs_pure, simp split: sum.split, erule undo)
    apply (rule runs_step_or [where E' = "\<lambda>_. ?B" and Q' = "\<lambda>_. ?B"])
      apply (rule runs_gateway_files, erule (1) wr, erule inC, assumption)
     apply (erule undo)
    apply (rule runs_step_or [where E' = "\<lambda>_. ?B" and Q' = "\<lambda>_. ?B"])
      apply (rule runs_writeJournal [where s = ?n], blast, simp add: inC, simp add: inC)
     apply (erule undo)
    apply (rule runs_step_or [where E' = "\<lambda>_. ?B" and Q' = "\<lambda>_. ?B"], rule runs_check, blast, blast, erule undo)
    apply (rule runs_step_or [where E' = "\<lambda>_. ?B" and Q' = "\<lambda>_. ?B"], rule runs_check, blast, blast, erule undo)
    apply (rule runs_step_or [where E' = "\<lambda>_. ?B" and Q' = "\<lambda>_. ?F"])
      apply (rule runs_mono [OF runs_gateway_save [OF c, where m = ?n]], blast, blast, blast, blast, assumption, blast, blast)
     apply (rule park, blast)
    apply (rule runs_step_or [where E' = "\<lambda>_. ?F" and Q' = "\<lambda>_. ?F"], rule runs_pure, simp split: sum.split, rule park, blast)
    apply (rule runs_step_or [where E' = "\<lambda>_. ?F" and Q' = "\<lambda>digest. ?D digest"], rule runs_pure, simp split: sum.split, rule park, blast)
    apply (rule reload_committed [OF c], blast, blast, blast)
    done
qed

lemma inactive_runs:
  assumes c: "controller_bound c" and w: "reads c w s" "gateway_files c V fs0 (wd_files w)" "dk_journal (wd_disk w) = FileAbsent"
    and s: "Phase s = PhaseRelayActive \<or> Phase s = PhaseNativeActive"
    and V: "config_file c current \<in> V" "config_file c candidate \<in> V"
  shows "runs (applyGatewayInactive c io s current candidate digest credentials) w (gateway_world c V fs0 s) (\<lambda>_ _. True)
    (\<lambda>receipt x. receipt_holds c candidate s receipt x)"
proof -
  let ?C = "gateway_world c V fs0 s" and ?Q = "\<lambda>receipt x. receipt_holds c candidate s receipt x"
  let ?A = "\<lambda>x. reads c x s \<and> gateway_files c V fs0 (wd_files x) \<and> dk_journal (wd_disk x) = FileAbsent"
  let ?D = "\<lambda>x. ?A x \<and> fingerprintOptional c (wd_files x) (relay_path c) = Inr (configDigest c candidate)"
  have inC: "?A x \<Longrightarrow> ?C x" for x using gateway_read by blast
  have wr: "?A (x\<lparr>wd_files := fs\<rparr>)" if "?A x" "write_config c i cfg (wd_files x) = (fs, r)" "cfg = current \<or> cfg = candidate" for x fs r i cfg
    using gateway_files_write [OF _ _ that(2), of V fs0] that(1,3) V by auto
  show ?thesis
    unfolding applyGatewayInactive_def Let_def
    apply (rule runs_step_or [where E' = "\<lambda>_. ?A" and Q' = "\<lambda>_. ?A"])
      apply (rule runs_gateway_files, rule wr, use w in blast, assumption, blast, erule inC, assumption)
     apply (rule runs_fail, blast)
    apply (simp only: if_split [of "\<lambda>m. runs m _ _ _ _"], intro conjI impI)
     apply (rule runs_step_or [where E' = "\<lambda>_. ?A" and Q' = "\<lambda>_. ?A"], rule runs_pure, simp, rule runs_fail, blast)
     apply (rule runs_step_or [where E' = "\<lambda>_. ?A" and Q' = "\<lambda>_. ?A"])
       apply (rule runs_gateway_files, rule wr, blast, assumption, blast, erule inC, assumption)
      apply (rule runs_fail, blast)
     apply (rule runs_step_or [where E' = "\<lambda>_. ?A" and Q' = "\<lambda>_. ?A"], rule runs_pure, simp, rule runs_fail, blast)
     apply (rule runs_fail, blast)
    apply (rule runs_step_or [where E' = "\<lambda>_. ?A" and Q' = "\<lambda>_. ?D"], rule runs_pure, simp, rule runs_fail, blast)
    apply (rule runs_value)
    using s apply (auto simp: receipt_holds_def)
    done
qed

lemma open_transition_bound:
  assumes "open_transition c io w = Inr (s, legacy)"
  shows "boundState c w = Inr (s, legacy)" "dk_journal (wd_disk w) = FileAbsent"
  using assms by (auto simp: open_transition_def loadJournal_def Let_def split: if_splits sum.splits option.splits json_decode.splits elim!: readStateFile.elims)

text \<open>The part of \<open>GatewayApply\<close> under the lock.\<close>

definition gateway_locked ::
  "controller \<Rightarrow> gateway_io \<Rightarrow> gateway_preflight \<Rightarrow> string \<Rightarrow> state \<Rightarrow> gateway_receipt routine" where
  "gateway_locked c io p digest s =
     step_or (files_step (removeGatewayBackup c (gi_stale io))) (\<lambda>_. fail_with ErrRecovery) (\<lambda>_.
      step_or (pure_step (\<lambda>w. if validateExistingControlFile (snd (gi_owned io)) (wd_files w (relay_path c)) then Inr ()
          else Inl (GatewayErr ErrGatewayUnsupported))) fail_with (\<lambda>_.
      step_or (pure_step (\<lambda>w. if fingerprintOptional c (wd_files w) (relay_path c) = Inr digest then Inr ()
          else Inl (RoutingErr ErrGatewayConfigChanged))) fail_with (\<lambda>_.
      step_or (pure_step (\<lambda>w. map_sum (\<lambda>_. RoutingErr ErrGatewayConfigChanged) id (ct_loadConfig c (wd_files w)))) fail_with (\<lambda>current.
      step_or (check_step (configDigest c current = configDigest c (gp_current p)) (RoutingErr ErrGatewayConfigChanged)) fail_with (\<lambda>_.
      step_or (check_step (fst (snd (snd (gi_credentials io))) = Some (gp_credentials p)) (GatewayErr ErrGatewayCredentialUnavailable)) fail_with (\<lambda>_.
      if digest = configDigest c (gp_candidate p) then
        return_value \<lparr>gr_ConfigDigest = digest, gr_RoutingGeneration = Generation s, gr_RuntimeReloaded = False\<rparr>
      else if \<not> (Phase s = PhaseRelayActive \<and> AppliedBackend s = BackendExternal) then
        applyGatewayInactive c io s current (gp_candidate p) digest (gp_credentials p)
      else applyGatewayReloadLocked c io s current (gp_candidate p) (gp_credentials p)))))))"

lemma GatewayApply_cases:
  assumes "GatewayApply c io w0 w1 request digest gen w = (trace, r)" "boundState c w = Inr (s, legacy)"
  obtains (refused) "trace = []" "isl r"
  | (locked) p where "gatewayPreflight c io request w0 w1 = Inr p" "\<not> legacy" "dk_journal (wd_disk w) = FileAbsent" "Generation s = gen"
      "Phase s = PhaseRelayActive \<or> Phase s = PhaseNativeActive" "gateway_locked c io p digest s w = (trace, r)"
proof (cases "trace = [] \<and> isl r")
  case False
  note e1 = early_return [OF assms(1) [unfolded GatewayApply_def] False, THEN conjunct2]
  obtain p where p: "gatewayPreflight c io request w0 w1 = Inr p"
    using e1 False by (cases "gatewayPreflight c io request w0 w1") auto
  note e2 = early_return [OF e1 [unfolded p sum.case] False, THEN conjunct2]
  note e3 = early_return [OF e2 False, THEN conjunct2]
  obtain s' legacy' where o: "open_transition c (gi_control io) w = Inr (s', legacy')"
    using e3 False by (cases "open_transition c (gi_control io) w") auto
  have same: "s' = s" "legacy' = legacy" using open_transition_bound(1) [OF o] assms(2) by simp_all
  note e4 = early_return [OF e3 [unfolded o same sum.case prod.case] False]
  note e5 = early_return [OF e4 [THEN conjunct2] False]
  show ?thesis
    by (rule locked [OF p _ open_transition_bound(2) [OF o]]) (use e4 e5 in \<open>auto simp: gateway_locked_def\<close>)
qed (use refused in blast)

lemma locked_runs:
  assumes c: "controller_bound c" "states_faithful c s" and w: "reads c w s" "dk_journal (wd_disk w) = FileAbsent"
    and s: "Phase s = PhaseRelayActive \<or> Phase s = PhaseNativeActive"
    and V: "\<And>current. ct_loadConfig c (wd_files w) = Inr current \<Longrightarrow> config_file c current \<in> V"
      "config_file c (gp_candidate p) \<in> V" "wd_files w (relay_path c) \<in> V"
    and load: "\<And>fs. (\<forall>q. q \<noteq> backup_path c \<longrightarrow> fs q = wd_files w q) \<Longrightarrow> ct_loadConfig c fs = ct_loadConfig c (wd_files w)"
  shows "runs (gateway_locked c io p digest s) w (gateway_world c V (wd_files w) s) (\<lambda>_ _. True)
    (\<lambda>receipt x. receipt_holds c (gp_candidate p) s receipt x)"
proof -
  let ?fs = "wd_files w" and ?C = "gateway_world c V (wd_files w) s" and ?Q = "\<lambda>receipt x. receipt_holds c (gp_candidate p) s receipt x"
  let ?A = "\<lambda>x. reads c x s \<and> gateway_files c V ?fs (wd_files x) \<and> dk_journal (wd_disk x) = FileAbsent \<and>
    ct_loadConfig c (wd_files x) = ct_loadConfig c ?fs"
  let ?D = "\<lambda>x. ?A x \<and> fingerprintOptional c (wd_files x) (relay_path c) = Inr digest"
  have inC: "?A x \<Longrightarrow> ?C x" for x using gateway_read by blast
  have w0: "gateway_files c V ?fs ?fs" using V(3) by (simp add: gateway_files_def)
  have rm: "?A (w\<lparr>wd_files := fs\<rparr>)" if "removeGatewayBackup c i ?fs = (fs, r)" for fs r i
  proof -
    have "\<forall>q. q \<noteq> backup_path c \<longrightarrow> fs q = ?fs q" using that by (auto simp: removeGatewayBackup_def split: if_splits)
    then show ?thesis using gateway_files_backup [OF w0 c(1) disjI2 [OF that]] w load [of fs] by simp
  qed
  have branch: "runs (if digest = configDigest c (gp_candidate p) then
        return_value \<lparr>gr_ConfigDigest = digest, gr_RoutingGeneration = Generation s, gr_RuntimeReloaded = False\<rparr>
      else if \<not> (Phase s = PhaseRelayActive \<and> AppliedBackend s = BackendExternal) then
        applyGatewayInactive c io s current (gp_candidate p) digest (gp_credentials p)
      else applyGatewayReloadLocked c io s current (gp_candidate p) (gp_credentials p)) x ?C (\<lambda>_ _. True) ?Q"
    if x: "?D x" and cur: "ct_loadConfig c ?fs = Inr current" for x current
    using reload_runs [OF c _ _ V(1) [OF cur] V(2)] inactive_runs [OF c(1) _ _ _ s V(1) [OF cur] V(2)] x s
    by (auto intro!: runs_value simp: receipt_holds_def)
  show ?thesis
    unfolding gateway_locked_def
    apply (rule runs_step_or [where E' = "\<lambda>_. ?A" and Q' = "\<lambda>_. ?A"])
      apply (rule runs_gateway_files, erule rm, erule inC, assumption)
     apply (rule runs_fail, blast)
    apply (rule runs_step_or [where E' = "\<lambda>_. ?A" and Q' = "\<lambda>_. ?A"], rule runs_pure, simp, rule runs_fail, blast)
    apply (rule runs_step_or [where E' = "\<lambda>_. ?A" and Q' = "\<lambda>_. ?D"], rule runs_pure, simp, rule runs_fail, blast)
    apply (rule runs_step_or [where E' = "\<lambda>_. ?D" and Q' = "\<lambda>current x. ?D x \<and> ct_loadConfig c ?fs = Inr current"])
      apply (rule runs_pure, simp split: sum.split)
     apply (rule runs_fail, blast)
    apply (rule runs_step_or [where E' = "\<lambda>_. ?D" and Q' = "\<lambda>_. ?D"], rule runs_check, blast, blast, rule runs_fail, blast)
    apply (rule runs_step_or [where E' = "\<lambda>_. ?D" and Q' = "\<lambda>_. ?D"], rule runs_check, blast, blast, rule runs_fail, blast)
    apply (rule branch, blast, blast)
    done
qed


section \<open>A reload is never acknowledged\<close>

definition never :: "'a routine \<Rightarrow> bool" where
  "never m \<longleftrightarrow> (\<forall>w. isl (snd (m w)))"

lemma never_fail [simp]: "never (fail_with e)"
  by (simp add: never_def fail_with_def)

lemma never_step:
  assumes "\<And>e. never (h e)" "never m \<or> (\<forall>a. never (k a))"
  shows "never (step_or m h k)"
  unfolding never_def
proof
  fix w
  obtain t r where m: "m w = (t, r)" by fastforce
  show "isl (snd (step_or m h k w))"
  proof (cases r)
    case (Inl e)
    then show ?thesis using assms(1) [of e] by (simp add: never_def step_or_def m split: prod.split) (metis snd_conv)
  next
    case (Inr a)
    then have "\<not> never m" using m unfolding never_def by (metis snd_conv sum.disc(2))
    then have "never (k a)" using assms(2) by blast
    then show ?thesis using Inr by (simp add: never_def step_or_def m split: prod.split) (metis snd_conv)
  qed
qed

lemma never_then: "(\<And>e. never (h e)) \<Longrightarrow> (\<And>a. never (k a)) \<Longrightarrow> never (step_or m h k)"
  by (rule never_step) auto

lemma never_gateway [simp]:
  "never (parkGatewayReloadLocked c io s e)" "never (journal_anyway c ok j (parkGatewayReloadLocked c io s e))"
  "never (rollbackGatewayReloadLocked c io s origin journal e)"
  by (auto simp: parkGatewayReloadLocked_def journal_anyway_def rollbackGatewayReloadLocked_def Let_def intro!: never_then)

text \<open>What the health endpoint of the proxy shows of the watcher's snapshot.\<close>

definition reports :: "endpoint \<Rightarrow> watch_snapshot \<Rightarrow> bool" where
  "reports e snap \<longleftrightarrow> ep_Generation e = Generation (ws_State snap) \<and> ep_Phase e = Phase (ws_State snap) \<and>
     ep_RoutingStateInvalid e = ws_Invalid snap"

lemma not_final_health:
  assumes "reports e (Refresh env st g d)" "Phase s = PhaseRelayActive"
    and "dk_journal d \<noteq> FileAbsent \<or> (\<forall>s' l. Read env st d = Inr (s', l) \<longrightarrow> Generation s' \<noteq> Generation s)"
  shows "\<not> finalHealthAcknowledges e s b"
proof
  assume "finalHealthAcknowledges e s b"
  then have e: "\<not> ep_RoutingStateInvalid e" "ep_Generation e = Generation s" "ep_Phase e = PhaseRelayActive"
    using assms(2) by (auto simp: finalHealthAcknowledges_def healthAcknowledgesForStatus_def split: if_splits)
  obtain s' l where r: "Read env st d = Inr (s', l)" "\<not> witness_error env st d s' l" "ws_State (Refresh env st g d) = s'"
    using assms(1) e(1) by (auto simp: reports_def Refresh_def parked_snapshot_def split: sum.splits if_splits prod.splits)
  with assms(1) e have p: "Phase s' \<noteq> PhaseApplying" "Generation s' = Generation s" by (auto simp: reports_def)
  from transaction_reads [OF witnesses_clear(1) [OF r(2) p(1)]] r(1) p(2) assms(3) show False by blast
qed

lemma unacknowledged:
  "\<forall>h \<in> set hs. \<forall>b. \<not> finalHealthAcknowledges (lr_General h) s b \<Longrightarrow> awaitFinalized hs cfg s = Inl ErrRelayFinalization"
  by (induction hs) (auto simp: Let_def)

lemma reload_never:
  assumes "awaitFinalized (gi_finalized io) candidate (reloaded_state (reload_applying s)) = Inl e"
  shows "never (applyGatewayReloadLocked c io s current candidate credentials)"
proof -
  have wait: "never (pure_step (\<lambda>_. map_sum RoutingErr id (awaitFinalized (gi_finalized io) candidate (reloaded_state (reload_applying s)))))"
    by (simp add: never_def pure_step_def assms)
  show ?thesis
    unfolding applyGatewayReloadLocked_def Let_def if_split [of never]
    by (intro conjI impI never_fail, ((rule never_step [OF _ disjI1 [OF wait]], simp; fail) | (rule never_then, (simp add: never_then; fail)))+)
qed

text \<open>The worlds that a run can be watched in while it waits: \<open>m0\<close> is the same run with a wait that is never
  answered.\<close>

definition tracks :: "(world \<Rightarrow> bool) \<Rightarrow> world \<Rightarrow> 'a routine \<Rightarrow> 'a routine \<Rightarrow> bool" where
  "tracks I w m0 m \<longleftrightarrow> isl (snd (m w)) \<or> (\<forall>x \<in> set (fst (m0 w)). I x)"

lemma tracks_never: "never m \<Longrightarrow> tracks I w m0 m"
  by (simp add: tracks_def never_def)

lemma tracks_runs: "runs m0 w I E Q \<Longrightarrow> tracks I w m0 m"
  by (simp add: tracks_def runs_def)

lemma tracks_step:
  assumes "runs a w I E Q'" "\<And>e. never (h e)" "\<And>v x. Q' v x \<Longrightarrow> tracks I x (k0 v) (k v)"
  shows "tracks I w (step_or a h0 k0) (step_or a h k)"
proof (cases "a w")
  case (Pair t r)
  let ?x = "final_world w t"
  show ?thesis
  proof (cases r)
    case (Inl e)
    then have "snd (step_or a h k w) = snd (h e ?x)" using Pair by (simp add: step_or_def split: prod.split)
    then show ?thesis using assms(2) [of e] by (simp add: tracks_def never_def)
  next
    case (Inr v)
    then have t: "\<forall>x \<in> set t. I x" "Q' v ?x" using assms(1) Pair by (simp_all add: runs_def)
    have "fst (step_or a h0 k0 w) = t @ fst (k0 v ?x)" "snd (step_or a h k w) = snd (k v ?x)"
      using Inr Pair by (simp_all add: step_or_def split: prod.split)
    then show ?thesis using assms(3) [OF t(2)] t(1) by (auto simp: tracks_def)
  qed
qed

text \<open>A world whose watcher does not show the final state of the reload.\<close>

definition unfinished :: "controller \<Rightarrow> state \<Rightarrow> world \<Rightarrow> bool" where
  "unfinished c s x \<longleftrightarrow> dk_journal (wd_disk x) \<noteq> FileAbsent \<or>
     (\<forall>s' l. Read (ct_env c) (ct_store c) (wd_disk x) = Inr (s', l) \<longrightarrow> Generation s' \<noteq> Generation s + 2)"

lemma unfinished_reads: "reads c x s \<Longrightarrow> unfinished c s x" "reads c x (reload_applying s) \<Longrightarrow> unfinished c s x"
  by (auto simp: unfinished_def)

lemma timed_out_io:
  shows "gi_control (io\<lparr>gi_finalized := []\<rparr>) = gi_control io" "gi_gate (io\<lparr>gi_finalized := []\<rparr>) = gi_gate io"
    "gi_owned (io\<lparr>gi_finalized := []\<rparr>) = gi_owned io" "gi_account (io\<lparr>gi_finalized := []\<rparr>) = gi_account io"
    "gi_credentials (io\<lparr>gi_finalized := []\<rparr>) = gi_credentials io" "gi_profileOK (io\<lparr>gi_finalized := []\<rparr>) = gi_profileOK io"
    "gi_catalog (io\<lparr>gi_finalized := []\<rparr>) = gi_catalog io" "gi_stale (io\<lparr>gi_finalized := []\<rparr>) = gi_stale io"
    "gi_backup (io\<lparr>gi_finalized := []\<rparr>) = gi_backup io" "gi_discard (io\<lparr>gi_finalized := []\<rparr>) = gi_discard io"
    "gi_journal1 (io\<lparr>gi_finalized := []\<rparr>) = gi_journal1 io" "gi_parked (io\<lparr>gi_finalized := []\<rparr>) = gi_parked io"
    "gi_write (io\<lparr>gi_finalized := []\<rparr>) = gi_write io" "gi_journal2 (io\<lparr>gi_finalized := []\<rparr>) = gi_journal2 io"
    "gi_runtime (io\<lparr>gi_finalized := []\<rparr>) = gi_runtime io" "gi_final (io\<lparr>gi_finalized := []\<rparr>) = gi_final io"
    "gi_remove (io\<lparr>gi_finalized := []\<rparr>) = gi_remove io" "gi_cleanup (io\<lparr>gi_finalized := []\<rparr>) = gi_cleanup io"
    "gi_journal3 (io\<lparr>gi_finalized := []\<rparr>) = gi_journal3 io" "gi_park (io\<lparr>gi_finalized := []\<rparr>) = gi_park io"
    "gi_restore (io\<lparr>gi_finalized := []\<rparr>) = gi_restore io" "gi_finalized (io\<lparr>gi_finalized := []\<rparr>) = []"
  by simp_all

lemma reload_tracks:
  assumes c: "controller_bound c" "states_faithful c s" and w: "reads c w s"
  shows "tracks (unfinished c s) w (applyGatewayReloadLocked c (io\<lparr>gi_finalized := []\<rparr>) s current candidate credentials)
    (applyGatewayReloadLocked c io s current candidate credentials)"
proof (cases "ct_hasRuntimeControl c")
  case True
  let ?n = "reload_applying s" and ?final = "reloaded_state (reload_applying s)" and ?I = "unfinished c s"
  let ?E = "\<lambda>_ _. True"
  have on: "(\<not> ct_hasRuntimeControl c) = False" using True by simp
  let ?J = "\<lambda>n x. reads c x n \<and> dk_journal (wd_disk x) \<noteq> FileAbsent"
  have norm: "normalizeStateBackends s = s" by (rule valid_state_normalized [OF Read_valid [OF w]])
  have same: "runs (files_step f) x ?I ?E (\<lambda>_. P)" if "P x" "?I x" "\<And>fs. P (x\<lparr>wd_files := fs\<rparr>) = P x" for f x P
    by (rule runs_files) (use that in \<open>simp add: unfinished_def split: sum.split\<close>)
  have jI: "?J n x \<Longrightarrow> ?I x" for n x by (simp add: unfinished_def)
  have save1: "runs (saveState c a b ?n) x ?I ?E (\<lambda>_ x. reads c x ?n)" if "reads c x s" for x a b
    by (rule runs_save [OF c _ that]) (simp_all add: unfinished_reads normalized_states [OF norm])
  have save2: "runs (saveState c a b ?final) x ?I ?E (\<lambda>_. ?J ?final)" if "?J ?n x" for x a b
    by (rule runs_save [OF c _ conjunct1 [OF that]]) (use that in \<open>simp_all add: unfinished_def reloaded_state_def normalized_states [OF norm]\<close>)
  have put: "runs (disk_step (\<lambda>d. writeJournal (ct_env c) ok d j)) x ?I ?E (\<lambda>_. ?J ?n)" if "reads c x ?n" for x ok j
    by (rule runs_writeJournal [OF that]) (use that in \<open>simp_all add: unfinished_reads jI\<close>)
  have stop: "runs (parkGatewayReloadLocked c io' ?final e) x ?I ?E Q" if "?J ?final x" for x io' e and Q :: "gateway_receipt \<Rightarrow> world \<Rightarrow> bool"
    unfolding parkGatewayReloadLocked_def
    by (rule runs_step_or [where E' = ?E and Q' = ?E], rule runs_save [OF c _ conjunct1 [OF that]])
      (use that in \<open>simp_all add: unfinished_def reloaded_state_def normalized_states [OF norm] runs_fail\<close>)
  show ?thesis
    unfolding applyGatewayReloadLocked_def Let_def on if_False timed_out_io
    apply (rule tracks_step [where E = ?E and Q' = "\<lambda>_ x. reads c x s"], rule runs_pure, simp add: w split: sum.split, simp)
    apply (rule tracks_step [where E = ?E and Q' = "\<lambda>_ x. reads c x s"], rule runs_check, simp, simp, simp)
    apply (rule tracks_step [where E = ?E and Q' = "\<lambda>_ x. reads c x s"], rule same, assumption, erule unfinished_reads, simp, simp)
    apply (rule tracks_step [where E = ?E and Q' = "\<lambda>_ x. reads c x s"], rule runs_pure, simp split: sum.split, simp)
    apply (rule tracks_step [where E = ?E and Q' = "\<lambda>_ x. reads c x s"], rule runs_check, simp, simp, simp)
    apply (rule tracks_step [where E = ?E and Q' = "\<lambda>_ x. reads c x ?n"], erule save1, rule never_then, simp, simp)
    apply (rule tracks_step [where E = ?E and Q' = "\<lambda>_ x. reads c x ?n"], rule runs_pure, simp split: sum.split, simp)
    apply (rule tracks_step [where E = ?E and Q' = "\<lambda>_. ?J ?n"], erule put, simp)
    apply (rule tracks_step [where E = ?E and Q' = "\<lambda>_. ?J ?n"], rule runs_pure, simp split: sum.split, simp)
    apply (rule tracks_step [where E = ?E and Q' = "\<lambda>_. ?J ?n"], rule same, assumption, erule jI, simp, simp)
    apply (rule tracks_step [where E = ?E and Q' = "\<lambda>_. ?J ?n"], rule put, blast, simp)
    apply (rule tracks_step [where E = ?E and Q' = "\<lambda>_. ?J ?n"], rule runs_check, simp, simp, simp)
    apply (rule tracks_step [where E = ?E and Q' = "\<lambda>_. ?J ?n"], rule runs_check, simp, simp, simp)
    apply (rule tracks_step [where E = ?E and Q' = "\<lambda>_. ?J ?final"], erule save2, simp)
    apply (rule tracks_runs, rule runs_step_or [where E' = "\<lambda>_. ?J ?final" and Q' = "\<lambda>_ _. False"])
      apply (rule runs_pure, simp)
     apply (erule stop)
    apply blast
    done
qed (simp add: tracks_def applyGatewayReloadLocked_def fail_with_def)

lemma locked_tracks:
  assumes c: "controller_bound c" "states_faithful c s" and w: "reads c w s"
    and s: "Phase s = PhaseRelayActive" "AppliedBackend s = BackendExternal" and d: "digest \<noteq> configDigest c (gp_candidate p)"
  shows "tracks (unfinished c s) w (gateway_locked c (io\<lparr>gi_finalized := []\<rparr>) p digest s) (gateway_locked c io p digest s)"
proof -
  let ?E = "\<lambda>_ _. True" and ?Q = "\<lambda>_ x. reads c x s"
  have b: "(digest = configDigest c (gp_candidate p)) = False" "(Phase s = PhaseRelayActive \<and> AppliedBackend s = BackendExternal) = True"
    using d s by simp_all
  show ?thesis
    unfolding gateway_locked_def timed_out_io b if_False not_True_eq_False
    apply (rule tracks_step [where E = ?E and Q' = ?Q], rule runs_files, simp add: w unfinished_reads split: sum.split, simp)
    apply (rule tracks_step [where E = ?E and Q' = ?Q], rule runs_pure, simp split: sum.split, simp)+
    apply (rule tracks_step [where E = ?E and Q' = ?Q], rule runs_check, simp, simp, simp)+
    apply (erule reload_tracks [OF c])
    done
qed


text \<open>If \<open>relay.json\<close> was not written by \<open>config.Write\<close>, so that its bytes do not have the digest of the
  configuration they decode to, a reload that was rolled back and then interrupted cannot be
  recovered: the file has neither of the two recorded fingerprints any more, and a rollback is refused
  in any case because the backup decodes to a configuration with another digest.\<close>

lemma handwritten_config_unrecoverable:
  assumes "wd_files w (backup_path c) = RegularFile m (Some contents)" "tj_OriginRelayConfigFingerprint j = ct_sha256 c contents"
    and "load_backup c (wd_files w) = Inr origin" "configDigest c origin \<noteq> ct_sha256 c contents"
    and "action = RecoveryRollback \<or>
      wd_files w (relay_path c) = config_file c origin \<and> configDigest c origin \<noteq> tj_TargetRelayConfigFingerprint j"
  shows "recoverGatewayLocked c io bound j action w = ([], Inl ErrRecovery)"
proof -
  have "applyDefaults origin = origin"
    using assms(3) by (auto simp: load_backup_def Load_def Let_def applyDefaults_idem split: option.splits sum.splits codex_file.splits)
  then have "wd_files w (relay_path c) = config_file c origin \<Longrightarrow> f = configDigest c origin"
    if "fingerprintOptional c (wd_files w) (relay_path c) = Inr f" for f
    using that by (auto simp: fingerprintOptional_def config_file_def configDigest_def split: if_splits)
  then have "gateway_selection c (wd_files w) j action = Inl ErrRecovery"
    using assms by (cases action) (auto simp: gateway_selection_def gatewayJournalObservedStage_def Let_def split: sum.splits if_splits)
  then show ?thesis by (simp add: recoverGatewayLocked_def step_or_def pure_step_def fail_with_def)
qed

section \<open>Examples\<close>

abbreviation active4 :: state where "active4 \<equiv> example_state PhaseRelayActive BackendExternal BackendExternal 4"

definition gateway_example_world :: world where
  "gateway_example_world = \<lparr>wd_disk = wide_disk active4, wd_files = (\<lambda>p. if p = ''/r'' then RegularFile True (Some [newline]) else NoFile)\<rparr>"

definition good_backup_io :: backup_io where "good_backup_io = \<lparr>bo_owned = True, bo_done = True, bo_synced = True\<rparr>"

definition example_request :: gateway_candidate where
  "example_request = \<lparr>ga_UpstreamBaseURL = ''http://10.0.0.7/v1'', ga_AuthenticationProfile = [], ga_AllowInsecurePrivateIP = True\<rparr>"

definition example_gateway_io :: "local_relay list \<Rightarrow> gateway_io" where
  "example_gateway_io finalized = \<lparr>gi_control = good_control_io, gi_gate = False, gi_owned = (True, True), gi_account = Some,
     gi_credentials = (Some ''k'', Some ''k'', Some ''k'', Some ''k''), gi_profileOK = (\<lambda>_ _. True), gi_catalog = Inr 3,
     gi_stale = good_backup_io, gi_backup = good_backup_io, gi_discard = good_backup_io, gi_journal1 = True,
     gi_parked = [example_health (reload_applying active4)], gi_write = (True, True), gi_journal2 = True, gi_runtime = True,
     gi_final = (True, True), gi_finalized = finalized, gi_remove = True, gi_cleanup = good_backup_io, gi_journal3 = True,
     gi_park = (True, True), gi_restore = (True, True), gi_rollbackJournal = True, gi_rollbackRuntime = True,
     gi_rollbackFinal = (True, True), gi_rollbackRemove = True, gi_rollbackFinalized = []\<rparr>"

abbreviation zero_digest :: string where "zero_digest \<equiv> replicate 64 (CHR ''0'')"

lemma gateway_example_bound: "boundState example_controller gateway_example_world = Inr (active4, False)"
  by (rule example_boundState) (simp_all add: validRelayBackend_def gateway_example_world_def)

lemma example_preflight_gateway:
  "gatewayPreflight example_controller (example_gateway_io hs) example_request gateway_example_world gateway_example_world =
     Inr \<lparr>gp_current = example_cfg, gp_candidate = example_cfg, gp_configDigest = zero_digest, gp_state = active4, gp_credentials = ''k'', gp_count = 3\<rparr>"
proof -
  have c: "relay_path example_controller = ''/r''" "ct_loadConfig example_controller = (\<lambda>fs. Inr example_cfg)"
    "ct_configEnv example_controller = example_config_env" by (simp_all add: example_controller_def example_store_def)
  have o: "open_transition example_controller good_control_io gateway_example_world = Inr (active4, False)"
    by (rule example_open [OF gateway_example_bound, of active4]) (simp add: gateway_example_world_def)
  then have d: "\<not> maintenancePendingOrInvalid example_controller (wd_disk gateway_example_world)"
    "loadJournal (ct_env example_controller) (wd_disk gateway_example_world) = Inr None"
    by (auto simp: open_transition_def split: if_splits sum.splits option.splits)
  have r: "Read (ct_env example_controller) (ct_store example_controller) (wd_disk gateway_example_world) = Inr (active4, False)"
    using gateway_example_bound boundState_read [OF example_controller_bound, of gateway_example_world active4] by simp
  have b: "codex_bound example_controller (wd_disk gateway_example_world) = Some active4"
    using gateway_example_bound by (simp add: codex_bound_def boundState_def r split: sum.splits)
  have f: "fingerprintOptional example_controller (wd_files gateway_example_world) ''/r'' = Inr zero_digest"
    by (simp add: fingerprintOptional_def gateway_example_world_def example_controller_def maxFingerprintBytes_def)
  have n: "NormalizeExternalGatewayURL example_config_env ''http://10.0.0.7/v1'' = Inr ''http://10.0.0.7/v1''" by code_simp
  have u: "cf_UpstreamMode example_cfg = ''external_gateway''" by code_simp
  have v: "Validate example_config_env example_cfg = Inr ()" by code_simp
  have g: "gateway_candidate_config example_cfg ''http://10.0.0.7/v1'' example_request = example_cfg"
    by (simp add: gateway_candidate_config_def example_request_def applyDefaults_def example_config_def)
  have i: "wd_files gateway_example_world ''/r'' = RegularFile True (Some [newline])" by (simp add: gateway_example_world_def)
  have z: "zero_digest \<noteq> ''absent''" by (simp add: list_eq_iff_nth_eq)
  have req: "ga_UpstreamBaseURL example_request = ''http://10.0.0.7/v1''" by (simp add: example_request_def)
  show ?thesis
    unfolding gatewayPreflight_def c i req n sum.case u g v b option.case f Let_def r prod.case
    using d z by (simp add: example_gateway_io_def example_state_def)
qed

lemma example_gateway_apply:
  "\<exists>x. ends (GatewayApply example_controller (example_gateway_io hs) gateway_example_world gateway_example_world example_request zero_digest 4)
     gateway_example_world \<lparr>gr_ConfigDigest = zero_digest, gr_RoutingGeneration = 4, gr_RuntimeReloaded = False\<rparr> x"
proof -
  let ?c = example_controller and ?io = "example_gateway_io hs" and ?w = gateway_example_world
  let ?p = "\<lparr>gp_current = example_cfg, gp_candidate = example_cfg, gp_configDigest = zero_digest, gp_state = active4, gp_credentials = ''k'', gp_count = 3\<rparr>"
  have o: "open_transition ?c (gi_control ?io) ?w = Inr (active4, False)"
    using example_open [OF gateway_example_bound, of active4] by (simp add: gateway_example_world_def example_gateway_io_def)
  have s: "Generation active4 = 4" "Phase active4 = PhaseRelayActive" "AppliedBackend active4 = BackendExternal" by (simp_all add: example_state_def)
  have "GatewayApply ?c ?io ?w ?w example_request zero_digest 4 ?w = gateway_locked ?c ?io ?p zero_digest active4 ?w"
    unfolding GatewayApply_def example_preflight_gateway o sum.case prod.case gateway_locked_def s by (simp add: s)
  moreover have "ends (gateway_locked ?c ?io ?p zero_digest active4) ?w
      \<lparr>gr_ConfigDigest = zero_digest, gr_RoutingGeneration = 4, gr_RuntimeReloaded = False\<rparr> ?w"
  proof -
    have p: "relay_path ?c = ''/r''" by (simp add: example_controller_def example_store_def)
    have b: "gatewayBackupPath ''/r'' \<noteq> ''/r''" by (metis backup_path_differs example_controller_bound p)
    have rm: "removeGatewayBackup ?c (gi_stale ?io) (wd_files ?w) = (wd_files ?w, Inr ())"
      using b by (auto simp: removeGatewayBackup_def p example_gateway_io_def good_backup_io_def gateway_example_world_def)
    have f: "fingerprintOptional ?c (wd_files ?w) ''/r'' = Inr zero_digest" "wd_files ?w ''/r'' = RegularFile True (Some [newline])"
      by (simp_all add: fingerprintOptional_def gateway_example_world_def example_controller_def maxFingerprintBytes_def)
    have d: "configDigest ?c cfg = zero_digest" for cfg by (simp add: configDigest_def example_controller_def)
    have l: "ct_loadConfig ?c fs = Inr example_cfg" for fs by (simp add: example_controller_def)
    show ?thesis
      unfolding gateway_locked_def p
      apply (rule ends_step_or, rule ends_basic(5), rule rm)
      apply (rule ends_step_or, rule ends_basic(1), simp add: f example_gateway_io_def)
      apply (rule ends_step_or, rule ends_basic(1), simp add: f)
      apply (rule ends_step_or, rule ends_basic(1), simp add: l)
      apply (rule ends_step_or, rule ends_basic(2), simp add: d)
      apply (rule ends_step_or, rule ends_basic(2), simp add: example_gateway_io_def)
      apply (simp add: d s ends_def return_value_def)
      done
  qed
  ultimately show ?thesis by (auto simp: ends_def)
qed


definition watched_endpoint :: "watch_snapshot \<Rightarrow> endpoint" where
  "watched_endpoint snap = (example_endpoint (ws_State snap))\<lparr>ep_RoutingStateInvalid := ws_Invalid snap\<rparr>"


end
