(* ===== verification/Routing_Recover.thy ===== *)
theory Routing_Recover
  imports Routing_Gateway
begin

text \<open>
  Package \<open>routing\<close>, files \<open>controller.go\<close> and \<open>removal_recovery_witness.go\<close>: what the user runs after a
  crash. \<open>Recover\<close> completes or rolls back an interrupted switch or gateway change on the authority of
  its journal, or, when state or journal are lost, applies the routing that the Codex files show. A
  witness binds a recovery that belongs to the removal of another installation to the exact state,
  journal and files it was captured with.

  A capture reads everything twice; \<open>Recover\<close> holds the lock, so its own captures see one world.
\<close>

section \<open>Observed routing\<close>

definition observedRoutingState :: "controller \<Rightarrow> codex_fs \<Rightarrow> (controller_error, state) result" where
  "observedRoutingState c fs =
     (case NewRelayState (re_wd (ct_env c)) (relay_path c) of
        Inl e \<Rightarrow> Inl (RoutingErr e)
      | Inr s \<Rightarrow> inferLegacyState c fs s)"

fun forcedRecoveryOrigin :: "backend \<Rightarrow> backend" where
  "forcedRecoveryOrigin BackendExternal = BackendNone"
| "forcedRecoveryOrigin BackendLocalOpenCodex = BackendNone"
| "forcedRecoveryOrigin BackendLocalAppleContainer = BackendNone"
| "forcedRecoveryOrigin BackendNone = BackendExternal"
| "forcedRecoveryOrigin _ = BackendUnknown"

section \<open>The removal witness\<close>

definition nonlocal_backend :: "backend \<Rightarrow> bool" where
  "nonlocal_backend b \<longleftrightarrow> b \<noteq> BackendUnknown \<and> b \<noteq> BackendLocalOpenCodex \<and> b \<noteq> BackendLocalAppleContainer"

definition nonLocalRecoveryTarget :: "state \<Rightarrow> bool" where
  "nonLocalRecoveryTarget s \<longleftrightarrow> Generation s > 0 \<and> nonlocal_backend (DesiredBackend s) \<and> nonlocal_backend (AppliedBackend s)"

definition stableNonLocalRecoveryCommit :: "state \<Rightarrow> bool" where
  "stableNonLocalRecoveryCommit s \<longleftrightarrow>
     (Phase s = PhaseRelayActive \<or> Phase s = PhaseNativeActive) \<and> nonLocalRecoveryTarget s \<and>
     DesiredMode s = AppliedMode s \<and> DesiredBackend s = AppliedBackend s"

datatype witness_kind = WitnessParked | WitnessStableWithJournal | WitnessStable

record recovery_files =
  rf_relayConfig :: string
  rf_codexConfig :: string
  rf_interactive :: string

record witness_snapshot =
  wi_state :: state
  wi_journal :: "transaction_journal option"
  wi_files :: recovery_files
  wi_kind :: witness_kind
  wi_target :: backend

record removal_witness =
  rw_configPath :: string
  rw_codexConfigPath :: string
  rw_codexOwner :: owner
  rw_snapshot :: witness_snapshot

definition currentRemovalRecoveryFiles :: "controller \<Rightarrow> codex_fs \<Rightarrow> (controller_error, recovery_files) result" where
  "currentRemovalRecoveryFiles c fs =
     (case fingerprintOptional c fs (relay_path c) of
        Inl e \<Rightarrow> Inl e
      | Inr relay \<Rightarrow> (case fingerprintOptional c fs (ct_codexConfigPath c) of
        Inl e \<Rightarrow> Inl e
      | Inr codex \<Rightarrow> (case fingerprintOptional c fs (InteractiveProfilePathForOwner (ct_codexConfigPath c) (ct_codexOwner c)) of
        Inl e \<Rightarrow> Inl e
      | Inr interactive \<Rightarrow> Inr \<lparr>rf_relayConfig = relay, rf_codexConfig = codex, rf_interactive = interactive\<rparr>)))"

definition removalRecoveryJournalMatchesFiles :: "transaction_journal \<Rightarrow> recovery_files \<Rightarrow> bool" where
  "removalRecoveryJournalMatchesFiles j f \<longleftrightarrow> tj_RelayConfigFingerprint j = rf_relayConfig f \<and>
     tj_CodexConfigFingerprint j = rf_codexConfig f \<and> tj_InteractiveFingerprint j = rf_interactive f"

definition journal_backends_nonlocal :: "transaction_journal \<Rightarrow> bool" where
  "journal_backends_nonlocal j \<longleftrightarrow> nonlocal_backend (tj_TargetBackend j) \<and> nonlocal_backend (tj_OriginBackend j) \<and>
     tj_TargetBackend j \<noteq> tj_OriginBackend j"

definition removalRecoveryStableJournalRelation :: "state \<Rightarrow> transaction_journal \<Rightarrow> bool" where
  "removalRecoveryStableJournalRelation s j \<longleftrightarrow> stableNonLocalRecoveryCommit s \<and> tj_Stage j = StageConfigMutated \<and>
     \<not> tj_OriginAuthoritative j \<and> Generation s = tj_Generation j + 1 \<and>
     DesiredMode s = tj_Target j \<and> AppliedMode s = tj_Target j \<and>
     DesiredBackend s = tj_TargetBackend j \<and> AppliedBackend s = tj_TargetBackend j \<and> journal_backends_nonlocal j"

definition removalRecoveryParkedJournalRelation :: "state \<Rightarrow> transaction_journal \<Rightarrow> bool" where
  "removalRecoveryParkedJournalRelation s j \<longleftrightarrow> Phase s = PhaseRecoveryRequired \<and> nonLocalRecoveryTarget s \<and>
     \<not> tj_OriginAuthoritative j \<and> Generation s = tj_Generation j + 1 \<and>
     DesiredMode s = tj_Target j \<and> DesiredBackend s = tj_TargetBackend j \<and>
     AppliedMode s = tj_Origin j \<and> AppliedBackend s = tj_OriginBackend j \<and> journal_backends_nonlocal j"

definition classifyRemovalRecoveryWitness ::
  "controller \<Rightarrow> codex_fs \<Rightarrow> state \<Rightarrow> transaction_journal option \<Rightarrow> (controller_error, witness_kind \<times> backend) result" where
  "classifyRemovalRecoveryWitness c fs s journal =
     (case journal of
        Some j \<Rightarrow>
          if removalRecoveryStableJournalRelation s j then Inr (WitnessStableWithJournal, tj_TargetBackend j)
          else if removalRecoveryParkedJournalRelation s j then Inr (WitnessParked, tj_TargetBackend j)
          else Inl ErrRecovery
      | None \<Rightarrow>
          if stableNonLocalRecoveryCommit s then Inr (WitnessStable, AppliedBackend s)
          else if Phase s \<noteq> PhaseRecoveryRequired \<or> \<not> nonLocalRecoveryTarget s then Inl ErrRecovery
          else (case observedRoutingState c fs of
                  Inl _ \<Rightarrow> Inl ErrRecovery
                | Inr observed \<Rightarrow>
                    if \<not> stableNonLocalRecoveryCommit observed then Inl ErrRecovery
                    else Inr (WitnessParked, DesiredBackend observed)))"

definition captureRemovalRecoveryWitnessLocked :: "controller \<Rightarrow> world \<Rightarrow> world \<Rightarrow> (controller_error, witness_snapshot) result" where
  "captureRemovalRecoveryWitnessLocked c w w' =
     (case boundState c w of
        Inl _ \<Rightarrow> Inl ErrRecovery
      | Inr (s, legacy) \<Rightarrow> if legacy then Inl ErrRecovery
      else (case loadJournal (ct_env c) (wd_disk w) of
        Inl _ \<Rightarrow> Inl ErrRecovery
      | Inr journal \<Rightarrow> (case currentRemovalRecoveryFiles c (wd_files w) of
        Inl _ \<Rightarrow> Inl ErrRecovery
      | Inr files \<Rightarrow>
      if (case journal of None \<Rightarrow> False | Some j \<Rightarrow> \<not> removalRecoveryJournalMatchesFiles j files) then Inl ErrRecovery
      else (case classifyRemovalRecoveryWitness c (wd_files w) s journal of
        Inl _ \<Rightarrow> Inl ErrRecovery
      | Inr (kind, target) \<Rightarrow>
          if boundState c w' = Inr (s, False) \<and> loadJournal (ct_env c) (wd_disk w') = Inr journal \<and>
            currentRemovalRecoveryFiles c (wd_files w') = Inr files
          then Inr \<lparr>wi_state = s, wi_journal = journal, wi_files = files, wi_kind = kind, wi_target = target\<rparr>
          else Inl ErrRecovery))))"

definition CaptureRemovalRecoveryWitness :: "controller \<Rightarrow> world \<Rightarrow> world \<Rightarrow> (controller_error, removal_witness) result" where
  "CaptureRemovalRecoveryWitness c w w' =
     (case captureRemovalRecoveryWitnessLocked c w w' of
        Inl _ \<Rightarrow> Inl ErrRecovery
      | Inr snapshot \<Rightarrow> Inr \<lparr>rw_configPath = relay_path c, rw_codexConfigPath = ct_codexConfigPath c,
          rw_codexOwner = ct_codexOwner c, rw_snapshot = snapshot\<rparr>)"

definition witness_of :: "controller \<Rightarrow> removal_witness \<Rightarrow> bool" where
  "witness_of c t \<longleftrightarrow> relay_path c = rw_configPath t \<and> ct_codexConfigPath c = rw_codexConfigPath t \<and> ct_codexOwner c = rw_codexOwner t"

definition AlreadyRecovered :: "removal_witness \<Rightarrow> bool" where
  "AlreadyRecovered t \<longleftrightarrow> wi_kind (rw_snapshot t) = WitnessStable"

definition matchesLocked :: "controller \<Rightarrow> removal_witness \<Rightarrow> world \<Rightarrow> world \<Rightarrow> bool" where
  "matchesLocked c t w w' \<longleftrightarrow> witness_of c t \<and> captureRemovalRecoveryWitnessLocked c w w' = Inr (rw_snapshot t)"

definition ValidateStable :: "controller \<Rightarrow> removal_witness \<Rightarrow> world \<Rightarrow> world \<Rightarrow> bool" where
  "ValidateStable c t w w' \<longleftrightarrow> matchesLocked c t w w' \<and> AlreadyRecovered t"

definition matchesRecoveryInputsLocked ::
  "controller \<Rightarrow> removal_witness \<Rightarrow> (controller_error, state \<times> bool) result \<Rightarrow>
   (routing_error, transaction_journal option) result \<Rightarrow> codex_fs \<Rightarrow> bool" where
  "matchesRecoveryInputsLocked c t bound journal fs \<longleftrightarrow>
     bound = Inr (wi_state (rw_snapshot t), False) \<and> journal = Inr (wi_journal (rw_snapshot t)) \<and> witness_of c t \<and>
     currentRemovalRecoveryFiles c fs = Inr (wi_files (rw_snapshot t))"

definition rebindStableLocked :: "controller \<Rightarrow> removal_witness \<Rightarrow> world \<Rightarrow> world \<Rightarrow> (controller_error, removal_witness) result" where
  "rebindStableLocked c t w w' =
     (case captureRemovalRecoveryWitnessLocked c w w' of
        Inl _ \<Rightarrow> Inl ErrRecovery
      | Inr current \<Rightarrow>
          if wi_kind current \<noteq> WitnessStable \<or> wi_journal current \<noteq> None \<or> \<not> witness_of c t then Inl ErrRecovery
          else Inr (t\<lparr>rw_snapshot := current\<rparr>))"

section \<open>Recover\<close>

record recover_io =
  ro_switch :: switch_io
  ro_gateway :: gateway_recovery_io
  ro_hasGate :: bool
  ro_replace1 :: "bool \<times> bool"
  ro_replace2 :: "bool \<times> bool"

definition recovery_applying :: "state \<Rightarrow> backend \<Rightarrow> bool \<Rightarrow> state" where
  "recovery_applying recovery target legacyMigrationRequired =
     (let applied = (if target = AppliedBackend recovery then DesiredBackend recovery else AppliedBackend recovery) in
      recovery\<lparr>DesiredBackend := target, AppliedBackend := applied, DesiredMode := modeForBackend target,
        AppliedMode := modeForBackend applied, Phase := PhaseApplying, KnownLegacy := legacyMigrationRequired,
        Generation := Generation recovery + 1\<rparr>)"

definition applyRecoveryLockedWithOriginAuthority ::
  "controller \<Rightarrow> recover_io \<Rightarrow> state \<Rightarrow> backend \<Rightarrow> bool \<Rightarrow> bool \<Rightarrow> unit routine" where
  "applyRecoveryLockedWithOriginAuthority c io recovery target originAuthoritative preservedLegacyMigration =
     step_or (pure_step (\<lambda>w. preflightBackendWithLegacyIntent c (ro_switch io) (wd_files w) target (KnownLegacy recovery))) fail_with (\<lambda>(cfg, required).
     let legacyMigrationRequired = (preservedLegacyMigration \<or> required);
         applying = recovery_applying recovery target legacyMigrationRequired in
     if \<not> validBackend (AppliedBackend applying) \<or> AppliedBackend applying = target then fail_with ErrRecovery
     else step_or (replaceState c (ro_replace2 io) applying) fail_with
       (\<lambda>_. finishApplyingLockedWithOriginAuthority c (ro_switch io) applying cfg target originAuthoritative legacyMigrationRequired))"

text \<open>The state that stands for the uncertainty after a lost journal: the observed target and a forced
  origin, newer than the durable state if that is readable.\<close>

definition observed_recovery :: "(controller_error, state \<times> bool) result \<Rightarrow> state \<Rightarrow> state" where
  "observed_recovery bound observed =
     (let origin = forcedRecoveryOrigin (DesiredBackend observed);
          recovery = observed\<lparr>Phase := PhaseRecoveryRequired, AppliedBackend := origin, AppliedMode := modeForBackend origin,
            Generation := Generation observed + 1\<rparr> in
      case bound of
        Inr (s, False) \<Rightarrow> if Generation s \<ge> Generation recovery then recovery\<lparr>Generation := Generation s + 1\<rparr> else recovery
      | _ \<Rightarrow> recovery)"

definition recoverObservedLocked ::
  "controller \<Rightarrow> recover_io \<Rightarrow> (controller_error, state \<times> bool) result \<Rightarrow> bool \<Rightarrow> unit routine" where
  "recoverObservedLocked c io bound desktopExited =
     (if \<not> desktopExited then fail_with (RoutingErr ErrDesktopExitConfirmation)
      else step_or (pure_step (\<lambda>w. observedRoutingState c (wd_files w))) fail_with (\<lambda>observed.
      let target = DesiredBackend observed; origin = forcedRecoveryOrigin target; recovery = observed_recovery bound observed in
      if target = BackendLocalAppleContainer \<or> \<not> validBackend target \<or> \<not> validBackend origin \<or> origin = target then fail_with ErrRecovery
      else step_or (replaceState c (ro_replace1 io) recovery) fail_with
        (\<lambda>_. applyRecoveryLockedWithOriginAuthority c io recovery target False False)))"

definition finishRemovalWitnessRecoveryLocked :: "controller \<Rightarrow> removal_witness option \<Rightarrow> unit routine \<Rightarrow> removal_witness option routine" where
  "finishRemovalWitnessRecoveryLocked c witness m =
     step_or m fail_with (\<lambda>_. case witness of
        None \<Rightarrow> return_value None
      | Some t \<Rightarrow> step_or (pure_step (\<lambda>w. rebindStableLocked c t w w)) (\<lambda>_. fail_with ErrRecovery) (\<lambda>t'. return_value (Some t')))"

definition apple_state :: "(controller_error, state \<times> bool) result \<Rightarrow> bool" where
  "apple_state bound = (case bound of
     Inr (s, False) \<Rightarrow> DesiredBackend s = BackendLocalAppleContainer \<or> AppliedBackend s = BackendLocalAppleContainer | _ \<Rightarrow> False)"

definition apple_journal :: "(routing_error, transaction_journal option) result \<Rightarrow> bool" where
  "apple_journal journal = (case journal of
     Inr (Some j) \<Rightarrow> tj_TargetBackend j = BackendLocalAppleContainer \<or> tj_OriginBackend j = BackendLocalAppleContainer | _ \<Rightarrow> False)"

text \<open>The durable recovery state, or the one that the journal gives in its place.\<close>

definition recovery_state :: "controller \<Rightarrow> recover_io \<Rightarrow> (controller_error, state \<times> bool) result \<Rightarrow> transaction_journal \<Rightarrow> state routine" where
  "recovery_state c io bound j =
     (if (case bound of Inr (s, False) \<Rightarrow> Phase s = PhaseRecoveryRequired | _ \<Rightarrow> False)
      then pure_step (\<lambda>_. map_sum id fst bound)
      else step_or (pure_step (\<lambda>_. recoveryStateFromJournal c j)) fail_with (\<lambda>s.
        step_or (replaceState c (ro_replace1 io) s) fail_with (\<lambda>_. return_value s)))"

definition recovery_target :: "recovery_action \<Rightarrow> state \<Rightarrow> transaction_journal \<Rightarrow> backend option" where
  "recovery_target action s j =
     (let target = (if DesiredBackend s = BackendUnknown then tj_TargetBackend j else DesiredBackend s);
          chosen = (if action = RecoveryRollback then
                      (if \<not> tj_OriginAuthoritative j \<or> \<not> validBackend (tj_OriginBackend j) then None else Some (tj_OriginBackend j))
                    else Some target) in
      case chosen of None \<Rightarrow> None | Some b \<Rightarrow> if validBackend b then Some b else None)"

definition Recover ::
  "controller \<Rightarrow> recover_io \<Rightarrow> removal_witness option \<Rightarrow> recovery_action \<Rightarrow> bool \<Rightarrow> removal_witness option routine" where
  "Recover c io witness action desktopExited w =
     (let control = sw_control (ro_switch io); bound = boundState c w; journal = loadJournal (ct_env c) (wd_disk w);
          finish = finishRemovalWitnessRecoveryLocked c witness in
      if action \<noteq> RecoveryComplete \<and> action \<noteq> RecoveryRollback then ([], Inl ErrRecoveryAction)
      else if witness \<noteq> None \<and> action \<noteq> RecoveryComplete then ([], Inl ErrRecovery)
      else if \<not> cio_lock control then ([], Inl ErrLockUnavailable)
      else if maintenancePendingOrInvalid c (wd_disk w) \<or> (witness = None \<and> cio_recoveryGate control) then ([], Inl ErrRecovery)
      else if apple_state bound \<or> apple_journal journal then ([], Inl ErrRecovery)
      else if (case witness of None \<Rightarrow> False
               | Some t \<Rightarrow> \<not> ro_hasGate io \<or> \<not> matchesRecoveryInputsLocked c t bound journal (wd_files w) \<or> cio_recoveryGate control)
      then ([], Inl ErrRecovery)
      else (case journal of
        Inl _ \<Rightarrow> if action \<noteq> RecoveryComplete then ([], Inl ErrRecovery) else finish (recoverObservedLocked c io bound desktopExited) w
      | Inr None \<Rightarrow>
          if action \<noteq> RecoveryComplete then ([], Inl ErrRecovery)
          else if (case bound of Inl _ \<Rightarrow> True | Inr (s, legacy) \<Rightarrow> legacy \<or> Phase s = PhaseRecoveryRequired \<or> Phase s = PhaseApplying)
          then finish (recoverObservedLocked c io bound desktopExited) w
          else ([], Inl ErrRecovery)
      | Inr (Some j) \<Rightarrow>
          if \<not> journalMatchesCurrentFiles c (wd_files w) j then ([], Inl ErrRecovery)
          else if tj_Kind j = KindGatewayReload then
            (if \<not> desktopExited then ([], Inl (RoutingErr ErrDesktopExitConfirmation))
             else step_or (recoverGatewayLocked c (ro_gateway io) bound j action) fail_with (\<lambda>_. return_value witness) w)
          else step_or (recovery_state c io bound j) fail_with (\<lambda>s.
            case recovery_target action s j of
              None \<Rightarrow> fail_with ErrRecovery
            | Some target \<Rightarrow>
                if \<not> desktopExited then fail_with (RoutingErr ErrDesktopExitConfirmation)
                else finish (applyRecoveryLockedWithOriginAuthority c io s target (tj_OriginAuthoritative j) (tj_KnownLegacy j))) w))"

section \<open>Rules for recovery\<close>

text \<open>JSON keeps every valid state that is bound to the two files of this controller.\<close>

definition installation_faithful :: "controller \<Rightarrow> bool" where
  "installation_faithful c \<longleftrightarrow>
     (\<forall>x. ctl_valid c x \<longrightarrow> canonicalCodexConfigPath (re_wd (ct_env c)) (ct_codexConfigPath c) = Inr (BoundCodexConfigPath x) \<longrightarrow> state_faithful (ct_env c) x)"

abbreviation bound_here :: "controller \<Rightarrow> state \<Rightarrow> bool" where
  "bound_here c s \<equiv> canonicalCodexConfigPath (re_wd (ct_env c)) (ct_codexConfigPath c) = Inr (BoundCodexConfigPath s)"

lemma faithful_here: "installation_faithful c \<Longrightarrow> bound_here c s \<Longrightarrow> states_faithful c s"
  by (auto simp: installation_faithful_def states_faithful_def)

lemma BindCodexConfig_here: "BindCodexConfig (re_wd (ct_env c)) s (ct_codexConfigPath c) = Inr s' \<Longrightarrow> bound_here c s'"
  by (auto simp: BindCodexConfig_def split: sum.splits)

lemma observed_here: "observedRoutingState c fs = Inr s \<Longrightarrow> bound_here c s"
  by (auto simp: observedRoutingState_def inferLegacyState_def Let_def dest!: BindCodexConfig_here split: sum.splits if_splits)

lemma journal_state:
  assumes "recoveryStateFromJournal c j = Inr s"
  shows "bound_here c s" "Phase s = PhaseRecoveryRequired" "DesiredBackend s = tj_TargetBackend j" "AppliedBackend s = tj_OriginBackend j"
  using assms
  by (auto simp: recoveryStateFromJournal_def NewRecoveryState_def BindCodexConfig_def split: sum.splits)

lemma normalize_keeps: "BoundCodexConfigPath (normalizeStateBackends s) = BoundCodexConfigPath s" "Phase (normalizeStateBackends s) = Phase s"
  by (simp_all add: normalizeStateBackends_def Let_def)

lemma normalize_id: "DesiredBackend s \<noteq> BackendOther [] \<Longrightarrow> AppliedBackend s \<noteq> BackendOther [] \<Longrightarrow> normalizeStateBackends s = s"
  by (simp add: normalizeStateBackends_def)

lemma valid_not_other: "validBackend b \<Longrightarrow> b \<noteq> BackendOther []"
  by (auto simp: validBackend_def)

lemma runs_replace:
  assumes "controller_bound c" "installation_faithful c" "bound_here c n"
    and saved: "\<And>x. reads c x (normalizeStateBackends n) \<Longrightarrow> wd_files x = wd_files w \<Longrightarrow> dk_journal (wd_disk x) = dk_journal (wd_disk w) \<Longrightarrow> C x \<and> Q () x"
    and kept: "\<And>x e. untouched w x \<Longrightarrow> C x \<and> E e x"
  shows "runs (replaceState c io n) w C E Q"
  unfolding replaceState_def
proof (rule runs_disk)
  fix d r
  assume call: "Replace (ct_env c) (ct_store c) False (fst io) (snd io) (wd_disk w) n = (d, r)"
  have sb: "store_bound (ct_env c) (ct_store c)" using assms(1) by (simp add: controller_bound_def)
  note out = Replace_cases [OF call sb]
  let ?x = "w\<lparr>wd_disk := d\<rparr>"
  show "C ?x \<and> (case r of Inl e \<Rightarrow> E (RoutingErr e) ?x | Inr _ \<Rightarrow> Q () ?x)"
  proof (cases r)
    case (Inl e)
    then have "untouched w ?x" using out by (simp add: untouched_def)
    then show ?thesis using kept Inl by simp
  next
    case (Inr u)
    let ?n = "normalizeStateBackends n"
    have v: "ctl_valid c ?n" "writeMarkerAndState (ct_env c) (fst io) (snd io) (wd_disk w) ?n = (d, Inr ())"
      using out Inr by (simp_all add: Let_def)
    have "state_faithful (ct_env c) ?n" using assms(2,3) v(1) by (simp add: installation_faithful_def normalize_keeps)
    then have "reads c ?x ?n" using writeMarkerAndState_read [OF v(2,1)] by simp
    then show ?thesis using saved [of ?x] out Inr by simp
  qed
qed

definition recovered :: "controller \<Rightarrow> backend \<Rightarrow> world \<Rightarrow> bool" where
  "recovered c b x \<longleftrightarrow>
     (\<exists>s. Read (ct_env c) (ct_store c) (wd_disk x) = Inr (s, False) \<and> DesiredBackend s = b \<and> AppliedBackend s = b \<and>
        Phase s = (if b = BackendNone then PhaseNativeActive else PhaseRelayActive)) \<and>
     dk_journal (wd_disk x) = FileAbsent"

lemma committed_recovered: "committed c io applying cfg b migrate fs x \<Longrightarrow> recovered c b x"
  by (auto simp: committed_def recovered_def applied_state_def)

abbreviation in_recovery :: "controller \<Rightarrow> world \<Rightarrow> bool" where
  "in_recovery c w \<equiv> \<exists>r. reads c w r \<and> Phase r = PhaseRecoveryRequired"

lemma in_recovery_parked: "in_recovery c w \<Longrightarrow> parked c w"
  using parked_by_state by (auto simp: AllowsDataPlane_def)

lemma in_recovery_untouched: "in_recovery c w \<Longrightarrow> untouched w x \<Longrightarrow> in_recovery c x"
  using Read_same_state_file unfolding untouched_def by blast

lemma recovery_applying_fields:
  "DesiredBackend (recovery_applying r b m) = b" "Phase (recovery_applying r b m) = PhaseApplying"
  "BoundCodexConfigPath (recovery_applying r b m) = BoundCodexConfigPath r"
  by (simp_all add: recovery_applying_def Let_def)

lemma applyRecovery_runs:
  assumes c: "controller_bound c" "installation_faithful c" and s: "bound_here c recovery" "in_recovery c w" "validBackend target"
  shows "runs (applyRecoveryLockedWithOriginAuthority c io recovery target auth migrate) w
    (\<lambda>x. parked c x \<or> recovered c target x) (\<lambda>_ _. True) (\<lambda>_ x. recovered c target x)"
    (is "runs _ _ ?C _ ?Q")
  unfolding applyRecoveryLockedWithOriginAuthority_def Let_def
proof (rule runs_step_or [where E' = "\<lambda>_ _. True" and Q' = "\<lambda>_. in_recovery c"])
  fix p :: "relay_config \<times> bool" and x
  assume x: "in_recovery c x"
  obtain cfg required where p: "p = (cfg, required)" by (cases p)
  let ?n = "recovery_applying recovery target (migrate \<or> required)"
  have "runs (step_or (replaceState c (ro_replace2 io) ?n) fail_with
      (\<lambda>_. finishApplyingLockedWithOriginAuthority c (ro_switch io) ?n cfg target auth (migrate \<or> required))) x ?C (\<lambda>_ _. True) ?Q"
    if valid: "validBackend (AppliedBackend ?n)"
  proof (rule runs_step_or [where E' = "\<lambda>_ _. True" and Q' = "\<lambda>_ y. reads c y ?n"])
    have n: "normalizeStateBackends ?n = ?n"
      by (intro normalize_id valid_not_other) (use valid s(3) in \<open>simp_all add: recovery_applying_fields\<close>)
    show "runs (replaceState c (ro_replace2 io) ?n) x ?C (\<lambda>_ _. True) (\<lambda>_ y. reads c y ?n)"
    proof (rule runs_replace [OF c])
      show "bound_here c ?n" using s(1) by (simp add: recovery_applying_fields)
      fix y
      show "?C y \<and> reads c y ?n" if "reads c y (normalizeStateBackends ?n)"
        using that parked_by_state [of c y ?n] unfolding n by (simp add: AllowsDataPlane_def recovery_applying_fields)
      show "?C y \<and> True" if "untouched x y" using in_recovery_untouched [OF x that] in_recovery_parked by blast
    qed
    fix y assume "reads c y ?n"
    then have "runs (finishApplyingLockedWithOriginAuthority c (ro_switch io) ?n cfg target auth (migrate \<or> required)) y
        (\<lambda>x. parked c x \<or> committed c (ro_switch io) ?n cfg target (migrate \<or> required) (wd_files y) x) (\<lambda>_ _. True)
        (\<lambda>_ x. committed c (ro_switch io) ?n cfg target (migrate \<or> required) (wd_files y) x)"
      by (intro finish_runs [OF c(1) faithful_here [OF c(2) s(1)]]) (simp_all add: recovery_applying_fields s(3))
    then show "runs (finishApplyingLockedWithOriginAuthority c (ro_switch io) ?n cfg target auth (migrate \<or> required)) y ?C (\<lambda>_ _. True) ?Q"
      by (rule runs_mono) (auto dest: committed_recovered)
  qed (simp add: runs_fail)
  then show "runs (case p of (cfg, required) \<Rightarrow>
      if \<not> validBackend (AppliedBackend (recovery_applying recovery target (migrate \<or> required))) \<or>
        AppliedBackend (recovery_applying recovery target (migrate \<or> required)) = target then fail_with ErrRecovery
      else step_or (replaceState c (ro_replace2 io) (recovery_applying recovery target (migrate \<or> required))) fail_with
        (\<lambda>_. finishApplyingLockedWithOriginAuthority c (ro_switch io) (recovery_applying recovery target (migrate \<or> required)) cfg target auth
          (migrate \<or> required))) x ?C (\<lambda>_ _. True) ?Q"
    unfolding p prod.case by (simp only: if_split [of "\<lambda>m. runs m _ _ _ _"]) (blast intro: runs_fail)
qed (use s(2) in \<open>simp_all add: runs_fail runs_pure split: sum.split\<close>)

section \<open>Every world of a recovery\<close>

definition recovery_world :: "controller \<Rightarrow> world \<Rightarrow> world \<Rightarrow> bool" where
  "recovery_world c w x \<longleftrightarrow> untouched w x \<or> parked c x \<or> (\<exists>b. recovered c b x)"

lemma observed_runs:
  assumes c: "controller_bound c" "installation_faithful c"
  shows "runs (recoverObservedLocked c io bound exited) w (recovery_world c w) (\<lambda>_ _. True) (\<lambda>_ x. \<exists>b. validBackend b \<and> recovered c b x)"
    (is "runs _ _ ?C _ ?Q")
proof (cases exited)
  case True
  have "runs (if target = BackendLocalAppleContainer \<or> \<not> validBackend target \<or> \<not> validBackend (forcedRecoveryOrigin target) \<or>
      forcedRecoveryOrigin target = target then fail_with ErrRecovery
      else step_or (replaceState c (ro_replace1 io) (observed_recovery bound s)) fail_with
        (\<lambda>_. applyRecoveryLockedWithOriginAuthority c io (observed_recovery bound s) target False False)) w ?C (\<lambda>_ _. True) ?Q"
    if s: "bound_here c s" for s target
  proof -
    let ?n = "observed_recovery bound s"
    have n: "bound_here c ?n" "Phase ?n = PhaseRecoveryRequired"
      using s by (auto simp: observed_recovery_def Let_def split: sum.splits prod.splits bool.splits)
    have "runs (step_or (replaceState c (ro_replace1 io) ?n) fail_with
        (\<lambda>_. applyRecoveryLockedWithOriginAuthority c io ?n target False False)) w ?C (\<lambda>_ _. True) ?Q"
      if valid: "validBackend target"
    proof (rule runs_step_or [where E' = "\<lambda>_ _. True" and Q' = "\<lambda>_. in_recovery c"])
      show "runs (replaceState c (ro_replace1 io) ?n) w ?C (\<lambda>_ _. True) (\<lambda>_. in_recovery c)"
      proof (rule runs_replace [OF c n(1)])
        fix y
        assume "reads c y (normalizeStateBackends ?n)"
        then have "in_recovery c y" using n(2) normalize_keeps(2) by metis
        then show "?C y \<and> in_recovery c y" using in_recovery_parked by (simp add: recovery_world_def)
      qed (simp add: recovery_world_def)
      fix y assume "in_recovery c y"
      then show "runs (applyRecoveryLockedWithOriginAuthority c io ?n target False False) y ?C (\<lambda>_ _. True) ?Q"
        by (rule runs_mono [OF applyRecovery_runs [OF c n(1) _ valid]]) (use valid in \<open>auto simp: recovery_world_def\<close>)
    qed (simp add: runs_fail)
    then show ?thesis by (simp only: if_split [of "\<lambda>m. runs m _ _ _ _"]) (blast intro: runs_fail)
  qed
  note branch = this
  show ?thesis
    unfolding recoverObservedLocked_def Let_def
    apply (simp only: True not_True_eq_False if_False)
    apply (rule runs_step_or [where E' = "\<lambda>_ _. True" and Q' = "\<lambda>s x. bound_here c s \<and> x = w"])
      apply (rule runs_pure, simp add: observed_here split: sum.split)
     apply (rule runs_fail, simp)
    apply (elim conjE, simp only:, erule branch)
    done
qed (simp add: recoverObservedLocked_def runs_fail)

lemma runs_new_recovery:
  assumes c: "controller_bound c" "installation_faithful c" and w: "dk_journal (wd_disk w) \<noteq> FileAbsent"
    and r: "bound_here c r" "Phase r = PhaseRecoveryRequired"
  shows "runs (step_or (replaceState c io r) fail_with (\<lambda>_. return_value r)) w (parked c) (\<lambda>_ _. True) (\<lambda>r x. bound_here c r \<and> in_recovery c x)"
proof (rule runs_step_or [where E' = "\<lambda>_ _. True" and Q' = "\<lambda>_. in_recovery c"])
  show "runs (replaceState c io r) w (parked c) (\<lambda>_ _. True) (\<lambda>_. in_recovery c)"
  proof (rule runs_replace [OF c r(1)])
    fix y
    assume "reads c y (normalizeStateBackends r)"
    then have "in_recovery c y" using r(2) normalize_keeps(2) by metis
    then show "parked c y \<and> in_recovery c y" using in_recovery_parked by blast
  qed (use w parked_by_journal in \<open>auto simp: untouched_def\<close>)
qed (use r in \<open>auto simp: runs_fail intro!: runs_value\<close>)

lemma runs_from_journal:
  assumes "\<And>r. recoveryStateFromJournal c j = Inr r \<Longrightarrow> runs (k r) w C (\<lambda>_ _. True) Q"
  shows "runs (step_or (pure_step (\<lambda>_. recoveryStateFromJournal c j)) fail_with k) w C (\<lambda>_ _. True) Q"
  by (rule runs_step_or [where E' = "\<lambda>_ _. True" and Q' = "\<lambda>r x. x = w \<and> recoveryStateFromJournal c j = Inr r"])
    (use assms in \<open>auto simp: runs_fail intro!: runs_pure split: sum.split\<close>)

text \<open>The state in which a reload is recovered: the durable recovery state, or one made from the journal.\<close>

lemma gateway_recovery_state:
  assumes c: "controller_bound c" "installation_faithful c" and j: "dk_journal (wd_disk w) \<noteq> FileAbsent" "bound = boundState c w"
  shows "runs (case bound of
      Inr (s, False) \<Rightarrow>
        if Phase s = PhaseRecoveryRequired then return_value s
        else step_or (pure_step (\<lambda>_. recoveryStateFromJournal c j)) fail_with (\<lambda>r.
          let r' = (if Generation s \<ge> Generation r then r\<lparr>Generation := Generation s + 1\<rparr> else r) in
          step_or (replaceState c io r') fail_with (\<lambda>_. return_value r'))
    | _ \<Rightarrow> step_or (pure_step (\<lambda>_. recoveryStateFromJournal c j)) fail_with (\<lambda>r.
        step_or (replaceState c io r) fail_with (\<lambda>_. return_value r))) w
    (parked c) (\<lambda>_ _. True) (\<lambda>r x. bound_here c r \<and> in_recovery c x)"
    (is "runs _ _ ?C ?E ?Q")
proof -
  note new = runs_new_recovery [OF c j(1)] and made = runs_from_journal [where C = "parked c" and Q = ?Q]
  have kept: "reads c w s \<and> bound_here c s" if "bound = Inr (s, False)" for s
  proof -
    have b: "boundState c w = Inr (s, False)" using that j(2) by simp
    then show ?thesis using boundState_valid(2) [OF c(1) b] boundState_read [OF c(1), of w s] by simp
  qed
  have lost: "runs (step_or (pure_step (\<lambda>_. recoveryStateFromJournal c j)) fail_with (\<lambda>r.
      step_or (replaceState c io r) fail_with (\<lambda>_. return_value r))) w ?C ?E ?Q"
    by (rule made, rule new) (simp_all add: journal_state)
  show ?thesis
  proof (cases bound)
    case (Inl e)
    then show ?thesis using lost by simp
  next
    case (Inr p)
    obtain s legacy where p: "p = (s, legacy)" by (cases p)
    have "runs (if Phase s = PhaseRecoveryRequired then return_value s
        else step_or (pure_step (\<lambda>_. recoveryStateFromJournal c j)) fail_with (\<lambda>r.
          let r' = (if Generation s \<ge> Generation r then r\<lparr>Generation := Generation s + 1\<rparr> else r) in
          step_or (replaceState c io r') fail_with (\<lambda>_. return_value r'))) w ?C ?E ?Q" if "\<not> legacy"
    proof (cases "Phase s = PhaseRecoveryRequired")
      case True
      then show ?thesis using kept [of s] Inr p that by (auto intro!: runs_value)
    next
      case False
      have "runs (step_or (pure_step (\<lambda>_. recoveryStateFromJournal c j)) fail_with (\<lambda>r.
          let r' = (if Generation s \<ge> Generation r then r\<lparr>Generation := Generation s + 1\<rparr> else r) in
          step_or (replaceState c io r') fail_with (\<lambda>_. return_value r'))) w ?C ?E ?Q"
        unfolding Let_def by (rule made, rule new) (auto dest: journal_state)
      then show ?thesis using False by simp
    qed
    then show ?thesis using lost Inr p by (cases legacy) simp_all
  qed
qed

lemma runs_recovery_park:
  assumes c: "controller_bound c" "installation_faithful c" "bound_here c n" and n: "reads c w n"
    and w: "\<And>x. reads c x n \<Longrightarrow> wd_files x = wd_files w \<Longrightarrow> dk_journal (wd_disk x) = dk_journal (wd_disk w) \<Longrightarrow> parked c x \<or> recovered c b x"
  shows "runs (parkGatewayRecoveryLocked c io n) w (\<lambda>x. parked c x \<or> recovered c b x) (\<lambda>_ _. True) Q"
  unfolding parkGatewayRecoveryLocked_def
  by (rule runs_park [OF c(1) faithful_here [OF c(2,3)] refl n]) (use w in auto)

lemma gateway_recovery_runs:
  assumes c: "controller_bound c" "installation_faithful c" and w: "dk_journal (wd_disk w) \<noteq> FileAbsent" "bound = boundState c w"
  shows "runs (recoverGatewayLocked c io bound j action) w (\<lambda>x. parked c x \<or> recovered c BackendExternal x) (\<lambda>_ _. True)
    (\<lambda>_ x. recovered c BackendExternal x)"
    (is "runs _ _ ?C ?E ?Q")
proof -
  define n where "n r = r\<lparr>DesiredMode := ModeRelay, AppliedMode := ModeRelay, DesiredBackend := BackendExternal,
    AppliedBackend := BackendExternal, Phase := PhaseApplying, Generation := Generation r + 1\<rparr>" for r :: state
  let ?final = "\<lambda>r. reloaded_state (n r)"
  let ?B = "\<lambda>r x. bound_here c r \<and> reads c x (n r)"
  let ?J = "\<lambda>r x. ?B r x \<and> dk_journal (wd_disk x) \<noteq> FileAbsent"
  let ?F = "\<lambda>r x. bound_here c r \<and> reads c x (?final r)"
  let ?G = "\<lambda>r x. ?F r x \<and> dk_journal (wd_disk x) = FileAbsent"
  have norm: "normalizeStateBackends (n r) = n r" "normalizeStateBackends (?final r) = ?final r"
    and here: "BoundCodexConfigPath (n r) = BoundCodexConfigPath r" "BoundCodexConfigPath (?final r) = BoundCodexConfigPath r" for r
    by (simp_all add: normalize_id n_def reloaded_state_def)
  have B: "?B r x \<Longrightarrow> ?C x" for r x using parked_by_state by (auto simp: n_def AllowsDataPlane_def)
  have F: "?F r x \<Longrightarrow> ?C x" for r x
    using parked_by_journal [of x c] by (auto simp: recovered_def n_def reloaded_state_def)
  have G: "?G r x \<Longrightarrow> recovered c BackendExternal x" for r x by (auto simp: recovered_def n_def reloaded_state_def)
  have parkB: "runs (parkGatewayRecoveryLocked c io (n r)) x ?C ?E ?Q" if "?B r x" for r x
    using that B by (intro runs_recovery_park [OF c]) (auto simp: here)
  have parkF: "runs (parkGatewayRecoveryLocked c io (?final r)) x ?C ?E ?Q" if "?F r x" for r x
    using that F by (intro runs_recovery_park [OF c]) (auto simp: here)
  have again: "runs (step_or (disk_step (\<lambda>d. writeJournal (ct_env c) ok d k)) (\<lambda>_. parkGatewayRecoveryLocked c io (?final r))
      (\<lambda>_. parkGatewayRecoveryLocked c io (?final r))) x ?C ?E ?Q" if "?F r x" for r x k ok
    by (rule runs_step_or [where E' = "\<lambda>_. ?F r" and Q' = "\<lambda>_. ?F r"], rule runs_writeJournal [where s = "?final r"])
      (use that F parkF in auto)
  have save: "runs (saveState c a b (?final r)) x ?C (\<lambda>_. ?B r) (\<lambda>_ y. ?F r y)" if "?J r x" for r x a b
    by (rule runs_save [OF c(1) faithful_here [OF c(2)], where s = "n r" and ?s0.0 = r])
      (use that B F norm in \<open>auto simp: n_def reloaded_state_def\<close>)
  have replace: "runs (replaceState c i (n r)) x ?C (\<lambda>_ _. True) (\<lambda>_. ?B r)" if "bound_here c r" "in_recovery c x" for r x i
    by (rule runs_replace [OF c]) (use that B norm here in_recovery_untouched in_recovery_parked in \<open>auto dest: in_recovery_untouched in_recovery_parked\<close>)
  have tail: "runs (step_or (files_step (write_config c (gv_write io) selected)) (\<lambda>_. fail_with ErrRecovery) (\<lambda>_.
      step_or (replaceState c (gv_replace2 io) (n r)) (\<lambda>_. fail_with ErrRecovery) (\<lambda>_.
      step_or (disk_step (\<lambda>d. writeJournal (ct_env c) (gv_journal io) d k)) (\<lambda>_. parkGatewayRecoveryLocked c io (n r)) (\<lambda>_.
      step_or (pure_step (\<lambda>_. map_sum RoutingErr id (awaitParked (gv_parked io) (n r) False))) (\<lambda>_. parkGatewayRecoveryLocked c io (n r)) (\<lambda>_.
      step_or (check_step (gv_runtime io) ErrRecovery) (\<lambda>_. parkGatewayRecoveryLocked c io (n r)) (\<lambda>_.
      step_or (saveState c (fst (gv_final io)) (snd (gv_final io)) (?final r)) (\<lambda>_. parkGatewayRecoveryLocked c io (n r)) (\<lambda>_.
      step_or (disk_step (removeJournal (gv_remove io))) (\<lambda>_. parkGatewayRecoveryLocked c io (?final r)) (\<lambda>_.
      step_or (pure_step (\<lambda>_. map_sum RoutingErr id (awaitFinalized (gv_finalized io) selected (?final r))))
        (\<lambda>_. step_or (disk_step (\<lambda>d. writeJournal (ct_env c) (gv_journal2 io) d k)) (\<lambda>_. parkGatewayRecoveryLocked c io (?final r))
          (\<lambda>_. parkGatewayRecoveryLocked c io (?final r))) (\<lambda>_.
      step_or (files_step (removeGatewayBackup c (gv_cleanup io)))
        (\<lambda>_. step_or (disk_step (\<lambda>d. writeJournal (ct_env c) (gv_journal2 io) d k)) (\<lambda>_. parkGatewayRecoveryLocked c io (?final r))
          (\<lambda>_. parkGatewayRecoveryLocked c io (?final r))) (\<lambda>_. return_unit)))))))))) x ?C ?E ?Q"
    if x: "bound_here c r" "in_recovery c x" for r x k selected
    apply (rule runs_step_or [where E' = "\<lambda>_ _. True" and Q' = "\<lambda>_. in_recovery c"])
      apply (rule runs_files, use x in_recovery_parked in \<open>auto split: sum.split\<close>)[1]
     apply (rule runs_fail, simp)
    apply (rule runs_step_or [where E' = "\<lambda>_ _. True" and Q' = "\<lambda>_. ?B r"], rule replace [OF x(1)], assumption, rule runs_fail, simp)
    apply (rule runs_step_or [where E' = "\<lambda>_. ?B r" and Q' = "\<lambda>_. ?J r"])
      apply (rule runs_writeJournal [where s = "n r"], blast, use B in auto)[1]
     apply (erule parkB)
    apply (rule runs_step_or [where E' = "\<lambda>_. ?B r" and Q' = "\<lambda>_. ?J r"], rule runs_pure, simp split: sum.split, erule parkB)
    apply (rule runs_step_or [where E' = "\<lambda>_. ?B r" and Q' = "\<lambda>_. ?J r"], rule runs_check, blast, blast, erule parkB)
    apply (rule runs_step_or [where E' = "\<lambda>_. ?B r" and Q' = "\<lambda>_. ?F r"], erule save, erule parkB)
    apply (rule runs_step_or [where E' = "\<lambda>_. ?F r" and Q' = "\<lambda>_. ?G r"])
      apply (rule runs_removeJournal [where s = "?final r"], blast, use F in auto)[1]
     apply (erule parkF)
    apply (rule runs_step_or [where E' = "\<lambda>_. ?F r" and Q' = "\<lambda>_. ?G r"], rule runs_pure, simp split: sum.split, erule again)
    apply (rule runs_step_or [where E' = "\<lambda>_. ?F r" and Q' = "\<lambda>_. ?G r"])
      apply (rule runs_files, use F in \<open>auto split: sum.split\<close>)[1]
     apply (erule again)
    apply (rule runs_return, erule G)
    done
  show ?thesis
    unfolding recoverGatewayLocked_def Let_def n_def [symmetric]
    apply (simp only: if_split [of "\<lambda>m. runs m _ _ _ _"], intro conjI impI, rule runs_fail, simp)
    apply (rule runs_step_or [where E' = "\<lambda>_ _. True" and Q' = "\<lambda>_ x. x = w"], rule runs_pure, simp split: sum.split, rule runs_fail, simp)
    apply (simp only: split_beta)
    apply (rule runs_step_or [where E' = "\<lambda>_ _. True" and Q' = "\<lambda>r x. bound_here c r \<and> in_recovery c x"])
      apply (rule runs_mono [OF gateway_recovery_state [OF c w, unfolded Let_def]], simp, simp, simp)
     apply (rule runs_fail, simp)
    apply (rule tail, blast, blast)
    done
qed

lemma recovery_state_runs:
  assumes c: "controller_bound c" "installation_faithful c" and w: "dk_journal (wd_disk w) \<noteq> FileAbsent"
  shows "runs (recovery_state c io (boundState c w) j) w (parked c) (\<lambda>_ _. True) (\<lambda>s x. bound_here c s \<and> in_recovery c x)"
proof (cases "case boundState c w of Inr (s, False) \<Rightarrow> Phase s = PhaseRecoveryRequired | _ \<Rightarrow> False")
  case True
  then obtain s where s: "boundState c w = Inr (s, False)" "Phase s = PhaseRecoveryRequired"
    by (auto split: sum.splits prod.splits bool.splits)
  have "reads c w s" "bound_here c s"
    using s boundState_valid(2) [OF c(1) s(1)] boundState_read [OF c(1), of w s] by simp_all
  then show ?thesis using s by (auto simp: recovery_state_def intro!: runs_pure)
next
  case False
  show ?thesis
    unfolding recovery_state_def if_not_P [OF False]
    by (rule runs_from_journal, rule runs_new_recovery [OF c w]) (simp_all add: journal_state)
qed

lemma rebind_validates: "rebindStableLocked c t w w = Inr t' \<Longrightarrow> ValidateStable c t' w w"
  by (auto simp: rebindStableLocked_def ValidateStable_def matchesLocked_def AlreadyRecovered_def witness_of_def split: sum.splits if_splits)

lemma finish_witness_runs:
  assumes "runs m w C E (\<lambda>_. P)"
  shows "runs (finishRemovalWitnessRecoveryLocked c witness m) w C (\<lambda>_ _. True) (\<lambda>v x. P x \<and> (\<forall>t. v = Some t \<longrightarrow> ValidateStable c t x x))"
  unfolding finishRemovalWitnessRecoveryLocked_def
proof (rule runs_step_or [OF assms])
  fix u x
  assume "P x"
  show "runs (case witness of None \<Rightarrow> return_value None
      | Some t \<Rightarrow> step_or (pure_step (\<lambda>w. rebindStableLocked c t w w)) (\<lambda>_. fail_with ErrRecovery) (\<lambda>t'. return_value (Some t'))) x
      C (\<lambda>_ _. True) (\<lambda>v x. P x \<and> (\<forall>t. v = Some t \<longrightarrow> ValidateStable c t x x))"
  proof (cases witness)
    case (Some t)
    have "runs (step_or (pure_step (\<lambda>w. rebindStableLocked c t w w)) (\<lambda>_. fail_with ErrRecovery) (\<lambda>t'. return_value (Some t'))) x
        C (\<lambda>_ _. True) (\<lambda>v x. P x \<and> (\<forall>t. v = Some t \<longrightarrow> ValidateStable c t x x))"
      by (rule runs_step_or [where E' = "\<lambda>_ _. True" and Q' = "\<lambda>t' y. y = x \<and> ValidateStable c t' x x"])
        (use \<open>P x\<close> in \<open>auto simp: runs_fail intro!: runs_pure runs_value dest: rebind_validates split: sum.split\<close>)
    then show ?thesis using Some by simp
  qed (use \<open>P x\<close> in \<open>simp add: runs_value\<close>)
qed (simp add: runs_fail)

lemma Recover_cases:
  assumes "Recover c io witness action exited w = (trace, r)"
  obtains (refused) "trace = []" "isl r"
  | (observed) "action = RecoveryComplete"
      "finishRemovalWitnessRecoveryLocked c witness (recoverObservedLocked c io (boundState c w) exited) w = (trace, r)"
  | (gateway) j where "loadJournal (ct_env c) (wd_disk w) = Inr (Some j)" "tj_Kind j = KindGatewayReload"
      "step_or (recoverGatewayLocked c (ro_gateway io) (boundState c w) j action) fail_with (\<lambda>_. return_value witness) w = (trace, r)"
  | (journal) j where "loadJournal (ct_env c) (wd_disk w) = Inr (Some j)" "tj_Kind j \<noteq> KindGatewayReload"
      "step_or (recovery_state c io (boundState c w) j) fail_with (\<lambda>s.
         case recovery_target action s j of
           None \<Rightarrow> fail_with ErrRecovery
         | Some target \<Rightarrow>
             if \<not> exited then fail_with (RoutingErr ErrDesktopExitConfirmation)
             else finishRemovalWitnessRecoveryLocked c witness
               (applyRecoveryLockedWithOriginAuthority c io s target (tj_OriginAuthoritative j) (tj_KnownLegacy j))) w = (trace, r)"
proof (cases "trace = [] \<and> isl r")
  case False
  note e1 = early_return [OF assms [unfolded Recover_def Let_def] False, THEN conjunct2]
  note e2 = early_return [OF e1 False, THEN conjunct2]
  note e3 = early_return [OF e2 False, THEN conjunct2]
  note e4 = early_return [OF e3 False, THEN conjunct2]
  note e5 = early_return [OF e4 False, THEN conjunct2]
  note e6 = early_return [OF e5 False, THEN conjunct2]
  show ?thesis
  proof (cases "loadJournal (ct_env c) (wd_disk w)")
    case (Inl e)
    from early_return [OF e6 [unfolded Inl sum.case] False] observed show ?thesis by blast
  next
    case (Inr found)
    show ?thesis
    proof (cases found)
      case None
      note n = early_return [OF e6 [unfolded Inr None sum.case option.case] False]
      then show ?thesis using observed False by (auto split: if_splits)
    next
      case (Some j)
      note n = early_return [OF e6 [unfolded Inr Some sum.case option.case] False, THEN conjunct2]
      show ?thesis
      proof (cases "tj_Kind j = KindGatewayReload")
        case True
        from early_return [OF n [unfolded if_P [OF True]] False] gateway Inr Some True show ?thesis by blast
      next
        case kind: False
        from n [unfolded if_not_P [OF kind]] journal Inr Some kind show ?thesis by blast
      qed
    qed
  qed
qed (use refused in blast)

lemma loaded_gateway_origin:
  assumes "loadJournal env d = Inr (Some j)"
  shows "dk_journal d \<noteq> FileAbsent" "tj_Kind j = KindGatewayReload \<Longrightarrow> tj_OriginBackend j = BackendExternal"
  using assms by (auto simp: loadJournal_def transaction_validate_def Let_def split: sum.splits option.splits if_splits json_decode.splits)

lemma target_choice:
  "recovery_target action s j = Some b \<Longrightarrow> validBackend b \<and> (action = RecoveryRollback \<longrightarrow> b = tj_OriginBackend j \<and> tj_OriginAuthoritative j)"
  by (auto simp: recovery_target_def Let_def split: if_splits)

text \<open>What a recovery from the journal \<open>j\<close> may claim when it returns \<open>v\<close> in the world \<open>x\<close>.\<close>

definition recovery_done :: "controller \<Rightarrow> recovery_action \<Rightarrow> transaction_journal \<Rightarrow> removal_witness option \<Rightarrow> world \<Rightarrow> bool" where
  "recovery_done c action j v x \<longleftrightarrow>
     (\<exists>b. validBackend b \<and> recovered c b x \<and> (action = RecoveryRollback \<longrightarrow> b = tj_OriginBackend j \<and> tj_OriginAuthoritative j)) \<and>
     (\<forall>t. v = Some t \<longrightarrow> ValidateStable c t x x)"

lemma journal_recovery_runs:
  assumes c: "controller_bound c" "installation_faithful c" and w: "dk_journal (wd_disk w) \<noteq> FileAbsent"
  shows "runs (step_or (recovery_state c io (boundState c w) j) fail_with (\<lambda>s.
      case recovery_target action s j of
        None \<Rightarrow> fail_with ErrRecovery
      | Some target \<Rightarrow>
          if \<not> exited then fail_with (RoutingErr ErrDesktopExitConfirmation)
          else finishRemovalWitnessRecoveryLocked c witness
            (applyRecoveryLockedWithOriginAuthority c io s target (tj_OriginAuthoritative j) (tj_KnownLegacy j)))) w
    (recovery_world c w) (\<lambda>_ _. True) (recovery_done c action j)"
    (is "runs _ _ ?C _ ?Q")
proof (rule runs_step_or [where E' = "\<lambda>_ _. True" and Q' = "\<lambda>s x. bound_here c s \<and> in_recovery c x"])
  show "runs (recovery_state c io (boundState c w) j) w ?C (\<lambda>_ _. True) (\<lambda>s x. bound_here c s \<and> in_recovery c x)"
    by (rule runs_mono [OF recovery_state_runs [OF c w]]) (simp_all add: recovery_world_def)
  fix s x
  assume x: "bound_here c s \<and> in_recovery c x"
  have "runs (finishRemovalWitnessRecoveryLocked c witness
      (applyRecoveryLockedWithOriginAuthority c io s b (tj_OriginAuthoritative j) (tj_KnownLegacy j))) x ?C (\<lambda>_ _. True) ?Q"
    if b: "recovery_target action s j = Some b" for b
    by (rule runs_mono [OF finish_witness_runs [OF applyRecovery_runs [OF c]]])
      (use x target_choice [OF b] in \<open>auto simp: recovery_world_def recovery_done_def\<close>)
  then show "runs (case recovery_target action s j of
        None \<Rightarrow> fail_with ErrRecovery
      | Some target \<Rightarrow>
          if \<not> exited then fail_with (RoutingErr ErrDesktopExitConfirmation)
          else finishRemovalWitnessRecoveryLocked c witness
            (applyRecoveryLockedWithOriginAuthority c io s target (tj_OriginAuthoritative j) (tj_KnownLegacy j))) x ?C (\<lambda>_ _. True) ?Q"
    by (auto simp: runs_fail split: option.split)
qed (simp add: runs_fail)

text \<open>C38: recovery is crash safe. Whatever write of \<open>Recover\<close> is the last one before a crash, it has left
  state, journal and files as they were, or the relay admits no traffic, or it stands in a stable
  state that names one backend as desired and applied, without a journal. A successful recovery ends
  in such a state; a rollback ends on the origin that its journal records, and only if the journal is
  authoritative for it (a gateway change has no other origin than the gateway); and the witness of a
  removal that is returned then proves exactly the world it is returned in.\<close>

theorem Recover_crash_safe:
  assumes "Recover c io witness action exited w = (trace, r)" "controller_bound c" "installation_faithful c"
  shows "(\<forall>x \<in> set trace.
      (wd_files x = wd_files w \<and> dk_state (wd_disk x) = dk_state (wd_disk w) \<and> dk_journal (wd_disk x) = dk_journal (wd_disk w)) \<or>
      (\<forall>g. \<not> snapshot_AllowsDataPlane (Refresh (ct_env c) (ct_store c) g (wd_disk x))) \<or> (\<exists>b. recovered c b x)) \<and>
    (\<forall>v. r = Inr v \<longrightarrow>
      (\<exists>b. validBackend b \<and> recovered c b (final_world w trace) \<and>
        (action = RecoveryRollback \<longrightarrow> (\<exists>j. loadJournal (ct_env c) (wd_disk w) = Inr (Some j) \<and> b = tj_OriginBackend j \<and>
          (tj_OriginAuthoritative j \<or> tj_Kind j = KindGatewayReload)))) \<and>
      (\<forall>t. v = Some t \<longrightarrow> ValidateStable c t (final_world w trace) (final_world w trace) \<or>
        (\<exists>j. loadJournal (ct_env c) (wd_disk w) = Inr (Some j) \<and> tj_Kind j = KindGatewayReload)))"
    (is "?worlds \<and> ?result")
  using assms(1)
proof (cases rule: Recover_cases)
  case observed
  note run = finish_witness_runs [OF observed_runs [OF assms(2,3), of io "boundState c w" exited w], of c witness, unfolded runs_def observed(2) fst_conv snd_conv]
  show ?thesis using run observed(1) by (cases r) (auto simp: recovery_world_def untouched_def parked_def)
next
  case (gateway j)
  note origin = loaded_gateway_origin [OF gateway(1)]
  have "runs (step_or (recoverGatewayLocked c (ro_gateway io) (boundState c w) j action) fail_with (\<lambda>_. return_value witness)) w
      (\<lambda>x. parked c x \<or> recovered c BackendExternal x) (\<lambda>_ _. True) (\<lambda>_ x. recovered c BackendExternal x)"
    by (rule runs_step_or [OF gateway_recovery_runs [OF assms(2,3) origin(1) refl]]) (simp_all add: runs_fail runs_value)
  from this [unfolded runs_def gateway(3) fst_conv snd_conv] show ?thesis
    using gateway(1,2) origin(2) by (cases r) (auto simp: parked_def validBackend_def)
next
  case (journal j)
  note run = journal_recovery_runs [OF assms(2,3) loaded_gateway_origin(1) [OF journal(1)], where witness = witness and action = action and exited = exited and io = io and j = j,
      unfolded runs_def journal(3) fst_conv snd_conv]
  show ?thesis using run journal(1) by (cases r) (auto simp: recovery_done_def recovery_world_def untouched_def parked_def)
qed (auto simp: isl_def)

section \<open>An example\<close>

definition example_recover_io :: recover_io where
  "example_recover_io = \<lparr>ro_switch = example_switch_io,
     ro_gateway = \<lparr>gv_replace1 = (True, True), gv_write = (True, True), gv_replace2 = (True, True), gv_journal = True, gv_parked = [],
       gv_runtime = True, gv_final = (True, True), gv_remove = True, gv_finalized = [], gv_journal2 = True, gv_cleanup = good_backup_io,
       gv_park = (True, True)\<rparr>,
     ro_hasGate = False, ro_replace1 = (True, True), ro_replace2 = (True, True)\<rparr>"

lemma example_installation_faithful: "installation_faithful example_controller"
proof -
  have "canonicalCodexConfigPath None ''/c'' = Inr ''/c''" by code_simp
  then show ?thesis
    using wide_faithful by (simp add: installation_faithful_def example_controller_def wide_env_def example_env_def example_store_def)
qed

theorem Recover_crash_safe_witness:
  "let w = example_world (example_state PhaseRecoveryRequired BackendNone BackendExternal 4);
       run = Recover example_controller example_recover_io None RecoveryComplete True w
   in \<forall>x \<in> set (fst run).
      (wd_files x = wd_files w \<and> dk_state (wd_disk x) = dk_state (wd_disk w) \<and> dk_journal (wd_disk x) = dk_journal (wd_disk w)) \<or>
      (\<forall>g. \<not> snapshot_AllowsDataPlane (Refresh wide_env example_store g (wd_disk x))) \<or> (\<exists>b. recovered example_controller b x)"
proof -
  have c: "ct_env example_controller = wide_env" "ct_store example_controller = example_store" by (simp_all add: example_controller_def)
  show ?thesis
    using Recover_crash_safe [OF prod.collapse [symmetric] example_controller_bound example_installation_faithful, unfolded c, THEN conjunct1]
    unfolding Let_def by blast
qed

end
