(* ===== verification/Responses_Scan.thy ===== *)
theory Responses_Scan
  imports Go_Strings
begin

text \<open>
  The scanner of \<open>responses/request.go\<close>: one pass over the bytes of a Responses request that finds the
  model, the position of the \<open>stream\<close> flag and the hosted tools, and refuses everything that is not one
  JSON object. Reading a byte is taking the first element of what is left; \<open>offset\<close> of the source is
  the size of the body less the length of what is left. All errors of the scanner are wrapped into
  \<open>ErrMalformedRequest\<close>; their texts are not modelled. The recursion carries fuel, and
  \<open>request_fuel_enough\<close> shows that twice the length of the body is enough.
\<close>

datatype scan_failure = MalformedRequest | ScannerOutOfFuel

definition andThen :: "('e, 'a) result \<Rightarrow> ('a \<Rightarrow> ('e, 'b) result) \<Rightarrow> ('e, 'b) result" where
  "andThen m k = (case m of Inl e \<Rightarrow> Inl e | Inr x \<Rightarrow> k x)"

section \<open>Lexical functions\<close>

definition isHex :: "char \<Rightarrow> bool" where
  "isHex c \<longleftrightarrow> is_digit c \<or> (CHR ''a'' \<le> c \<and> c \<le> CHR ''f'') \<or> (CHR ''A'' \<le> c \<and> c \<le> CHR ''F'')"

definition json_space :: "char \<Rightarrow> bool" where
  "json_space c \<longleftrightarrow> c = CHR '' '' \<or> c = CHR 0x09 \<or> c = CHR 0x0D \<or> c = CHR 0x0A"

definition skipWhitespace :: "string \<Rightarrow> string" where
  "skipWhitespace s = dropWhile json_space s"

definition expect :: "char \<Rightarrow> string \<Rightarrow> (scan_failure, string) result" where
  "expect c s = (case s of [] \<Rightarrow> Inl MalformedRequest | x # r \<Rightarrow> if x = c then Inr r else Inl MalformedRequest)"

fun consumeLiteral :: "string \<Rightarrow> string \<Rightarrow> (scan_failure, string) result" where
  "consumeLiteral [] s = Inr s"
| "consumeLiteral (c # cs) s = andThen (expect c s) (consumeLiteral cs)"

definition consumeDigits :: "string \<Rightarrow> (scan_failure, string) result" where
  "consumeDigits s = (if takeWhile is_digit s = [] then Inl MalformedRequest else Inr (dropWhile is_digit s))"

text \<open>The next byte, if there is one, satisfies \<open>P\<close>.\<close>

definition peeks :: "(char \<Rightarrow> bool) \<Rightarrow> string \<Rightarrow> bool" where
  "peeks P s \<longleftrightarrow> (case s of [] \<Rightarrow> False | c # _ \<Rightarrow> P c)"

definition integer_part :: "string \<Rightarrow> (scan_failure, string) result" where
  "integer_part s =
     (if peeks (\<lambda>c. c = CHR ''0'') s then
        (if peeks is_digit (tl s) then Inl MalformedRequest else Inr (tl s))
      else if peeks is_digit s then Inr (dropWhile is_digit s)
      else Inl MalformedRequest)"

definition fraction_part :: "string \<Rightarrow> (scan_failure, string) result" where
  "fraction_part s = (if peeks (\<lambda>c. c = CHR ''.'') s then consumeDigits (tl s) else Inr s)"

definition exponent_part :: "string \<Rightarrow> (scan_failure, string) result" where
  "exponent_part s =
     (if peeks (\<lambda>c. c = CHR ''e'' \<or> c = CHR ''E'') s then
        consumeDigits (if peeks (\<lambda>c. c = CHR ''+'' \<or> c = CHR ''-'') (tl s) then tl (tl s) else tl s)
      else Inr s)"

definition parseNumber :: "string \<Rightarrow> (scan_failure, string) result" where
  "parseNumber s =
     andThen (integer_part (if peeks (\<lambda>c. c = CHR ''-'') s then tl s else s)) (\<lambda>r.
     andThen (fraction_part r) exponent_part)"

text \<open>The captured bytes of a string, \<open>None\<close> once they exceed the limit.\<close>

definition capture :: "nat \<Rightarrow> string option \<Rightarrow> char \<Rightarrow> string option" where
  "capture limit raw c = (case raw of None \<Rightarrow> None | Some b \<Rightarrow> if length b \<ge> limit + 1 then None else Some (b @ [c]))"

fun stringLoop :: "nat \<Rightarrow> string option \<Rightarrow> string \<Rightarrow> (scan_failure, string option \<times> string) result" where
  "stringLoop limit raw [] = Inl MalformedRequest"
| "stringLoop limit raw (c # s) =
     (let raw1 = capture limit raw c in
      if c = CHR 0x22 then Inr (raw1, s)
      else if (of_char c :: nat) < 0x20 then Inl MalformedRequest
      else if c \<noteq> CHR 0x5C then stringLoop limit raw1 s
      else (case s of
        [] \<Rightarrow> Inl MalformedRequest
      | e # s1 \<Rightarrow>
          let raw2 = capture limit raw1 e in
          if e \<in> {CHR 0x22, CHR 0x5C, CHR ''/'', CHR ''b'', CHR ''f'', CHR ''n'', CHR ''r'', CHR ''t''} then stringLoop limit raw2 s1
          else if e = CHR ''u'' then
            (case s1 of
               h1 # h2 # h3 # h4 # s2 \<Rightarrow>
                 if isHex h1 \<and> isHex h2 \<and> isHex h3 \<and> isHex h4
                 then stringLoop limit (capture limit (capture limit (capture limit (capture limit raw2 h1) h2) h3) h4) s2
                 else Inl MalformedRequest
             | _ \<Rightarrow> Inl MalformedRequest)
          else Inl MalformedRequest))"

section \<open>Decoding a string literal\<close>

text \<open>What \<open>json.Unmarshal\<close> makes of the bytes between the quotes, once the scanner has checked the
  escapes: \<open>\\u\<close> escapes become UTF-8, surrogate pairs are joined, and what is neither a pair nor valid
  UTF-8 becomes the replacement character.\<close>

definition hex_val :: "char \<Rightarrow> nat" where
  "hex_val c = (if is_digit c then of_char c - 48 else if CHR ''a'' \<le> c then of_char c - 87 else of_char c - 55)"

definition getu4 :: "char \<Rightarrow> char \<Rightarrow> char \<Rightarrow> char \<Rightarrow> nat" where
  "getu4 a b c d = ((hex_val a * 16 + hex_val b) * 16 + hex_val c) * 16 + hex_val d"

definition utf8_encode :: "nat \<Rightarrow> string" where
  "utf8_encode r =
     (if r < 0x80 then [char_of r]
      else if r < 0x800 then [char_of (0xC0 + r div 64), char_of (0x80 + r mod 64)]
      else if r < 0x10000 then [char_of (0xE0 + r div 4096), char_of (0x80 + r div 64 mod 64), char_of (0x80 + r mod 64)]
      else [char_of (0xF0 + r div 262144), char_of (0x80 + r div 4096 mod 64), char_of (0x80 + r div 64 mod 64), char_of (0x80 + r mod 64)])"

definition replacement :: string where "replacement = [CHR 0xEF, CHR 0xBF, CHR 0xBD]"

definition byte_in :: "nat \<Rightarrow> nat \<Rightarrow> char \<Rightarrow> bool" where
  "byte_in lo hi c \<longleftrightarrow> lo \<le> of_char c \<and> of_char c \<le> hi"

text \<open>The length of the valid encoding that the string starts with, 0 if there is none.\<close>

definition rune_width :: "string \<Rightarrow> nat" where
  "rune_width s =
     (case s of
        a # b # r \<Rightarrow>
          if byte_in 0xC2 0xDF a \<and> byte_in 0x80 0xBF b then 2
          else (case r of
            c # r' \<Rightarrow>
              if (byte_in 0xE0 0xE0 a \<and> byte_in 0xA0 0xBF b \<or> byte_in 0xE1 0xEC a \<and> byte_in 0x80 0xBF b \<or>
                  byte_in 0xED 0xED a \<and> byte_in 0x80 0x9F b \<or> byte_in 0xEE 0xEF a \<and> byte_in 0x80 0xBF b) \<and> byte_in 0x80 0xBF c then 3
              else (case r' of
                d # _ \<Rightarrow>
                  if (byte_in 0xF0 0xF0 a \<and> byte_in 0x90 0xBF b \<or> byte_in 0xF1 0xF3 a \<and> byte_in 0x80 0xBF b \<or>
                      byte_in 0xF4 0xF4 a \<and> byte_in 0x80 0x8F b) \<and> byte_in 0x80 0xBF c \<and> byte_in 0x80 0xBF d then 4 else 0
              | [] \<Rightarrow> 0)
          | [] \<Rightarrow> 0)
      | _ \<Rightarrow> 0)"

fun escape_char :: "char \<Rightarrow> char" where
  "escape_char c =
     (if c = CHR ''b'' then CHR 0x08 else if c = CHR ''f'' then CHR 0x0C else if c = CHR ''n'' then CHR 0x0A
      else if c = CHR ''r'' then CHR 0x0D else if c = CHR ''t'' then CHR 0x09 else c)"

definition low_surrogate :: "string \<Rightarrow> nat option" where
  "low_surrogate s =
     (case s of
        x # y # a # b # c # d # _ \<Rightarrow>
          if x = CHR 0x5C \<and> y = CHR ''u'' \<and> 0xDC00 \<le> getu4 a b c d \<and> getu4 a b c d \<le> 0xDFFF then Some (getu4 a b c d) else None
      | _ \<Rightarrow> None)"

function unescape :: "string \<Rightarrow> string" where
  "unescape s =
     (case s of
        [] \<Rightarrow> []
      | c # r \<Rightarrow>
          if c = CHR 0x5C then
            (case r of
               [] \<Rightarrow> []
             | e # r1 \<Rightarrow>
                 if e = CHR ''u'' then
                   (case r1 of
                      a # b # c # d # r2 \<Rightarrow>
                        let u = getu4 a b c d in
                        if 0xD800 \<le> u \<and> u \<le> 0xDFFF then
                          (case (if u \<le> 0xDBFF then low_surrogate r2 else None) of
                             Some l \<Rightarrow> utf8_encode (0x10000 + (u - 0xD800) * 1024 + (l - 0xDC00)) @ unescape (drop 6 r2)
                           | None \<Rightarrow> replacement @ unescape r2)
                        else utf8_encode u @ unescape r2
                    | _ \<Rightarrow> [])
                 else escape_char e # unescape r1)
          else if is_ascii c then c # unescape r
          else if rune_width s = 0 then replacement @ unescape r
          else take (rune_width s) s @ unescape (drop (rune_width s - 1) r))"
  by pat_completeness auto
termination by (relation "measure length") (auto simp: rune_width_def split: if_splits list.splits)

declare unescape.simps [simp del]

text \<open>The captured bytes include both quotes.\<close>

definition unquote :: "string \<Rightarrow> string" where
  "unquote raw = unescape (butlast (tl raw))"

definition parseString :: "nat \<Rightarrow> string \<Rightarrow> (scan_failure, string option \<times> string) result" where
  "parseString captureLimit s =
     andThen (expect (CHR 0x22) s) (\<lambda>r.
     andThen (stringLoop captureLimit (Some [CHR 0x22]) r) (\<lambda>(raw, r'). Inr (map_option unquote raw, r')))"

section \<open>The scan\<close>

record request_scan =
  sc_model :: string
  sc_modelSeen :: bool
  sc_streamSeen :: bool
  sc_stream :: bool
  sc_streamStart :: nat
  sc_streamEnd :: nat
  sc_hostedImage :: bool
  sc_hostedComputer :: bool
  sc_hostedComputerOutput :: bool

datatype value_kind = ValueOther | ValueString | ValueBool

record value_info =
  vi_kind :: value_kind
  vi_text :: string
  vi_bool :: bool
  vi_start :: nat
  vi_end :: nat

record value_context =
  vc_inInput :: bool
  vc_toolArray :: bool
  vc_toolEntry :: bool

definition empty_scan :: request_scan where
  "empty_scan = \<lparr>sc_model = [], sc_modelSeen = False, sc_streamSeen = False, sc_stream = False, sc_streamStart = 0, sc_streamEnd = 0,
     sc_hostedImage = False, sc_hostedComputer = False, sc_hostedComputerOutput = False\<rparr>"

definition no_context :: value_context where
  "no_context = \<lparr>vc_inInput = False, vc_toolArray = False, vc_toolEntry = False\<rparr>"

definition child_context :: "value_context \<Rightarrow> bool \<Rightarrow> string \<Rightarrow> value_context" where
  "child_context ctx root key =
     \<lparr>vc_inInput = (vc_inInput ctx \<or> root \<and> key = ''input''),
      vc_toolArray = (key = ''tools'' \<and> (root \<or> vc_inInput ctx)),
      vc_toolEntry = (root \<and> key = ''tool_choice'')\<rparr>"

definition element_context :: "value_context \<Rightarrow> value_context" where
  "element_context ctx = \<lparr>vc_inInput = vc_inInput ctx, vc_toolArray = False, vc_toolEntry = vc_toolArray ctx\<rparr>"

definition image_types :: "string list" where "image_types = [''image_generation'', ''image_gen'']"

definition computer_types :: "string list" where "computer_types = [''computer'', ''computer_use_preview'']"

definition note_types :: "value_context \<Rightarrow> string \<Rightarrow> value_info \<Rightarrow> request_scan \<Rightarrow> request_scan" where
  "note_types ctx key v res =
     (let typed = (key = ''type'' \<and> vi_kind v = ValueString);
          res1 = (if vc_toolEntry ctx \<and> typed then
                    (if vi_text v \<in> set image_types then res\<lparr>sc_hostedImage := True\<rparr>
                     else if vi_text v \<in> set computer_types then res\<lparr>sc_hostedComputer := True\<rparr> else res)
                  else res) in
      if vc_inInput ctx \<and> typed \<and> vi_text v = ''computer_call_output'' then res1\<lparr>sc_hostedComputerOutput := True\<rparr> else res1)"

definition note_root :: "string \<Rightarrow> value_info \<Rightarrow> request_scan \<Rightarrow> (scan_failure, request_scan) result" where
  "note_root key v res =
     (if key = ''model'' then
        (if sc_modelSeen res \<or> vi_kind v \<noteq> ValueString \<or> vi_text v = [] then Inl MalformedRequest
         else Inr (res\<lparr>sc_modelSeen := True, sc_model := vi_text v\<rparr>))
      else if key = ''stream'' then
        (if sc_streamSeen res \<or> vi_kind v \<noteq> ValueBool then Inl MalformedRequest
         else Inr (res\<lparr>sc_streamSeen := True, sc_stream := vi_bool v, sc_streamStart := vi_start v, sc_streamEnd := vi_end v\<rparr>))
      else Inr res)"

definition note_member :: "value_context \<Rightarrow> bool \<Rightarrow> string \<Rightarrow> value_info \<Rightarrow> request_scan \<Rightarrow> (scan_failure, request_scan) result" where
  "note_member ctx root key v res =
     andThen (if root then note_root key v res else Inr res) (\<lambda>res1. Inr (note_types ctx key v res1))"

text \<open>\<open>enter\<close> and the look for the closing byte: whether the container is empty, and what is left.\<close>

definition open_container :: "char \<Rightarrow> char \<Rightarrow> nat \<Rightarrow> string \<Rightarrow> (scan_failure, bool \<times> string) result" where
  "open_container opening closing depth s =
     (if depth \<ge> 512 then Inl MalformedRequest
      else andThen (expect opening s) (\<lambda>r.
        let r1 = skipWhitespace r in
        if peeks (\<lambda>c. c = closing) r1 then Inr (True, tl r1) else Inr (False, r1)))"

text \<open>After a member or an element: whether the container ends here.\<close>

definition separator :: "char \<Rightarrow> string \<Rightarrow> (scan_failure, bool \<times> string) result" where
  "separator closing s =
     (case skipWhitespace s of
        [] \<Rightarrow> Inl MalformedRequest
      | c # r \<Rightarrow> if c = closing then Inr (True, r) else if c = CHR '','' then Inr (False, skipWhitespace r) else Inl MalformedRequest)"

text \<open>A key and the colon after it; a key that is too long to be captured reads as the empty one.\<close>

definition parseKey :: "string \<Rightarrow> (scan_failure, string \<times> string) result" where
  "parseKey s =
     andThen (parseString 256 s) (\<lambda>(key, r).
     andThen (expect (CHR '':'') (skipWhitespace r)) (\<lambda>r1. Inr (case key of None \<Rightarrow> [] | Some k \<Rightarrow> k, r1)))"

function (sequential) parseValue :: "nat \<Rightarrow> nat \<Rightarrow> nat \<Rightarrow> value_context \<Rightarrow> bool \<Rightarrow> string \<Rightarrow> request_scan \<Rightarrow>
    (scan_failure, value_info \<times> string \<times> request_scan) result"
and parseObject :: "nat \<Rightarrow> nat \<Rightarrow> nat \<Rightarrow> value_context \<Rightarrow> bool \<Rightarrow> string \<Rightarrow> request_scan \<Rightarrow>
    (scan_failure, string \<times> request_scan) result"
and parseArray :: "nat \<Rightarrow> nat \<Rightarrow> nat \<Rightarrow> value_context \<Rightarrow> string \<Rightarrow> request_scan \<Rightarrow>
    (scan_failure, string \<times> request_scan) result" where
  "parseValue 0 len depth ctx root s res = Inl ScannerOutOfFuel"
| "parseValue (Suc n) len depth ctx root s res =
     (let s1 = skipWhitespace s;
          info = (\<lambda>kind text b r. \<lparr>vi_kind = kind, vi_text = text, vi_bool = b, vi_start = len - length s1, vi_end = len - length r\<rparr>);
          other = (\<lambda>(r, res'). Inr (info ValueOther [] False r, r, res')) in
      case s1 of
        [] \<Rightarrow> Inl MalformedRequest
      | c # _ \<Rightarrow>
          if c = CHR ''{'' then
            andThen (open_container c (CHR ''}'') depth s1) (\<lambda>(empty, r).
              if empty then other (r, res) else andThen (parseObject n len (depth + 1) ctx root r res) other)
          else if c = CHR ''['' then
            andThen (open_container c (CHR '']'') depth s1) (\<lambda>(empty, r).
              if empty then other (r, res) else andThen (parseArray n len (depth + 1) ctx r res) other)
          else if c = CHR 0x22 then
            andThen (parseString 4096 s1) (\<lambda>(text, r).
              Inr (info ValueString (case text of None \<Rightarrow> [] | Some t \<Rightarrow> t) False r, r, res))
          else if c = CHR ''t'' then andThen (consumeLiteral ''true'' s1) (\<lambda>r. Inr (info ValueBool [] True r, r, res))
          else if c = CHR ''f'' then andThen (consumeLiteral ''false'' s1) (\<lambda>r. Inr (info ValueBool [] False r, r, res))
          else if c = CHR ''n'' then andThen (consumeLiteral ''null'' s1) (\<lambda>r. other (r, res))
          else if c = CHR ''-'' \<or> is_digit c then andThen (parseNumber s1) (\<lambda>r. other (r, res))
          else Inl MalformedRequest)"
| "parseObject 0 len depth ctx root s res = Inl ScannerOutOfFuel"
| "parseObject (Suc n) len depth ctx root s res =
     andThen (parseKey s) (\<lambda>(key, r1).
     andThen (parseValue n len depth (child_context ctx root key) False r1 res) (\<lambda>(v, r2, res1).
     andThen (note_member ctx root key v res1) (\<lambda>res2.
     andThen (separator (CHR ''}'') r2) (\<lambda>(end_here, r3).
       if end_here then Inr (r3, res2) else parseObject n len depth ctx root r3 res2))))"
| "parseArray 0 len depth ctx s res = Inl ScannerOutOfFuel"
| "parseArray (Suc n) len depth ctx s res =
     andThen (parseValue n len depth (element_context ctx) False s res) (\<lambda>(v, r1, res1).
     andThen (separator (CHR '']'') r1) (\<lambda>(end_here, r2).
       if end_here then Inr (r2, res1) else parseArray n len depth ctx r2 res1))"
  by pat_completeness auto
termination by (relation "measure (case_sum fst (case_sum fst fst))") auto

definition scan_fuel :: "string \<Rightarrow> nat" where "scan_fuel raw = 2 * length raw + 2"

definition scanResponsesRequest :: "string \<Rightarrow> (scan_failure, request_scan) result" where
  "scanResponsesRequest raw =
     (let s = skipWhitespace raw in
      if \<not> peeks (\<lambda>c. c = CHR ''{'') s then Inl MalformedRequest
      else andThen (parseValue (scan_fuel raw) (length raw) 0 no_context True s empty_scan) (\<lambda>(_, r, res).
        if skipWhitespace r = [] then Inr res else Inl MalformedRequest))"

section \<open>What the lexical functions read\<close>

lemma andThen_simps [simp]: "andThen (Inl e) k = Inl e" "andThen (Inr x) k = k x"
  by (simp_all add: andThen_def)

lemma andThen_Inr: "andThen m k = Inr y \<longleftrightarrow> (\<exists>x. m = Inr x \<and> k x = Inr y)"
  by (cases m) auto

lemma andThen_assoc: "andThen (andThen m f) g = andThen m (\<lambda>x. andThen (f x) g)"
  by (cases m) auto

text \<open>A parser that reads \<open>u\<close> of \<open>u @ r\<close> and would do the same before any other rest, or before any
  other rest that starts with the same byte.\<close>

definition same_head :: "string \<Rightarrow> string \<Rightarrow> bool" where
  "same_head r r' \<longleftrightarrow> (r = [] \<longleftrightarrow> r' = []) \<and> (r \<noteq> [] \<longrightarrow> hd r = hd r')"

definition reads_exactly :: "(string \<Rightarrow> (scan_failure, 'a \<times> string) result) \<Rightarrow> bool" where
  "reads_exactly p \<longleftrightarrow> (\<forall>s x r. p s = Inr (x, r) \<longrightarrow> (\<exists>u. u \<noteq> [] \<and> s = u @ r \<and> (\<forall>r'. p (u @ r') = Inr (x, r'))))"

definition looks_ahead :: "(string \<Rightarrow> (scan_failure, 'a \<times> string) result) \<Rightarrow> bool" where
  "looks_ahead p \<longleftrightarrow> (\<forall>s x r. p s = Inr (x, r) \<longrightarrow> (\<exists>u. u \<noteq> [] \<and> s = u @ r \<and> (\<forall>r'. same_head r r' \<longrightarrow> p (u @ r') = Inr (x, r'))))"

lemma reads_exactlyE:
  assumes "reads_exactly p" "p s = Inr (x, r)"
  obtains u where "u \<noteq> []" "s = u @ r" "\<And>r'. p (u @ r') = Inr (x, r')"
  using assms unfolding reads_exactly_def by blast

lemma looks_aheadE:
  assumes "looks_ahead p" "p s = Inr (x, r)"
  obtains u where "u \<noteq> []" "s = u @ r" "\<And>r'. same_head r r' \<Longrightarrow> p (u @ r') = Inr (x, r')"
  using assms unfolding looks_ahead_def by blast

lemma exact_looks_ahead: "reads_exactly p \<Longrightarrow> looks_ahead p"
  unfolding reads_exactly_def looks_ahead_def by blast

lemma same_head_append: "u \<noteq> [] \<Longrightarrow> same_head (u @ r) (u @ r')"
  by (simp add: same_head_def)

lemma same_head_sym: "same_head r r' \<Longrightarrow> same_head r' r"
  by (auto simp: same_head_def)

lemma peeks_same: "same_head r r' \<Longrightarrow> peeks P r = peeks P r'"
  by (cases r; cases r') (auto simp: same_head_def peeks_def)

lemma skip_split:
  obtains u where "s = u @ skipWhitespace s" "\<And>r'. same_head (skipWhitespace s) r' \<Longrightarrow> skipWhitespace (u @ r') = r'"
proof -
  let ?u = "takeWhile json_space s"
  have "skipWhitespace (?u @ r') = r'" if "same_head (skipWhitespace s) r'" for r'
  proof -
    have "\<not> peeks json_space (skipWhitespace s)"
      using hd_dropWhile [of json_space s]
      by (cases "dropWhile json_space s") (simp_all add: skipWhitespace_def peeks_def del: dropWhile_eq_Nil_conv)
    then have "dropWhile json_space r' = r'" using peeks_same [OF that, of json_space] by (cases r') (auto simp: peeks_def)
    moreover have "dropWhile json_space (?u @ r') = dropWhile json_space r'" by (rule dropWhile_append2) (auto dest: set_takeWhileD)
    ultimately show ?thesis by (simp add: skipWhitespace_def)
  qed
  then show thesis using that [of ?u] by (simp add: skipWhitespace_def)
qed

lemma skip_idem [simp]: "skipWhitespace (skipWhitespace s) = skipWhitespace s"
  by (simp add: skipWhitespace_def)

lemma skip_fixed: "\<not> json_space c \<Longrightarrow> skipWhitespace (c # s) = c # s"
  by (simp add: skipWhitespace_def)

lemma skip_length: "length (skipWhitespace s) \<le> length s"
  by (simp add: skipWhitespace_def length_dropWhile_le)

lemma expect_iff: "expect c s = Inr r \<longleftrightarrow> s = c # r"
  by (auto simp: expect_def split: list.splits)

lemma consumeLiteral_iff: "consumeLiteral l s = Inr r \<longleftrightarrow> s = l @ r"
  by (induction l arbitrary: s) (auto simp: andThen_Inr expect_iff)

lemma stringLoop_exact: "stringLoop limit raw s = Inr (x, r) \<Longrightarrow> \<exists>u. u \<noteq> [] \<and> s = u @ r \<and> (\<forall>r'. stringLoop limit raw (u @ r') = Inr (x, r'))"
proof (induction limit raw s rule: stringLoop.induct)
  case (2 limit raw c s)
  let ?raw1 = "capture limit raw c"
  have keep: "\<exists>u. u \<noteq> [] \<and> c # w @ s' = u @ r \<and> (\<forall>r'. stringLoop limit raw (u @ r') = Inr (x, r'))"
    if s': "\<exists>u. u \<noteq> [] \<and> s' = u @ r \<and> (\<forall>r'. stringLoop limit raw' (u @ r') = Inr (x, r'))"
      and eq: "\<And>t. stringLoop limit raw (c # w @ t) = stringLoop limit raw' t" for w s' raw'
  proof -
    from s' obtain u where u: "s' = u @ r" "\<forall>r'. stringLoop limit raw' (u @ r') = Inr (x, r')" by blast
    then show ?thesis by (intro exI [of _ "c # w @ u"]) (simp add: eq del: stringLoop.simps)
  qed
  consider (quote) "c = CHR 0x22" | (plain) "c \<noteq> CHR 0x22" "\<not> (of_char c :: nat) < 0x20" "c \<noteq> CHR 0x5C"
    | (escape) "c = CHR 0x5C" using "2.prems" by (auto simp: Let_def split: if_splits)
  then show ?case
  proof cases
    case quote
    then show ?thesis using "2.prems" by (intro exI [of _ "[c]"]) simp
  next
    case plain
    then have "stringLoop limit ?raw1 s = Inr (x, r)" using "2.prems" by simp
    from keep [of s ?raw1 "[]", OF "2.IH"(1) [OF refl plain this]] show ?thesis using plain by simp
  next
    case escape
    then obtain e s1 where s: "s = e # s1" using "2.prems" by (cases s) auto
    let ?raw2 = "capture limit ?raw1 e"
    let ?simple = "{CHR 0x22, CHR 0x5C, CHR ''/'', CHR ''b'', CHR ''f'', CHR ''n'', CHR ''r'', CHR ''t''}"
    show ?thesis
    proof (cases "e \<in> ?simple")
      case True
      then have "stringLoop limit ?raw2 s1 = Inr (x, r)" using "2.prems" escape s by simp
      from keep [of s1 ?raw2 "[e]", OF "2.IH"(2) [OF refl _ _ _ s refl True this]] show ?thesis using escape s True by simp
    next
      case False
      then have e: "e = CHR ''u''" using "2.prems" escape s by (auto split: if_splits)
      obtain a b d f s2 where s1: "s1 = a # b # d # f # s2" using "2.prems" escape s False e
        by (auto split: list.splits)
      let ?raw6 = "capture limit (capture limit (capture limit (capture limit ?raw2 a) b) d) f"
      have h: "isHex a \<and> isHex b \<and> isHex d \<and> isHex f" "stringLoop limit ?raw6 s2 = Inr (x, r)"
        using "2.prems" escape s s1 False e by (auto split: if_splits)
      from keep [of s2 ?raw6 "[e, a, b, d, f]", OF "2.IH"(3) [OF refl _ _ _ s refl False e s1 refl refl refl h]]
      show ?thesis using escape s s1 False e h by simp
    qed
  qed
qed simp

lemma parseString_exact: "reads_exactly (parseString limit)"
  unfolding reads_exactly_def
proof (intro allI impI)
  fix s x r
  assume "parseString limit s = Inr (x, r)"
  then obtain t raw where t: "s = CHR 0x22 # t" "stringLoop limit (Some [CHR 0x22]) t = Inr (raw, r)" "x = map_option unquote raw"
    by (auto simp: parseString_def andThen_Inr expect_iff)
  from stringLoop_exact [OF t(2)] obtain u where u: "t = u @ r" "\<forall>r'. stringLoop limit (Some [CHR 0x22]) (u @ r') = Inr (raw, r')" by blast
  then have "parseString limit ((CHR 0x22 # u) @ r') = Inr (x, r')" for r'
    by (simp add: parseString_def expect_def t(3))
  then show "\<exists>u. u \<noteq> [] \<and> s = u @ r \<and> (\<forall>r'. parseString limit (u @ r') = Inr (x, r'))"
    using t(1) u(1) by (intro exI [of _ "CHR 0x22 # u"]) simp
qed

lemma parseKey_exact: "reads_exactly parseKey"
  unfolding reads_exactly_def
proof (intro allI impI)
  fix s x r
  assume "parseKey s = Inr (x, r)"
  then obtain key t where t: "parseString 256 s = Inr (key, t)" "skipWhitespace t = CHR '':'' # r" "x = (case key of None \<Rightarrow> [] | Some k \<Rightarrow> k)"
    by (auto simp: parseKey_def andThen_Inr expect_iff)
  obtain u where u: "u \<noteq> []" "s = u @ t" "\<And>r'. parseString 256 (u @ r') = Inr (key, r')"
    using reads_exactlyE [OF parseString_exact t(1)] by blast
  obtain v where v: "t = v @ skipWhitespace t" "\<And>r'. same_head (skipWhitespace t) r' \<Longrightarrow> skipWhitespace (v @ r') = r'"
    using skip_split by blast
  have "parseKey ((u @ v @ [CHR '':'']) @ r') = Inr (x, r')" for r'
    using u(3) v(2) [of "CHR '':'' # r'"] t(2,3) by (simp add: parseKey_def same_head_def expect_def)
  then show "\<exists>u. u \<noteq> [] \<and> s = u @ r \<and> (\<forall>r'. parseKey (u @ r') = Inr (x, r'))"
    using u(1,2) v(1) t(2) by (intro exI [of _ "u @ v @ [CHR '':'']"]) simp
qed

text \<open>The same for a step that reads without a value, possibly nothing.\<close>

definition local_step :: "(string \<Rightarrow> (scan_failure, string) result) \<Rightarrow> bool" where
  "local_step p \<longleftrightarrow> (\<forall>s r. p s = Inr r \<longrightarrow> (\<exists>u. s = u @ r \<and> (\<forall>r'. same_head r r' \<longrightarrow> p (u @ r') = Inr r')))"

lemma local_stepE:
  assumes "local_step p" "p s = Inr r"
  obtains u where "s = u @ r" "\<And>r'. same_head r r' \<Longrightarrow> p (u @ r') = Inr r'"
  using assms unfolding local_step_def by blast

lemma same_head_append_same: "same_head r r' \<Longrightarrow> same_head (u @ r) (u @ r')"
  by (cases u) (simp_all add: same_head_def)

lemma peeks_append: "same_head r r' \<Longrightarrow> peeks P (u @ r) = peeks P (u @ r')"
  by (rule peeks_same [OF same_head_append_same])

lemma local_compose:
  assumes "local_step p" "local_step q"
  shows "local_step (\<lambda>s. andThen (p s) q)"
  unfolding local_step_def
proof (intro allI impI)
  fix s r
  assume "andThen (p s) q = Inr r"
  then obtain t where t: "p s = Inr t" "q t = Inr r" by (auto simp: andThen_Inr)
  obtain u where u: "s = u @ t" "\<And>r'. same_head t r' \<Longrightarrow> p (u @ r') = Inr r'" using local_stepE [OF assms(1) t(1)] by blast
  obtain v where v: "t = v @ r" "\<And>r'. same_head r r' \<Longrightarrow> q (v @ r') = Inr r'" using local_stepE [OF assms(2) t(2)] by blast
  show "\<exists>u. s = u @ r \<and> (\<forall>r'. same_head r r' \<longrightarrow> andThen (p (u @ r')) q = Inr r')"
    using u v same_head_append_same [of r _ v] by (intro exI [of _ "u @ v"]) simp
qed

lemma local_optional:
  assumes "local_step p"
  shows "local_step (\<lambda>s. p (if peeks P s then tl s else s))"
  unfolding local_step_def
proof (intro allI impI)
  fix s r
  assume p: "p (if peeks P s then tl s else s) = Inr r"
  obtain u where u: "(if peeks P s then tl s else s) = u @ r" "\<And>r'. same_head r r' \<Longrightarrow> p (u @ r') = Inr r'"
    using local_stepE [OF assms p] by blast
  show "\<exists>u. s = u @ r \<and> (\<forall>r'. same_head r r' \<longrightarrow> p (if peeks P (u @ r') then tl (u @ r') else u @ r') = Inr r')"
  proof (cases "peeks P s")
    case True
    then obtain c where "s = c # u @ r" "P c" using u(1) by (cases s) (auto simp: peeks_def)
    then show ?thesis using u(2) by (intro exI [of _ "c # u"]) (simp add: peeks_def)
  next
    case False
    then show ?thesis using u peeks_append [of r _ P u] by (intro exI [of _ u]) auto
  qed
qed

lemma local_guarded:
  assumes "local_step p"
  shows "local_step (\<lambda>s. if peeks P s then p (tl s) else Inr s)"
  unfolding local_step_def
proof (intro allI impI)
  fix s r
  assume p: "(if peeks P s then p (tl s) else Inr s) = Inr r"
  show "\<exists>u. s = u @ r \<and> (\<forall>r'. same_head r r' \<longrightarrow> (if peeks P (u @ r') then p (tl (u @ r')) else Inr (u @ r')) = Inr r')"
  proof (cases "peeks P s")
    case True
    then obtain c t where s: "s = c # t" "P c" by (cases s) (auto simp: peeks_def)
    then obtain u where "t = u @ r" "\<And>r'. same_head r r' \<Longrightarrow> p (u @ r') = Inr r'" using local_stepE [OF assms, of t r] p True by auto
    then show ?thesis using s by (intro exI [of _ "c # u"]) (simp add: peeks_def)
  next
    case False
    then show ?thesis using p peeks_same [of s _ P] by (intro exI [of _ "[]"]) auto
  qed
qed

lemma dropWhile_local:
  assumes "same_head (dropWhile P s) r'"
  shows "dropWhile P (takeWhile P s @ r') = r'" "takeWhile P (takeWhile P s @ r') = takeWhile P s"
proof -
  have "\<not> peeks P (dropWhile P s)"
    using hd_dropWhile [of P s] by (cases "dropWhile P s") (simp_all add: peeks_def del: dropWhile_eq_Nil_conv)
  then have "\<not> peeks P r'" using peeks_same [OF assms, of P] by simp
  then have "dropWhile P r' = r'" "takeWhile P r' = []" by (cases r'; simp add: peeks_def)+
  moreover have "\<And>x. x \<in> set (takeWhile P s) \<Longrightarrow> P x" by (auto dest: set_takeWhileD)
  ultimately show "dropWhile P (takeWhile P s @ r') = r'" "takeWhile P (takeWhile P s @ r') = takeWhile P s"
    by (simp_all add: dropWhile_append2 takeWhile_append2)
qed

lemma consumeDigits_local: "local_step consumeDigits"
  unfolding local_step_def
proof (intro allI impI)
  fix s r
  assume "consumeDigits s = Inr r"
  then have r: "r = dropWhile is_digit s" "takeWhile is_digit s \<noteq> []" by (auto simp: consumeDigits_def split: if_splits)
  have "consumeDigits (takeWhile is_digit s @ r') = Inr r'" if "same_head r r'" for r'
    using dropWhile_local [of is_digit s r'] that r by (simp add: consumeDigits_def)
  then show "\<exists>u. s = u @ r \<and> (\<forall>r'. same_head r r' \<longrightarrow> consumeDigits (u @ r') = Inr r')"
    using r(1) by (intro exI [of _ "takeWhile is_digit s"]) simp
qed

lemma integer_local: "local_step integer_part"
  unfolding local_step_def
proof (intro allI impI)
  fix s r
  assume p: "integer_part s = Inr r"
  show "\<exists>u. s = u @ r \<and> (\<forall>r'. same_head r r' \<longrightarrow> integer_part (u @ r') = Inr r')"
  proof (cases "peeks (\<lambda>c. c = CHR ''0'') s")
    case True
    then have s: "s = CHR ''0'' # r" "\<not> peeks is_digit r" using p by (cases s; auto simp: integer_part_def peeks_def split: if_splits)+
    have "integer_part (CHR ''0'' # r') = Inr r'" if "same_head r r'" for r'
      using peeks_same [OF that, of is_digit] s(2) by (simp add: integer_part_def peeks_def [of "\<lambda>c. c = CHR ''0''"])
    then show ?thesis using s(1) by (intro exI [of _ "[CHR ''0'']"]) simp
  next
    case False
    then have r: "r = dropWhile is_digit s" and d: "peeks is_digit s" using p by (auto simp: integer_part_def split: if_splits)
    let ?u = "takeWhile is_digit s"
    have "integer_part (?u @ r') = Inr r'" if "same_head r r'" for r'
    proof -
      have "same_head s (?u @ r')" using same_head_append_same [OF that, of ?u] by (simp add: r)
      then show ?thesis
        using False d dropWhile_local(1) [of is_digit s r'] that peeks_same [of s "?u @ r'"] by (simp add: integer_part_def r)
    qed
    then show ?thesis using r by (intro exI [of _ ?u]) simp
  qed
qed

lemma parseNumber_local: "local_step parseNumber"
proof -
  have fraction: "local_step fraction_part"
    using local_guarded [OF consumeDigits_local] by (simp add: fraction_part_def [abs_def])
  have exponent: "local_step exponent_part"
    using local_guarded [OF local_optional [OF consumeDigits_local]] by (simp add: exponent_part_def [abs_def])
  show ?thesis
    using local_compose [OF local_optional [OF integer_local] local_compose [OF fraction exponent]]
    by (simp add: parseNumber_def [abs_def])
qed

lemma integer_shorter: "integer_part s = Inr r \<Longrightarrow> length r < length s"
proof -
  assume p: "integer_part s = Inr r"
  then obtain c t where s: "s = c # t" by (cases s) (auto simp: integer_part_def peeks_def)
  then show ?thesis using p length_dropWhile_le [of is_digit t] by (auto simp: integer_part_def peeks_def split: if_splits)
qed

lemma local_length: "local_step p \<Longrightarrow> p s = Inr r \<Longrightarrow> length r \<le> length s"
  by (elim local_stepE) auto

lemma parseNumber_shorter: "parseNumber s = Inr r \<Longrightarrow> length r < length s"
proof -
  assume "parseNumber s = Inr r"
  then obtain a b where p: "integer_part (if peeks (\<lambda>c. c = CHR ''-'') s then tl s else s) = Inr a" "fraction_part a = Inr b" "exponent_part b = Inr r"
    by (auto simp: parseNumber_def andThen_Inr)
  have digits: "consumeDigits x = Inr y \<Longrightarrow> length y \<le> length x" for x y using local_length [OF consumeDigits_local] .
  have "length b \<le> length a" using p(2) digits [of "tl a" b] by (auto simp: fraction_part_def split: if_splits)
  moreover have "length r \<le> length b"
    using p(3) digits [of "tl b" r] digits [of "tl (tl b)" r] by (auto simp: exponent_part_def split: if_splits)
  ultimately show ?thesis using integer_shorter [OF p(1)] by (auto split: if_splits)
qed

lemma open_container_split:
  assumes "open_container opening closing depth s = Inr (x, r)"
  obtains u where "u \<noteq> []" "s = u @ r" "\<And>r'. x \<or> same_head r r' \<Longrightarrow> open_container opening closing depth (u @ r') = Inr (x, r')"
proof -
  obtain t where t: "s = opening # t" "\<not> depth \<ge> 512" using assms by (auto simp: open_container_def andThen_Inr expect_iff split: if_splits)
  obtain u where u: "t = u @ skipWhitespace t" "\<And>r'. same_head (skipWhitespace t) r' \<Longrightarrow> skipWhitespace (u @ r') = r'"
    using skip_split by blast
  have eq: "open_container opening closing depth (opening # u @ r') =
      (if peeks (\<lambda>c. c = closing) r' then Inr (True, tl r') else Inr (False, r'))" if "same_head (skipWhitespace t) r'" for r'
    using t(2) u(2) [OF that] by (simp add: open_container_def expect_def)
  show thesis
  proof (cases "peeks (\<lambda>c. c = closing) (skipWhitespace t)")
    case True
    then have r: "x" "skipWhitespace t = closing # r"
      using assms t by (cases "skipWhitespace t"; auto simp: open_container_def expect_def peeks_def)+
    show thesis
      by (rule that [of "opening # u @ [closing]"]) (use eq [of "closing # _"] r t u(1) in \<open>auto simp: same_head_def peeks_def\<close>)
  next
    case False
    then have r: "\<not> x" "r = skipWhitespace t" using assms t by (auto simp: open_container_def expect_def Let_def)
    show thesis
      by (rule that [of "opening # u"]) (use eq peeks_same [of r _ "\<lambda>c. c = closing"] False r t u(1) in auto)
  qed
qed

lemma separator_split:
  assumes "separator closing s = Inr (x, r)"
  obtains u where "u \<noteq> []" "s = u @ r" "\<And>r'. x \<or> same_head r r' \<Longrightarrow> separator closing (u @ r') = Inr (x, r')"
proof -
  obtain u where u: "s = u @ skipWhitespace s" "\<And>r'. same_head (skipWhitespace s) r' \<Longrightarrow> skipWhitespace (u @ r') = r'"
    using skip_split by blast
  obtain c t where c: "skipWhitespace s = c # t" using assms by (cases "skipWhitespace s") (auto simp: separator_def)
  have skip: "skipWhitespace (u @ c # r') = c # r'" for r' using u(2) [of "c # r'"] c by (simp add: same_head_def)
  show thesis
  proof (cases "c = closing")
    case True
    then have "x" "r = t" using assms c by (auto simp: separator_def)
    then show thesis using that [of "u @ [c]"] u(1) c skip True by (simp add: separator_def)
  next
    case False
    then have x: "\<not> x" "c = CHR '',''" "r = skipWhitespace t" using assms c by (auto simp: separator_def split: if_splits)
    obtain v where v: "t = v @ skipWhitespace t" "\<And>r'. same_head (skipWhitespace t) r' \<Longrightarrow> skipWhitespace (v @ r') = r'"
      using skip_split by blast
    then show thesis using that [of "u @ c # v"] u(1) c skip False x by (simp add: separator_def)
  qed
qed

section \<open>The reference: build the document, then look at it\<close>

datatype json_tree =
    TreeObject "(string \<times> json_tree) list"
  | TreeArray "json_tree list"
  | TreeString string
  | TreeBool bool
  | TreeOther

function (sequential) treeValue :: "nat \<Rightarrow> nat \<Rightarrow> string \<Rightarrow> (scan_failure, json_tree \<times> string) result"
and treeMembers :: "nat \<Rightarrow> nat \<Rightarrow> string \<Rightarrow> (scan_failure, (string \<times> json_tree) list \<times> string) result"
and treeElements :: "nat \<Rightarrow> nat \<Rightarrow> string \<Rightarrow> (scan_failure, json_tree list \<times> string) result" where
  "treeValue 0 depth s = Inl ScannerOutOfFuel"
| "treeValue (Suc n) depth s =
     (let s1 = skipWhitespace s in
      case s1 of
        [] \<Rightarrow> Inl MalformedRequest
      | c # _ \<Rightarrow>
          if c = CHR ''{'' then
            andThen (open_container c (CHR ''}'') depth s1) (\<lambda>(empty, r).
              if empty then Inr (TreeObject [], r) else andThen (treeMembers n (depth + 1) r) (\<lambda>(ms, r1). Inr (TreeObject ms, r1)))
          else if c = CHR ''['' then
            andThen (open_container c (CHR '']'') depth s1) (\<lambda>(empty, r).
              if empty then Inr (TreeArray [], r) else andThen (treeElements n (depth + 1) r) (\<lambda>(vs, r1). Inr (TreeArray vs, r1)))
          else if c = CHR 0x22 then
            andThen (parseString 4096 s1) (\<lambda>(text, r). Inr (TreeString (case text of None \<Rightarrow> [] | Some t \<Rightarrow> t), r))
          else if c = CHR ''t'' then andThen (consumeLiteral ''true'' s1) (\<lambda>r. Inr (TreeBool True, r))
          else if c = CHR ''f'' then andThen (consumeLiteral ''false'' s1) (\<lambda>r. Inr (TreeBool False, r))
          else if c = CHR ''n'' then andThen (consumeLiteral ''null'' s1) (\<lambda>r. Inr (TreeOther, r))
          else if c = CHR ''-'' \<or> is_digit c then andThen (parseNumber s1) (\<lambda>r. Inr (TreeOther, r))
          else Inl MalformedRequest)"
| "treeMembers 0 depth s = Inl ScannerOutOfFuel"
| "treeMembers (Suc n) depth s =
     andThen (parseKey s) (\<lambda>(key, r1).
     andThen (treeValue n depth r1) (\<lambda>(v, r2).
     andThen (separator (CHR ''}'') r2) (\<lambda>(end_here, r3).
       if end_here then Inr ([(key, v)], r3)
       else andThen (treeMembers n depth r3) (\<lambda>(ms, r4). Inr ((key, v) # ms, r4)))))"
| "treeElements 0 depth s = Inl ScannerOutOfFuel"
| "treeElements (Suc n) depth s =
     andThen (treeValue n depth s) (\<lambda>(v, r1).
     andThen (separator (CHR '']'') r1) (\<lambda>(end_here, r2).
       if end_here then Inr ([v], r2)
       else andThen (treeElements n depth r2) (\<lambda>(vs, r3). Inr (v # vs, r3))))"
  by pat_completeness auto
termination by (relation "measure (case_sum fst (case_sum fst fst))") auto

lemma exactly_map:
  assumes "reads_exactly p"
  shows "reads_exactly (\<lambda>s. andThen (p s) (\<lambda>(x, r). Inr (f x, r)))"
  unfolding reads_exactly_def
proof (intro allI impI)
  fix s y r
  assume "andThen (p s) (\<lambda>(x, r). Inr (f x, r)) = Inr (y, r)"
  then obtain x where x: "p s = Inr (x, r)" "y = f x" by (auto simp: andThen_Inr)
  from reads_exactlyE [OF assms x(1)]
  show "\<exists>u. u \<noteq> [] \<and> s = u @ r \<and> (\<forall>r'. andThen (p (u @ r')) (\<lambda>(x, r). Inr (f x, r)) = Inr (y, r'))"
    by (metis (no_types, lifting) andThen_simps(2) case_prod_conv x(2))
qed

lemma exactly_literal: "l \<noteq> [] \<Longrightarrow> reads_exactly (\<lambda>s. andThen (consumeLiteral l s) (\<lambda>r. Inr (x, r)))"
proof -
  assume "l \<noteq> []"
  moreover have "consumeLiteral l (l @ r) = Inr r" for r by (simp add: consumeLiteral_iff)
  ultimately show ?thesis unfolding reads_exactly_def by (auto simp: andThen_Inr consumeLiteral_iff intro!: exI [of _ l])
qed

lemma ahead_number: "looks_ahead (\<lambda>s. andThen (parseNumber s) (\<lambda>r. Inr (x, r)))"
  unfolding looks_ahead_def
proof (intro allI impI)
  fix s y r
  assume "andThen (parseNumber s) (\<lambda>r. Inr (x, r)) = Inr (y, r)"
  then have p: "parseNumber s = Inr r" "y = x" by (auto simp: andThen_Inr)
  obtain u where u: "s = u @ r" "\<And>r'. same_head r r' \<Longrightarrow> parseNumber (u @ r') = Inr r'" using local_stepE [OF parseNumber_local p(1)] by blast
  moreover have "u \<noteq> []" using parseNumber_shorter [OF p(1)] u(1) by auto
  ultimately show "\<exists>u. u \<noteq> [] \<and> s = u @ r \<and> (\<forall>r'. same_head r r' \<longrightarrow> andThen (parseNumber (u @ r')) (\<lambda>r. Inr (x, r)) = Inr (y, r'))"
    using p(2) by (intro exI [of _ u]) simp
qed

lemma exactly_container:
  assumes "reads_exactly p"
  shows "reads_exactly (\<lambda>s. andThen (open_container opening closing depth s) (\<lambda>(empty, r).
    if empty then Inr (e, r) else andThen (p r) (\<lambda>(x, r1). Inr (f x, r1))))" (is "reads_exactly ?q")
  unfolding reads_exactly_def
proof (intro allI impI)
  fix s y r
  assume "?q s = Inr (y, r)"
  then obtain x r0 where o: "open_container opening closing depth s = Inr (x, r0)"
    and b: "(if x then Inr (e, r0) else andThen (p r0) (\<lambda>(x, r1). Inr (f x, r1))) = Inr (y, r)" by (auto simp: andThen_Inr)
  obtain u where u: "u \<noteq> []" "s = u @ r0" "\<And>r'. x \<or> same_head r0 r' \<Longrightarrow> open_container opening closing depth (u @ r') = Inr (x, r')"
    using open_container_split [OF o] by blast
  show "\<exists>u. u \<noteq> [] \<and> s = u @ r \<and> (\<forall>r'. ?q (u @ r') = Inr (y, r'))"
  proof (cases x)
    case True
    then show ?thesis using u b by (intro exI [of _ u]) simp
  next
    case False
    then obtain z where z: "p r0 = Inr (z, r)" "y = f z" using b by (auto simp: andThen_Inr)
    obtain v where v: "v \<noteq> []" "r0 = v @ r" "\<And>r'. p (v @ r') = Inr (z, r')" using reads_exactlyE [OF assms z(1)] by blast
    then show ?thesis using u False z(2) same_head_append [OF v(1)] by (intro exI [of _ "u @ v"]) simp
  qed
qed

text \<open>A value starts after white space with a byte that decides what it is.\<close>

lemma ahead_value:
  assumes "looks_ahead q" "\<And>r. p (c # r) = q (c # r)" "p s = Inr (x, r)" "skipWhitespace s = c # t" "\<And>s. p s = p (skipWhitespace s)"
  shows "\<exists>u. u \<noteq> [] \<and> s = u @ r \<and> (\<forall>r'. same_head r r' \<longrightarrow> p (u @ r') = Inr (x, r'))"
proof -
  have "q (c # t) = Inr (x, r)" using assms(2-5) by metis
  then obtain u where u: "u \<noteq> []" "c # t = u @ r" "\<And>r'. same_head r r' \<Longrightarrow> q (u @ r') = Inr (x, r')"
    using looks_aheadE [OF assms(1)] by metis
  obtain w where w: "s = w @ skipWhitespace s" "\<And>r'. same_head (skipWhitespace s) r' \<Longrightarrow> skipWhitespace (w @ r') = r'"
    using skip_split by blast
  have "p (w @ u @ r') = Inr (x, r')" if "same_head r r'" for r'
  proof -
    obtain u' where c: "u = c # u'" using u(1,2) by (cases u) auto
    have "skipWhitespace (w @ u @ r') = u @ r'" using w(2) [of "u @ r'"] assms(4) c by (simp add: same_head_def)
    then have "p (w @ u @ r') = p (u @ r')" using assms(5) by metis
    also have "\<dots> = q (u @ r')" using assms(2) c by simp
    finally show ?thesis using u(3) [OF that] by simp
  qed
  then show ?thesis using u(1,2) w(1) assms(4) by (intro exI [of _ "w @ u"]) auto
qed

lemma treeValue_skip: "treeValue n depth s = treeValue n depth (skipWhitespace s)"
  by (cases n) (simp_all add: Let_def)

lemma not_space: "skipWhitespace s = c # t \<Longrightarrow> \<not> json_space c"
  using hd_dropWhile [of json_space s] by (simp add: skipWhitespace_def)

lemma ahead_pair:
  assumes "reads_exactly p" "looks_ahead q"
  shows "looks_ahead (\<lambda>s. andThen (p s) (\<lambda>(x, r1). andThen (q r1) (\<lambda>(y, r2). Inr ((x, y), r2))))" (is "looks_ahead ?p")
  unfolding looks_ahead_def
proof (intro allI impI)
  fix s z r
  assume "?p s = Inr (z, r)"
  then obtain x y r1 where z: "p s = Inr (x, r1)" "q r1 = Inr (y, r)" "z = (x, y)" by (auto simp: andThen_Inr)
  obtain u where u: "u \<noteq> []" "s = u @ r1" "\<And>r'. p (u @ r') = Inr (x, r')" using reads_exactlyE [OF assms(1) z(1)] by blast
  obtain v where v: "v \<noteq> []" "r1 = v @ r" "\<And>r'. same_head r r' \<Longrightarrow> q (v @ r') = Inr (y, r')" using looks_aheadE [OF assms(2) z(2)] by blast
  show "\<exists>u. u \<noteq> [] \<and> s = u @ r \<and> (\<forall>r'. same_head r r' \<longrightarrow> ?p (u @ r') = Inr (z, r'))"
    using u v z(3) by (intro exI [of _ "u @ v"]) simp
qed

text \<open>The loop over members or elements: a part that may look ahead, a separator, and the loop again.\<close>

lemma exactly_loop:
  assumes "looks_ahead h" "reads_exactly t"
  shows "reads_exactly (\<lambda>s. andThen (h s) (\<lambda>(v, r1). andThen (separator closing r1) (\<lambda>(end_here, r2).
    if end_here then Inr ([v], r2) else andThen (t r2) (\<lambda>(vs, r3). Inr (v # vs, r3)))))" (is "reads_exactly ?p")
  unfolding reads_exactly_def
proof (intro allI impI)
  fix s x r
  assume "?p s = Inr (x, r)"
  then obtain v r2 e r3 where p: "h s = Inr (v, r2)" "separator closing r2 = Inr (e, r3)"
    and b: "(if e then Inr ([v], r3) else andThen (t r3) (\<lambda>(vs, r4). Inr (v # vs, r4))) = Inr (x, r)" by (auto simp: andThen_Inr)
  obtain u2 where u2: "u2 \<noteq> []" "s = u2 @ r2" "\<And>r'. same_head r2 r' \<Longrightarrow> h (u2 @ r') = Inr (v, r')"
    using looks_aheadE [OF assms(1) p(1)] by blast
  obtain u3 where u3: "u3 \<noteq> []" "r2 = u3 @ r3" "\<And>r'. e \<or> same_head r3 r' \<Longrightarrow> separator closing (u3 @ r') = Inr (e, r')"
    using separator_split [OF p(2)] by blast
  obtain w where w: "r3 = w @ r" "\<And>r'. e \<or> same_head r3 (w @ r')"
    "\<And>r'. (if e then Inr ([v], w @ r') else andThen (t (w @ r')) (\<lambda>(vs, r4). Inr (v # vs, r4))) = Inr (x, r')"
  proof (cases e)
    case True
    then show thesis using that [of "[]"] b by simp
  next
    case False
    then obtain vs where vs: "t r3 = Inr (vs, r)" "x = v # vs" using b by (auto simp: andThen_Inr)
    obtain w where "w \<noteq> []" "r3 = w @ r" "\<And>r'. t (w @ r') = Inr (vs, r')" using reads_exactlyE [OF assms(2) vs(1)] by blast
    then show thesis using that [of w] False vs(2) same_head_append by simp
  qed
  have "?p ((u2 @ u3 @ w) @ r') = Inr (x, r')" for r'
    using u2(3) [of "u3 @ w @ r'"] u3(3) [of "w @ r'"] u3(1,2) w(1,2,3) same_head_append by simp
  then show "\<exists>u. u \<noteq> [] \<and> s = u @ r \<and> (\<forall>r'. ?p (u @ r') = Inr (x, r'))"
    using u2(1,2) u3(2) w(1) by (intro exI [of _ "u2 @ u3 @ w"]) simp
qed

lemma treeValue_ahead:
  assumes members: "\<And>d. reads_exactly (treeMembers n d)" and elements: "\<And>d. reads_exactly (treeElements n d)"
  shows "looks_ahead (treeValue (Suc n) depth)"
  unfolding looks_ahead_def
proof (intro allI impI)
  fix s x r
  assume p: "treeValue (Suc n) depth s = Inr (x, r)"
  then obtain c t where c: "skipWhitespace s = c # t" by (cases "skipWhitespace s") (auto simp: Let_def)
  have fixed: "skipWhitespace (c # t) = c # t" for t by (rule skip_fixed [OF not_space [OF c]])
  note start = ahead_value [OF _ _ p c treeValue_skip]
  consider "c = CHR ''{''" | "c = CHR ''[''" | "c = CHR 0x22" | "c = CHR ''t''" | "c = CHR ''f''" | "c = CHR ''n''"
    | "c = CHR ''-'' \<or> is_digit c" "c \<notin> {CHR ''{'', CHR ''['', CHR 0x22, CHR ''t'', CHR ''f'', CHR ''n''}"
    using p c by (auto simp: Let_def split: if_splits)
  then show "\<exists>u. u \<noteq> [] \<and> s = u @ r \<and> (\<forall>r'. same_head r r' \<longrightarrow> treeValue (Suc n) depth (u @ r') = Inr (x, r'))"
  proof cases
    case 1
    then show ?thesis by (intro start [OF exact_looks_ahead [OF exactly_container [OF members, of "CHR ''{''" "CHR ''}''" depth "TreeObject []" "depth + 1" TreeObject]]]) (simp add: skip_fixed json_space_def Let_def)
  next
    case 2
    then show ?thesis by (intro start [OF exact_looks_ahead [OF exactly_container [OF elements, of "CHR ''[''" "CHR '']''" depth "TreeArray []" "depth + 1" TreeArray]]]) (simp add: skip_fixed json_space_def Let_def)
  next
    case 3
    then show ?thesis by (intro start [OF exact_looks_ahead [OF exactly_map [OF parseString_exact, of 4096 "\<lambda>text. TreeString (case text of None \<Rightarrow> [] | Some t \<Rightarrow> t)"]]]) (simp add: skip_fixed json_space_def Let_def)
  next
    case 4
    then show ?thesis by (intro start [OF exact_looks_ahead [OF exactly_literal [of "''true''" "TreeBool True"]]]) (simp_all add: skip_fixed json_space_def Let_def)
  next
    case 5
    then show ?thesis by (intro start [OF exact_looks_ahead [OF exactly_literal [of "''false''" "TreeBool False"]]]) (simp_all add: skip_fixed json_space_def Let_def)
  next
    case 6
    then show ?thesis by (intro start [OF exact_looks_ahead [OF exactly_literal [of "''null''" TreeOther]]]) (simp_all add: skip_fixed json_space_def Let_def)
  next
    case 7
    then show ?thesis by (intro start [OF ahead_number [of TreeOther]]) (auto simp: fixed Let_def)
  qed
qed

lemma tree_local:
  "looks_ahead (treeValue n depth) \<and> reads_exactly (treeMembers n depth) \<and> reads_exactly (treeElements n depth)"
proof (induction n arbitrary: depth)
  case 0
  show ?case by (simp add: looks_ahead_def reads_exactly_def)
next
  case (Suc n)
  have IH: "looks_ahead (treeValue n d)" "reads_exactly (treeMembers n d)" "reads_exactly (treeElements n d)" for d using Suc.IH by blast+
  have members: "treeMembers (Suc n) depth = (\<lambda>s. andThen (andThen (parseKey s) (\<lambda>(x, r1). andThen (treeValue n depth r1) (\<lambda>(y, r2). Inr ((x, y), r2))))
      (\<lambda>(v, r1). andThen (separator (CHR ''}'') r1) (\<lambda>(end_here, r2).
        if end_here then Inr ([v], r2) else andThen (treeMembers n depth r2) (\<lambda>(vs, r3). Inr (v # vs, r3)))))"
    by (rule ext) (simp add: andThen_def split: sum.split prod.split)
  have elements: "treeElements (Suc n) depth = (\<lambda>s. andThen (treeValue n depth s) (\<lambda>(v, r1). andThen (separator (CHR '']'') r1) (\<lambda>(end_here, r2).
        if end_here then Inr ([v], r2) else andThen (treeElements n depth r2) (\<lambda>(vs, r3). Inr (v # vs, r3)))))"
    by (rule ext) simp
  show ?case
    using treeValue_ahead [OF IH(2,3)] exactly_loop [OF ahead_pair [OF parseKey_exact IH(1)] IH(2)] exactly_loop [OF IH(1,3)]
    unfolding members elements by blast
qed

lemmas treeValue_local = tree_local [THEN conjunct1]
  and treeMembers_local = tree_local [THEN conjunct2, THEN conjunct1]
  and treeElements_local = tree_local [THEN conjunct2, THEN conjunct2]

lemma exactly_shorter: "reads_exactly p \<Longrightarrow> p s = Inr (x, r) \<Longrightarrow> length r < length s"
  by (elim reads_exactlyE) auto

lemma ahead_shorter: "looks_ahead p \<Longrightarrow> p s = Inr (x, r) \<Longrightarrow> length r < length s"
  by (elim looks_aheadE) auto

lemma container_shorter: "open_container a b d s = Inr (x, r) \<Longrightarrow> length r < length s"
  by (elim open_container_split) auto

lemma separator_shorter: "separator c s = Inr (x, r) \<Longrightarrow> length r < length s"
  by (elim separator_split) auto

section \<open>The fuel is enough\<close>

definition fuelled :: "(scan_failure, 'a) result \<Rightarrow> bool" where
  "fuelled m \<longleftrightarrow> m \<noteq> Inl ScannerOutOfFuel"

lemma fuelled_result [simp]: "fuelled (Inr x)" "fuelled (Inl MalformedRequest)"
  by (simp_all add: fuelled_def)

lemma fuelled_andThen [intro]: "fuelled m \<Longrightarrow> (\<And>x. m = Inr x \<Longrightarrow> fuelled (k x)) \<Longrightarrow> fuelled (andThen m k)"
  by (cases m) (auto simp: fuelled_def)

lemma fuelled_pair [intro]: "fuelled m \<Longrightarrow> (\<And>x r. m = Inr (x, r) \<Longrightarrow> fuelled (k x r)) \<Longrightarrow> fuelled (andThen m (\<lambda>(x, r). k x r))"
  by (cases m) (auto simp: fuelled_def)

lemma fuelled_expect [simp]: "fuelled (expect c s)"
  by (simp add: expect_def split: list.split)

lemma fuelled_literal [simp]: "fuelled (consumeLiteral l s)"
  by (induction l arbitrary: s) auto

lemma fuelled_string [simp]: "fuelled (stringLoop limit raw s)"
  by (induction limit raw s rule: stringLoop.induct) (auto simp: Let_def split: list.split)

lemma fuelled_parse [simp]: "fuelled (parseString limit s)" "fuelled (parseKey s)" "fuelled (parseNumber s)"
proof -
  show s: "fuelled (parseString limit s)" for limit s unfolding parseString_def by (intro fuelled_andThen fuelled_pair) simp_all
  then show "fuelled (parseKey s)" unfolding parseKey_def by (intro fuelled_andThen fuelled_pair) simp_all
  have "fuelled (consumeDigits s)" "fuelled (integer_part s)" for s by (simp_all add: consumeDigits_def integer_part_def)
  moreover from this have "fuelled (fraction_part s)" "fuelled (exponent_part s)" for s by (simp_all add: fraction_part_def exponent_part_def)
  ultimately show "fuelled (parseNumber s)" unfolding parseNumber_def by (intro fuelled_andThen)
qed

lemma fuelled_container [simp]: "fuelled (open_container a b d s)" "fuelled (separator c s)"
  by (auto simp: open_container_def separator_def Let_def split: list.split)

declare treeValue.simps [simp del] treeMembers.simps [simp del] treeElements.simps [simp del]

lemma request_fuel_enough:
  "(2 * length s < n \<longrightarrow> fuelled (treeValue n depth s)) \<and> (2 * length s < n \<longrightarrow> fuelled (treeMembers n depth s)) \<and>
   (2 * length s + 1 < n \<longrightarrow> fuelled (treeElements n depth s))"
proof (induction n arbitrary: depth s)
  case (Suc n)
  have IH: "2 * length s < n \<Longrightarrow> fuelled (treeValue n d s)" "2 * length s < n \<Longrightarrow> fuelled (treeMembers n d s)"
    "2 * length s + 1 < n \<Longrightarrow> fuelled (treeElements n d s)" for d s using Suc.IH by blast+
  have "fuelled (treeValue (Suc n) depth s)" if "2 * length s < Suc n"
  proof -
    have "2 * length r + 1 < n" if "open_container a b d (skipWhitespace s) = Inr (x, r)" for a b d x r
      using container_shorter [OF that] skip_length [of s] \<open>2 * length s < Suc n\<close> by linarith
    then have c: "fuelled (treeMembers n (depth + 1) r) \<and> fuelled (treeElements n (depth + 1) r)"
      if "open_container a b d (skipWhitespace s) = Inr (x, r)" for a b d x r using IH(2,3) that by (meson add_lessD1)
    show ?thesis
    proof (cases "skipWhitespace s")
      case (Cons b t)
      show ?thesis
        unfolding treeValue.simps(2) Let_def Cons list.case if_split [of fuelled]
        by (intro conjI impI fuelled_pair fuelled_andThen fuelled_literal; (use c [unfolded Cons] in \<open>auto intro!: fuelled_pair\<close>)?)
    qed (simp add: treeValue.simps)
  qed
  moreover have "fuelled (treeMembers (Suc n) depth s)" if "2 * length s < Suc n"
  proof -
    show ?thesis
      unfolding treeMembers.simps(2)
    proof (intro fuelled_pair)
      fix k r1
      assume k: "parseKey s = Inr (k, r1)"
      then have r1: "2 * length r1 < n" using exactly_shorter [OF parseKey_exact k] \<open>2 * length s < Suc n\<close> by linarith
      show "fuelled (treeValue n depth r1)" by (rule IH(1) [OF r1])
      fix v r2 e r3
      assume "treeValue n depth r1 = Inr (v, r2)" "separator (CHR ''}'') r2 = Inr (e, r3)"
      then have "2 * length r3 < n" using ahead_shorter [OF treeValue_local, of n depth r1 v r2] separator_shorter [of _ r2 e r3] r1 by fastforce
      then have "fuelled (andThen (treeMembers n depth r3) (\<lambda>(ms, r4). Inr ((k, v) # ms, r4)))" using IH(2) by (intro fuelled_pair) simp_all
      then show "fuelled (if e then Inr ([(k, v)], r3) else andThen (treeMembers n depth r3) (\<lambda>(ms, r4). Inr ((k, v) # ms, r4)))" by simp
    qed simp_all
  qed
  moreover have "fuelled (treeElements (Suc n) depth s)" if "2 * length s + 1 < Suc n"
  proof -
    show ?thesis
      unfolding treeElements.simps(2)
    proof (intro fuelled_pair)
      show "fuelled (treeValue n depth s)" using IH(1) that by simp
      fix v r2 e r3
      assume "treeValue n depth s = Inr (v, r2)" "separator (CHR '']'') r2 = Inr (e, r3)"
      then have "2 * length r3 + 1 < n" using ahead_shorter [OF treeValue_local, of n depth s v r2] separator_shorter [of _ r2 e r3] that by fastforce
      then have "fuelled (andThen (treeElements n depth r3) (\<lambda>(vs, r4). Inr (v # vs, r4)))" using IH(3) by (intro fuelled_pair) simp_all
      then show "fuelled (if e then Inr ([v], r3) else andThen (treeElements n depth r3) (\<lambda>(vs, r4). Inr (v # vs, r4)))" by simp
    qed simp_all
  qed
  ultimately show ?case by blast
qed (simp add: fuelled_def)

text \<open>More fuel does not change what is parsed.\<close>

lemma mono_pair:
  assumes "andThen m (\<lambda>(x, r). k x r) = Inr y" "\<And>x r. m = Inr (x, r) \<Longrightarrow> m' = Inr (x, r)"
    and "\<And>x r. m = Inr (x, r) \<Longrightarrow> k x r = Inr y \<Longrightarrow> k' x r = Inr y"
  shows "andThen m' (\<lambda>(x, r). k' x r) = Inr y"
  using assms by (cases m) auto

lemma mono_if: "(if b then p else q) = Inr y \<Longrightarrow> (p = Inr y \<Longrightarrow> p' = Inr y) \<Longrightarrow> (q = Inr y \<Longrightarrow> q' = Inr y) \<Longrightarrow> (if b then p' else q') = Inr y"
  by (simp split: if_splits)

lemma tree_mono:
  "(\<forall>x. treeValue n depth s = Inr x \<longrightarrow> treeValue (Suc n) depth s = Inr x) \<and>
   (\<forall>x. treeMembers n depth s = Inr x \<longrightarrow> treeMembers (Suc n) depth s = Inr x) \<and>
   (\<forall>x. treeElements n depth s = Inr x \<longrightarrow> treeElements (Suc n) depth s = Inr x)"
proof (induction n arbitrary: depth s)
  case (Suc n)
  have IH: "treeValue n d s = Inr x \<Longrightarrow> treeValue (Suc n) d s = Inr x" "treeMembers n d s = Inr y \<Longrightarrow> treeMembers (Suc n) d s = Inr y"
    "treeElements n d s = Inr z \<Longrightarrow> treeElements (Suc n) d s = Inr z" for d s x y z using Suc.IH by blast+
  have "treeValue (Suc (Suc n)) depth s = Inr x" if "treeValue (Suc n) depth s = Inr x" for x
  proof (cases "skipWhitespace s")
    case (Cons c t)
    show ?thesis
      using that unfolding treeValue.simps(2) Let_def Cons list.case
      apply (elim mono_if)
              apply (erule mono_pair, assumption, erule mono_if, assumption, erule mono_pair, erule IH(2), assumption)
             apply (erule mono_pair, assumption, erule mono_if, assumption, erule mono_pair, erule IH(3), assumption)
            apply assumption+
      done
  qed (use that in \<open>simp add: treeValue.simps\<close>)
  moreover have "treeMembers (Suc (Suc n)) depth s = Inr x" if "treeMembers (Suc n) depth s = Inr x" for x
    apply (subst treeMembers.simps(2), rule mono_pair [OF that [unfolded treeMembers.simps(2)]], assumption)
    by (erule mono_pair, erule IH(1), erule mono_pair, assumption, erule mono_if, assumption, erule mono_pair, erule IH(2), assumption)
  moreover have "treeElements (Suc (Suc n)) depth s = Inr x" if "treeElements (Suc n) depth s = Inr x" for x
    apply (subst treeElements.simps(2), rule mono_pair [OF that [unfolded treeElements.simps(2)]], erule IH(1))
    by (erule mono_pair, assumption, erule mono_if, assumption, erule mono_pair, erule IH(3), assumption)
  ultimately show ?case by blast
qed (simp add: treeValue.simps treeMembers.simps treeElements.simps)

section \<open>The scan of a nested value is its document with the flags of its tools\<close>

definition type_is :: "(string \<Rightarrow> bool) \<Rightarrow> json_tree \<Rightarrow> bool" where
  "type_is p t = (case t of TreeString x \<Rightarrow> p x | _ \<Rightarrow> False)"

text \<open>Somewhere in the document an object that is read in the context \<open>c\<close> has a type \<open>x\<close> with \<open>P c x\<close>.\<close>

fun typed :: "(value_context \<Rightarrow> string \<Rightarrow> bool) \<Rightarrow> value_context \<Rightarrow> json_tree \<Rightarrow> bool" where
  "typed P ctx (TreeObject ms) \<longleftrightarrow>
     (\<exists>m \<in> set ms. typed P (child_context ctx False (fst m)) (snd m) \<or> fst m = ''type'' \<and> type_is (P ctx) (snd m))"
| "typed P ctx (TreeArray vs) \<longleftrightarrow> (\<exists>v \<in> set vs. typed P (element_context ctx) v)"
| "typed P ctx (TreeString x) \<longleftrightarrow> False"
| "typed P ctx (TreeBool b) \<longleftrightarrow> False"
| "typed P ctx TreeOther \<longleftrightarrow> False"

definition image_at :: "value_context \<Rightarrow> string \<Rightarrow> bool" where
  "image_at ctx x \<longleftrightarrow> vc_toolEntry ctx \<and> x \<in> set image_types"

definition computer_at :: "value_context \<Rightarrow> string \<Rightarrow> bool" where
  "computer_at ctx x \<longleftrightarrow> vc_toolEntry ctx \<and> x \<in> set computer_types"

definition output_at :: "value_context \<Rightarrow> string \<Rightarrow> bool" where
  "output_at ctx x \<longleftrightarrow> vc_inInput ctx \<and> x = ''computer_call_output''"

definition raise_flags :: "bool \<Rightarrow> bool \<Rightarrow> bool \<Rightarrow> request_scan \<Rightarrow> request_scan" where
  "raise_flags i c out res = res\<lparr>sc_hostedImage := (sc_hostedImage res \<or> i), sc_hostedComputer := (sc_hostedComputer res \<or> c),
     sc_hostedComputerOutput := (sc_hostedComputerOutput res \<or> out)\<rparr>"

definition flagged :: "value_context \<Rightarrow> json_tree \<Rightarrow> request_scan \<Rightarrow> request_scan" where
  "flagged ctx t = raise_flags (typed image_at ctx t) (typed computer_at ctx t) (typed output_at ctx t)"

definition tree_info :: "nat \<Rightarrow> nat \<Rightarrow> json_tree \<Rightarrow> value_info" where
  "tree_info start stop t =
     \<lparr>vi_kind = (case t of TreeString _ \<Rightarrow> ValueString | TreeBool _ \<Rightarrow> ValueBool | _ \<Rightarrow> ValueOther),
      vi_text = (case t of TreeString x \<Rightarrow> x | _ \<Rightarrow> []), vi_bool = (case t of TreeBool b \<Rightarrow> b | _ \<Rightarrow> False),
      vi_start = start, vi_end = stop\<rparr>"

lemma raise_raise: "raise_flags a b c (raise_flags a' b' c' r) = raise_flags (a' \<or> a) (b' \<or> b) (c' \<or> c) r"
  by (simp add: raise_flags_def)

lemma raise_none [simp]: "raise_flags False False False r = r"
  by (simp add: raise_flags_def)

lemma flagged_plain [simp]: "flagged ctx (TreeString x) = id" "flagged ctx (TreeBool b) = id" "flagged ctx TreeOther = id"
  "flagged ctx (TreeObject []) = id" "flagged ctx (TreeArray []) = id"
  by (auto simp: flagged_def)

lemma types_disjoint: "x \<in> set image_types \<Longrightarrow> x \<notin> set computer_types"
  by (auto simp: image_types_def computer_types_def)

lemma note_types_flags:
  "note_types ctx key (tree_info a b t) res =
     raise_flags (key = ''type'' \<and> type_is (image_at ctx) t) (key = ''type'' \<and> type_is (computer_at ctx) t)
       (key = ''type'' \<and> type_is (output_at ctx) t) res"
  by (cases t; cases res)
    (auto simp: note_types_def tree_info_def type_is_def image_at_def computer_at_def output_at_def raise_flags_def Let_def dest: types_disjoint)

lemma flagged_object:
  "flagged ctx (TreeObject (m # ms)) res =
     flagged ctx (TreeObject ms) (note_types ctx (fst m) (tree_info a b (snd m)) (flagged (child_context ctx False (fst m)) (snd m) res))"
  by (simp add: flagged_def note_types_flags raise_raise disj_ac)

lemma flagged_array:
  "flagged ctx (TreeArray (v # vs)) res = flagged ctx (TreeArray vs) (flagged (element_context ctx) v res)"
  by (simp add: flagged_def raise_raise)

lemma andThen_if: "andThen (if b then p else q) k = (if b then andThen p k else andThen q k)"
  by simp

lemma nested_scan:
  "parseValue n len depth ctx False s res = andThen (treeValue n depth s) (\<lambda>(t, r).
     Inr (tree_info (len - length (skipWhitespace s)) (len - length r) t, r, flagged ctx t res)) \<and>
   parseObject n len depth ctx False s res = andThen (treeMembers n depth s) (\<lambda>(ms, r). Inr (r, flagged ctx (TreeObject ms) res)) \<and>
   parseArray n len depth ctx s res = andThen (treeElements n depth s) (\<lambda>(vs, r). Inr (r, flagged ctx (TreeArray vs) res))"
proof (induction n arbitrary: depth ctx s res)
  case 0
  show ?case by (simp add: treeValue.simps treeMembers.simps treeElements.simps)
next
  case (Suc n)
  note IH = Suc.IH [THEN conjunct1] Suc.IH [THEN conjunct2, THEN conjunct1] Suc.IH [THEN conjunct2, THEN conjunct2]
  have "parseValue (Suc n) len depth ctx False s res = andThen (treeValue (Suc n) depth s) (\<lambda>(t, r).
     Inr (tree_info (len - length (skipWhitespace s)) (len - length r) t, r, flagged ctx t res))"
  proof (cases "skipWhitespace s")
    case (Cons c t)
    show ?thesis
      unfolding parseValue.simps(2) treeValue.simps(2) Let_def Cons list.case andThen_if
      by (intro if_cong refl) (simp_all add: IH(2,3) andThen_assoc andThen_if split_def tree_info_def del: consumeLiteral.simps cong: if_cong)
  qed (simp add: treeValue.simps)
  moreover have "parseObject (Suc n) len depth ctx False s res = andThen (treeMembers (Suc n) depth s) (\<lambda>(ms, r). Inr (r, flagged ctx (TreeObject ms) res))"
    by (simp add: treeMembers.simps(2) IH(1,2) note_member_def andThen_assoc split_def flagged_object [where a = 0 and b = 0] note_types_flags andThen_if cong: if_cong)
  moreover have "parseArray (Suc n) len depth ctx s res = andThen (treeElements (Suc n) depth s) (\<lambda>(vs, r). Inr (r, flagged ctx (TreeArray vs) res))"
    by (simp add: treeElements.simps(2) IH(1,3) andThen_assoc split_def flagged_array andThen_if cong: if_cong)
  ultimately show ?case by blast
qed

section \<open>The scan of a request is the meaning of its document\<close>

lemma root_step:
  "parseObject (Suc n) len depth ctx True s res =
     andThen (parseKey s) (\<lambda>(key, r1).
     andThen (treeValue n depth r1) (\<lambda>(t, r2).
     andThen (note_root key (tree_info (len - length (skipWhitespace r1)) (len - length r2) t) (flagged (child_context ctx True key) t res)) (\<lambda>res1.
     andThen (separator (CHR ''}'') r2) (\<lambda>(end_here, r3).
       if end_here then Inr (r3, note_types ctx key (tree_info 0 0 t) res1)
       else parseObject n len depth ctx True r3 (note_types ctx key (tree_info 0 0 t) res1)))))"
  by (simp add: nested_scan [THEN conjunct1] note_member_def note_types_flags andThen_assoc split_def cong: if_cong)

declare parseValue.simps [simp del] parseObject.simps [simp del] parseArray.simps [simp del]

lemma note_types_none [simp]: "note_types no_context key v res = res"
  by (simp add: note_types_def no_context_def Let_def)

definition forget :: "request_scan \<Rightarrow> request_scan" where
  "forget res = res\<lparr>sc_streamStart := 0, sc_streamEnd := 0\<rparr>"

fun root_fold :: "(string \<times> json_tree) list \<Rightarrow> request_scan \<Rightarrow> (scan_failure, request_scan) result" where
  "root_fold [] res = Inr res"
| "root_fold (m # ms) res =
     andThen (note_root (fst m) (tree_info 0 0 (snd m)) (flagged (child_context no_context True (fst m)) (snd m) res)) (root_fold ms)"

lemma forget_flagged: "forget (flagged ctx t res) = flagged ctx t (forget res)"
  by (simp add: forget_def flagged_def raise_flags_def)

lemma forget_note:
  "map_sum id forget (note_root key (tree_info a b t) res) = note_root key (tree_info 0 0 t) (forget res)"
  by (cases t) (simp_all add: note_root_def tree_info_def forget_def)

lemma note_root_malformed: "note_root key v res = Inl e \<Longrightarrow> e = MalformedRequest"
  by (auto simp: note_root_def split: if_splits)

lemma root_scan:
  "(case treeMembers n depth s of
      Inl e \<Rightarrow> parseObject n len depth no_context True s res \<in> {Inl e, Inl MalformedRequest}
    | Inr (ms, r) \<Rightarrow> map_sum id (map_prod id forget) (parseObject n len depth no_context True s res) = andThen (root_fold ms (forget res)) (\<lambda>res'. Inr (r, res')))"
proof (induction n arbitrary: s res)
  case 0
  show ?case by (simp add: treeMembers.simps parseObject.simps)
next
  case (Suc n)
  show ?case
  proof (cases "parseKey s")
    case (Inr k)
    obtain key r1 where k: "k = (key, r1)" by (cases k)
    let ?res = "flagged (child_context no_context True key)"
    show ?thesis
    proof (cases "treeValue n depth r1")
      case (Inr v)
      obtain t r2 where v: "v = (t, r2)" by (cases v)
      let ?note = "note_root key (tree_info (len - length (skipWhitespace r1)) (len - length r2) t) (?res t res)"
      have noted: "map_sum id forget ?note = note_root key (tree_info 0 0 t) (?res t (forget res))"
        by (simp add: forget_note forget_flagged)
      show ?thesis
      proof (cases ?note)
        case (Inl e)
        then have n0: "note_root key (tree_info 0 0 t) (?res t (forget res)) = Inl MalformedRequest"
          using noted note_root_malformed [OF Inl] by simp
        have p: "parseObject (Suc n) len depth no_context True s res = Inl MalformedRequest"
          unfolding root_step \<open>parseKey s = Inr k\<close> k andThen_simps prod.case Inr v Inl using note_root_malformed [OF Inl] by simp
        have "root_fold ms (forget res) = Inl MalformedRequest" if members: "treeMembers (Suc n) depth s = Inr (ms, r)" for ms r
        proof -
          obtain rest where "ms = (key, t) # rest"
            using members \<open>parseKey s = Inr k\<close> k Inr v by (auto simp: treeMembers.simps(2) andThen_Inr split: if_splits)
          then show ?thesis using n0 by simp
        qed
        then show ?thesis using p by (auto split: sum.split)
      next
        case note_ok: (Inr res1)
        then have n1: "note_root key (tree_info 0 0 t) (?res t (forget res)) = Inr (forget res1)" using noted by simp
        have step: "parseObject (Suc n) len depth no_context True s res = andThen (separator (CHR ''}'') r2) (\<lambda>(end_here, r3).
            if end_here then Inr (r3, res1) else parseObject n len depth no_context True r3 res1)"
          unfolding root_step \<open>parseKey s = Inr k\<close> k andThen_simps prod.case Inr v note_ok note_types_none ..
        have tree: "treeMembers (Suc n) depth s = andThen (separator (CHR ''}'') r2) (\<lambda>(end_here, r3).
            if end_here then Inr ([(key, t)], r3) else andThen (treeMembers n depth r3) (\<lambda>(ms, r4). Inr ((key, t) # ms, r4)))"
          using \<open>parseKey s = Inr k\<close> k Inr v by (simp add: treeMembers.simps(2))
        show ?thesis
        proof (cases "separator (CHR ''}'') r2")
          case sep: (Inr x)
          obtain e r3 where x: "x = (e, r3)" by (cases x)
          show ?thesis
            using Suc.IH [of r3 res1] unfolding step tree sep x andThen_simps prod.case
            by (cases e; cases "treeMembers n depth r3") (auto simp: n1 andThen_assoc)
        qed (simp add: step tree)
      qed
    qed (use k \<open>parseKey s = Inr k\<close> in \<open>simp add: root_step treeMembers.simps(2)\<close>)
  qed (simp add: root_step treeMembers.simps(2))
qed

definition root_values :: "string \<Rightarrow> (string \<times> json_tree) list \<Rightarrow> json_tree list" where
  "root_values key ms = map snd (filter (\<lambda>m. fst m = key) ms)"

definition typed_root :: "(value_context \<Rightarrow> string \<Rightarrow> bool) \<Rightarrow> (string \<times> json_tree) list \<Rightarrow> bool" where
  "typed_root P ms \<longleftrightarrow> (\<exists>m \<in> set ms. typed P (child_context no_context True (fst m)) (snd m))"

definition is_model :: "json_tree \<Rightarrow> bool" where
  "is_model t = type_is (\<lambda>x. x \<noteq> []) t"

definition is_flag :: "json_tree \<Rightarrow> bool" where
  "is_flag t = (case t of TreeBool _ \<Rightarrow> True | _ \<Rightarrow> False)"

text \<open>What a request declares, read off the whole document and not from the contexts of the scan: its tools are
  the elements of a \<open>tools\<close> array of the request, its \<open>tool_choice\<close>, and the elements of a \<open>tools\<close> array of any object
  inside its \<open>input\<close>.\<close>

definition members :: "string \<Rightarrow> json_tree \<Rightarrow> json_tree list" where
  "members key t = (case t of TreeObject ms \<Rightarrow> root_values key ms | _ \<Rightarrow> [])"

definition elements :: "json_tree \<Rightarrow> json_tree list" where
  "elements t = (case t of TreeArray vs \<Rightarrow> vs | _ \<Rightarrow> [])"

definition has_type :: "string list \<Rightarrow> json_tree \<Rightarrow> bool" where
  "has_type names t \<longleftrightarrow> (\<exists>v \<in> set (members ''type'' t). type_is (\<lambda>x. x \<in> set names) v)"

fun subvalues :: "json_tree \<Rightarrow> json_tree list" where
  "subvalues (TreeObject ms) = TreeObject ms # concat (map (\<lambda>m. subvalues (snd m)) ms)"
| "subvalues (TreeArray vs) = TreeArray vs # concat (map subvalues vs)"
| "subvalues t = [t]"

definition tools_of :: "json_tree \<Rightarrow> json_tree list" where
  "tools_of t = concat (map elements (members ''tools'' t))"

definition input_values :: "(string \<times> json_tree) list \<Rightarrow> json_tree list" where
  "input_values ms = concat (map subvalues (root_values ''input'' ms))"

definition declared_tools :: "(string \<times> json_tree) list \<Rightarrow> json_tree list" where
  "declared_tools ms = tools_of (TreeObject ms) @ root_values ''tool_choice'' ms @ concat (map tools_of (input_values ms))"

definition declares_tool :: "string list \<Rightarrow> (string \<times> json_tree) list \<Rightarrow> bool" where
  "declares_tool names ms \<longleftrightarrow> list_ex (has_type names) (declared_tools ms)"

text \<open>What a request means: at most one model, a string that is not empty, at most one \<open>stream\<close>, a boolean, the
  hosted tools that it declares and the outputs of a computer in its input.\<close>

definition request_meaning :: "(string \<times> json_tree) list \<Rightarrow> (scan_failure, request_scan) result" where
  "request_meaning ms =
     (let models = root_values ''model'' ms; streams = root_values ''stream'' ms in
      if length models \<le> 1 \<and> length streams \<le> 1 \<and> list_all is_model models \<and> list_all is_flag streams then
        Inr \<lparr>sc_model = (case models of TreeString x # _ \<Rightarrow> x | _ \<Rightarrow> []), sc_modelSeen = (models \<noteq> []),
          sc_streamSeen = (streams \<noteq> []), sc_stream = (TreeBool True \<in> set streams), sc_streamStart = 0, sc_streamEnd = 0,
          sc_hostedImage = declares_tool [''image_generation'', ''image_gen''] ms,
          sc_hostedComputer = declares_tool [''computer'', ''computer_use_preview''] ms,
          sc_hostedComputerOutput = list_ex (has_type [''computer_call_output'']) (input_values ms)\<rparr>
      else Inl MalformedRequest)"

text \<open>The JSON object that the bytes are, as a document.\<close>

definition request_document :: "string \<Rightarrow> (scan_failure, (string \<times> json_tree) list) result" where
  "request_document raw =
     (case treeValue (scan_fuel raw) 0 raw of
        Inr (TreeObject ms, r) \<Rightarrow> if skipWhitespace r = [] then Inr ms else Inl MalformedRequest
      | _ \<Rightarrow> Inl MalformedRequest)"

lemma root_values_simps [simp]:
  "root_values key [] = []" "root_values key (m # ms) = (if fst m = key then snd m # root_values key ms else root_values key ms)"
  by (simp_all add: root_values_def)

lemma typed_root_simps [simp]:
  "typed_root P [] = False" "typed_root P (m # ms) = (typed P (child_context no_context True (fst m)) (snd m) \<or> typed_root P ms)"
  by (auto simp: typed_root_def)

lemma root_values_ex: "(\<exists>v \<in> set (root_values key ms). Q v) \<longleftrightarrow> (\<exists>m \<in> set ms. fst m = key \<and> Q (snd m))"
  by (induction ms) auto

lemma type_is_conj: "type_is (\<lambda>x. b \<and> Q x) t \<longleftrightarrow> b \<and> type_is Q t"
  by (cases t) (auto simp: type_is_def)

lemma has_type_object:
  "has_type names (TreeObject ms) \<longleftrightarrow> (\<exists>m \<in> set ms. fst m = ''type'' \<and> type_is (\<lambda>x. x \<in> set names) (snd m))"
  by (simp add: has_type_def members_def root_values_ex)

lemma has_type_plain [simp]:
  "\<not> has_type names (TreeArray vs)" "\<not> has_type names (TreeString x)" "\<not> has_type names (TreeBool b)" "\<not> has_type names TreeOther"
  by (simp_all add: has_type_def members_def)

lemma tools_of_object: "(\<exists>v \<in> set (tools_of (TreeObject ms)). Q v) \<longleftrightarrow> (\<exists>m \<in> set ms. fst m = ''tools'' \<and> (\<exists>v \<in> set (elements (snd m)). Q v))"
  by (simp add: tools_of_def members_def root_values_ex)

lemma tools_of_plain [simp]: "tools_of (TreeArray vs) = []" "tools_of (TreeString x) = []" "tools_of (TreeBool b) = []" "tools_of TreeOther = []"
  by (simp_all add: tools_of_def members_def)

lemma context_simps [simp]:
  "vc_inInput (child_context ctx root key) = (vc_inInput ctx \<or> root \<and> key = ''input'')"
  "vc_toolArray (child_context ctx root key) = (key = ''tools'' \<and> (root \<or> vc_inInput ctx))"
  "vc_toolEntry (child_context ctx root key) = (root \<and> key = ''tool_choice'')"
  "vc_inInput (element_context ctx) = vc_inInput ctx" "vc_toolArray (element_context ctx) = False"
  "vc_toolEntry (element_context ctx) = vc_toolArray ctx"
  "vc_inInput no_context = False" "vc_toolArray no_context = False" "vc_toolEntry no_context = False"
  by (simp_all add: child_context_def element_context_def no_context_def)

text \<open>The contexts carry what the document says: an entry, the elements of a tool array, or the tools of an
  object inside the input.\<close>

lemma typed_tools:
  "typed (\<lambda>c x. vc_toolEntry c \<and> x \<in> set names) ctx t \<longleftrightarrow>
     vc_toolEntry ctx \<and> has_type names t \<or> vc_toolArray ctx \<and> (\<exists>v \<in> set (elements t). has_type names v) \<or>
     vc_inInput ctx \<and> (\<exists>u \<in> set (subvalues t). \<exists>v \<in> set (tools_of u). has_type names v)"
proof (induction t arbitrary: ctx)
  case (TreeObject ms)
  have IH: "typed (\<lambda>c x. vc_toolEntry c \<and> x \<in> set names) (child_context ctx False (fst m)) (snd m) \<longleftrightarrow>
      vc_inInput ctx \<and> (fst m = ''tools'' \<and> (\<exists>v \<in> set (elements (snd m)). has_type names v) \<or>
        (\<exists>u \<in> set (subvalues (snd m)). \<exists>v \<in> set (tools_of u). has_type names v))" if "m \<in> set ms" for m
    using TreeObject [OF that, of "snd m" "child_context ctx False (fst m)"] by (auto simp: snds.simps)
  have here: "(\<exists>m \<in> set ms. fst m = ''type'' \<and> type_is (\<lambda>x. vc_toolEntry ctx \<and> x \<in> set names) (snd m)) \<longleftrightarrow>
      vc_toolEntry ctx \<and> has_type names (TreeObject ms)"
    by (auto simp: has_type_object type_is_conj)
  have "typed (\<lambda>c x. vc_toolEntry c \<and> x \<in> set names) ctx (TreeObject ms) \<longleftrightarrow>
      (\<exists>m \<in> set ms. typed (\<lambda>c x. vc_toolEntry c \<and> x \<in> set names) (child_context ctx False (fst m)) (snd m)) \<or>
      vc_toolEntry ctx \<and> has_type names (TreeObject ms)"
    unfolding here [symmetric] by auto
  also have "\<dots> \<longleftrightarrow> vc_toolEntry ctx \<and> has_type names (TreeObject ms) \<or>
      vc_inInput ctx \<and> (\<exists>u \<in> set (subvalues (TreeObject ms)). \<exists>v \<in> set (tools_of u). has_type names v)"
    by (auto simp: IH tools_of_object)
  finally show ?case by (simp add: elements_def)
next
  case (TreeArray vs)
  then show ?case by (auto simp: elements_def)
qed (simp_all add: elements_def)

lemma typed_inside:
  "typed (\<lambda>c x. vc_inInput c \<and> x \<in> set names) ctx t \<longleftrightarrow> vc_inInput ctx \<and> (\<exists>u \<in> set (subvalues t). has_type names u)"
proof (induction t arbitrary: ctx)
  case (TreeObject ms)
  have IH: "typed (\<lambda>c x. vc_inInput c \<and> x \<in> set names) (child_context ctx False (fst m)) (snd m) \<longleftrightarrow>
      vc_inInput ctx \<and> (\<exists>u \<in> set (subvalues (snd m)). has_type names u)" if "m \<in> set ms" for m
    using TreeObject [OF that, of "snd m" "child_context ctx False (fst m)"] by (auto simp: snds.simps)
  show ?case by (auto simp: IH has_type_object type_is_conj)
qed auto

lemma flag_contexts:
  "image_at = (\<lambda>c x. vc_toolEntry c \<and> x \<in> set [''image_generation'', ''image_gen''])"
  "computer_at = (\<lambda>c x. vc_toolEntry c \<and> x \<in> set [''computer'', ''computer_use_preview''])"
  "output_at = (\<lambda>c x. vc_inInput c \<and> x \<in> set [''computer_call_output''])"
  by (auto simp: fun_eq_iff image_at_def computer_at_def output_at_def image_types_def computer_types_def)

lemma input_values_ex: "(\<exists>u \<in> set (input_values ms). Q u) \<longleftrightarrow> (\<exists>m \<in> set ms. fst m = ''input'' \<and> (\<exists>u \<in> set (subvalues (snd m)). Q u))"
  by (simp add: input_values_def root_values_ex)

lemma typed_root_tools: "typed_root (\<lambda>c x. vc_toolEntry c \<and> x \<in> set names) ms = declares_tool names ms"
proof -
  have "declares_tool names ms \<longleftrightarrow> (\<exists>v \<in> set (tools_of (TreeObject ms)). has_type names v) \<or>
      (\<exists>v \<in> set (root_values ''tool_choice'' ms). has_type names v) \<or>
      (\<exists>u \<in> set (input_values ms). \<exists>v \<in> set (tools_of u). has_type names v)"
    by (simp add: declares_tool_def declared_tools_def list_ex_iff bex_Un)
  then show ?thesis
    unfolding typed_root_def typed_tools tools_of_object root_values_ex input_values_ex context_simps by blast
qed

lemma typed_root_inside:
  "typed_root (\<lambda>c x. vc_inInput c \<and> x \<in> set names) ms = list_ex (has_type names) (input_values ms)"
  by (simp add: typed_root_def typed_inside list_ex_iff input_values_ex)

lemmas typed_root_document =
  typed_root_tools [of "[''image_generation'', ''image_gen'']", folded flag_contexts]
  typed_root_tools [of "[''computer'', ''computer_use_preview'']", folded flag_contexts]
  typed_root_inside [of "[''computer_call_output'']", folded flag_contexts]

definition root_ok :: "request_scan \<Rightarrow> (string \<times> json_tree) list \<Rightarrow> bool" where
  "root_ok res ms \<longleftrightarrow> length (root_values ''model'' ms) + (if sc_modelSeen res then 1 else 0) \<le> 1 \<and>
     length (root_values ''stream'' ms) + (if sc_streamSeen res then 1 else 0) \<le> 1 \<and>
     list_all is_model (root_values ''model'' ms) \<and> list_all is_flag (root_values ''stream'' ms)"

definition root_result :: "request_scan \<Rightarrow> (string \<times> json_tree) list \<Rightarrow> request_scan" where
  "root_result res ms = raise_flags (typed_root image_at ms) (typed_root computer_at ms) (typed_root output_at ms)
     (res\<lparr>sc_model := (case root_values ''model'' ms of TreeString x # _ \<Rightarrow> x | _ \<Rightarrow> sc_model res),
          sc_modelSeen := (sc_modelSeen res \<or> root_values ''model'' ms \<noteq> []),
          sc_streamSeen := (sc_streamSeen res \<or> root_values ''stream'' ms \<noteq> []),
          sc_stream := (case root_values ''stream'' ms of TreeBool b # _ \<Rightarrow> b | _ \<Rightarrow> sc_stream res)\<rparr>)"

lemma forget_iff: "forget res = res \<longleftrightarrow> sc_streamStart res = 0 \<and> sc_streamEnd res = 0"
  by (cases res) (auto simp: forget_def)

lemma root_member_result:
  assumes "forget res = res" "note_root (fst m) (tree_info 0 0 (snd m)) (flagged (child_context no_context True (fst m)) (snd m) res) = Inr res1"
  shows "forget res1 = res1 \<and> root_ok res (m # ms) = root_ok res1 ms \<and> (root_ok res1 ms \<longrightarrow> root_result res (m # ms) = root_result res1 ms)"
proof -
  consider (model) x where "fst m = ''model''" "snd m = TreeString x" "x \<noteq> []" "\<not> sc_modelSeen res" "res1 = res\<lparr>sc_modelSeen := True, sc_model := x\<rparr>"
    | (stream) b where "fst m = ''stream''" "snd m = TreeBool b" "\<not> sc_streamSeen res"
        "res1 = res\<lparr>sc_streamSeen := True, sc_stream := b, sc_streamStart := 0, sc_streamEnd := 0\<rparr>"
    | (other) "fst m \<noteq> ''model''" "fst m \<noteq> ''stream''" "res1 = flagged (child_context no_context True (fst m)) (snd m) res"
    using assms(2) by (cases "snd m") (auto simp: note_root_def tree_info_def split: if_splits)
  then show ?thesis
  proof cases
    case model
    then show ?thesis using assms(1)
      by (cases res) (auto simp: forget_iff root_ok_def root_result_def raise_flags_def is_model_def type_is_def cong: list.case_cong json_tree.case_cong)
  next
    case stream
    then show ?thesis using assms(1)
      by (cases res) (auto simp: forget_iff root_ok_def root_result_def raise_flags_def is_flag_def cong: list.case_cong json_tree.case_cong)
  next
    case other
    have "forget res1 = res1" using assms(1) unfolding other(3) forget_iff by (simp add: flagged_def raise_flags_def)
    moreover have "root_ok res (m # ms) = root_ok res1 ms" using other by (simp add: root_ok_def flagged_def raise_flags_def)
    moreover have "root_result res (m # ms) = root_result res1 ms" using other(1,2) unfolding other(3)
      by (simp add: root_result_def flagged_def raise_flags_def disj_assoc cong: list.case_cong json_tree.case_cong)
    ultimately show ?thesis by blast
  qed
qed

lemma root_member_refused:
  assumes "note_root (fst m) (tree_info 0 0 (snd m)) (flagged (child_context no_context True (fst m)) (snd m) res) = Inl e"
  shows "\<not> root_ok res (m # ms) \<and> e = MalformedRequest"
  using assms
  by (cases "snd m") (auto simp: note_root_def tree_info_def flagged_def raise_flags_def root_ok_def is_model_def is_flag_def type_is_def split: if_splits)

lemma root_fold_result:
  "forget res = res \<Longrightarrow> root_fold ms res = (if root_ok res ms then Inr (root_result res ms) else Inl MalformedRequest)"
proof (induction ms arbitrary: res)
  case Nil
  then show ?case by (cases res) (simp add: root_ok_def root_result_def raise_flags_def)
next
  case (Cons m ms)
  let ?n = "note_root (fst m) (tree_info 0 0 (snd m)) (flagged (child_context no_context True (fst m)) (snd m) res)"
  show ?case
  proof (cases ?n)
    case (Inl e)
    then show ?thesis using root_member_refused [OF Inl] by simp
  next
    case (Inr res1)
    from root_member_result [OF Cons.prems Inr, of ms] Cons.IH [of res1] Inr show ?thesis by simp
  qed
qed

lemma root_fold_meaning: "root_fold ms empty_scan = request_meaning ms"
proof -
  let ?models = "root_values ''model'' ms" and ?streams = "root_values ''stream'' ms"
  have e: "sc_model empty_scan = []" "sc_stream empty_scan = False" "\<not> sc_modelSeen empty_scan" "\<not> sc_streamSeen empty_scan" "forget empty_scan = empty_scan"
    by (simp_all add: empty_scan_def forget_def)
  have ok: "root_ok empty_scan ms \<longleftrightarrow> length ?models \<le> 1 \<and> length ?streams \<le> 1 \<and> list_all is_model ?models \<and> list_all is_flag ?streams"
    by (simp add: root_ok_def e)
  have flag: "(case ?streams of TreeBool b # _ \<Rightarrow> b | _ \<Rightarrow> False) = (TreeBool True \<in> set ?streams)" if "root_ok empty_scan ms"
    using that unfolding ok by (cases ?streams; cases "hd ?streams") (auto simp: is_flag_def)
  have "root_result empty_scan ms = \<lparr>sc_model = (case ?models of TreeString x # _ \<Rightarrow> x | _ \<Rightarrow> []), sc_modelSeen = (?models \<noteq> []),
          sc_streamSeen = (?streams \<noteq> []), sc_stream = (TreeBool True \<in> set ?streams), sc_streamStart = 0, sc_streamEnd = 0,
          sc_hostedImage = typed_root image_at ms, sc_hostedComputer = typed_root computer_at ms,
          sc_hostedComputerOutput = typed_root output_at ms\<rparr>" if "root_ok empty_scan ms"
    using flag [OF that] unfolding root_result_def e by (simp add: raise_flags_def empty_scan_def)
  then show ?thesis using root_fold_result [OF e(5), of ms] unfolding request_meaning_def Let_def ok typed_root_document by simp
qed

lemma fuelled_malformed: "fuelled m \<Longrightarrow> m = Inl e \<Longrightarrow> e = MalformedRequest"
  by (cases e) (auto simp: fuelled_def)

lemma treeObject_opens: "treeValue (Suc n) depth s = Inr (TreeObject ms, r) \<Longrightarrow> peeks (\<lambda>c. c = CHR ''{'') (skipWhitespace s)"
  by (cases "skipWhitespace s") (auto simp: treeValue.simps(2) Let_def andThen_Inr peeks_def split: if_splits)

lemma meaning_refused: "request_meaning ms = Inl e \<Longrightarrow> e = MalformedRequest"
  by (auto simp: request_meaning_def Let_def split: if_splits)

lemma forget_empty [simp]: "forget empty_scan = empty_scan"
  by (simp add: forget_def empty_scan_def)

lemma scan_object:
  assumes "skipWhitespace raw = CHR ''{'' # t"
  shows "scanResponsesRequest raw = andThen (open_container (CHR ''{'') (CHR ''}'') 0 (CHR ''{'' # t)) (\<lambda>(empty, r).
      andThen (if empty then Inr (r, empty_scan) else parseObject (2 * length raw + 1) (length raw) 1 no_context True r empty_scan) (\<lambda>(r, res).
        if skipWhitespace r = [] then Inr res else Inl MalformedRequest))"
    and "request_document raw = andThen (open_container (CHR ''{'') (CHR ''}'') 0 (CHR ''{'' # t)) (\<lambda>(empty, r).
      case (if empty then Inr ([], r) else treeMembers (2 * length raw + 1) 1 r) of
        Inr (ms, r) \<Rightarrow> if skipWhitespace r = [] then Inr ms else Inl MalformedRequest
      | Inl _ \<Rightarrow> Inl MalformedRequest)"
proof -
  have fuel: "scan_fuel raw = Suc (2 * length raw + 1)" by (simp add: scan_fuel_def)
  have skip: "skipWhitespace (CHR ''{'' # t) = CHR ''{'' # t" using assms by (metis skip_idem)
  show "scanResponsesRequest raw = andThen (open_container (CHR ''{'') (CHR ''}'') 0 (CHR ''{'' # t)) (\<lambda>(empty, r).
      andThen (if empty then Inr (r, empty_scan) else parseObject (2 * length raw + 1) (length raw) 1 no_context True r empty_scan) (\<lambda>(r, res).
        if skipWhitespace r = [] then Inr res else Inl MalformedRequest))"
    unfolding scanResponsesRequest_def fuel parseValue.simps(2) Let_def assms skip
    by (simp add: peeks_def andThen_assoc andThen_if split_def cong: if_cong)
  show "request_document raw = andThen (open_container (CHR ''{'') (CHR ''}'') 0 (CHR ''{'' # t)) (\<lambda>(empty, r).
      case (if empty then Inr ([], r) else treeMembers (2 * length raw + 1) 1 r) of
        Inr (ms, r) \<Rightarrow> if skipWhitespace r = [] then Inr ms else Inl MalformedRequest
      | Inl _ \<Rightarrow> Inl MalformedRequest)"
  proof (cases "open_container (CHR ''{'') (CHR ''}'') 0 (CHR ''{'' # t)")
    case (Inl e)
    then have "e = MalformedRequest" using fuelled_malformed fuelled_container(1) by blast
    then show ?thesis using Inl by (simp add: request_document_def fuel treeValue.simps(2) assms)
  next
    case (Inr x)
    then show ?thesis
      by (cases x; cases "treeMembers (2 * length raw + 1) 1 (snd x)")
        (auto simp: request_document_def fuel treeValue.simps(2) assms Let_def split: if_splits)
  qed
qed

text \<open>C8: the one-pass scan of a request is the meaning of its document. \<open>scanResponsesRequest\<close> accepts exactly the
  bytes that are one JSON object of at most 512 levels with at most one model, a string that is not
  empty, and at most one \<open>stream\<close>, a boolean; and apart from the position of the flag its result is what
  the whole document says: the model, the flag, and whether a tool of the request, its tool choice or a
  tool of an object anywhere in its input is a hosted one, or an object in its input the output of a
  computer. The meaning is read off the finished document, without the contexts of the scan. It never
  stops for lack of fuel.\<close>

theorem scanResponsesRequest_meaning:
  "map_sum id forget (scanResponsesRequest raw) = andThen (request_document raw) request_meaning \<and> scanResponsesRequest raw \<noteq> Inl ScannerOutOfFuel"
proof -
  have "map_sum id forget (scanResponsesRequest raw) = andThen (request_document raw) request_meaning"
  proof (cases "peeks (\<lambda>c. c = CHR ''{'') (skipWhitespace raw)")
    case False
    then have "scanResponsesRequest raw = Inl MalformedRequest" by (simp add: scanResponsesRequest_def)
    moreover have "request_document raw = Inl MalformedRequest"
      using False treeObject_opens [of "2 * length raw + 1" 0 raw]
      by (auto simp: request_document_def scan_fuel_def split: sum.split json_tree.split)
    ultimately show ?thesis by simp
  next
    case True
    then obtain t where t: "skipWhitespace raw = CHR ''{'' # t" by (cases "skipWhitespace raw") (auto simp: peeks_def)
    show ?thesis
    proof (cases "open_container (CHR ''{'') (CHR ''}'') 0 (CHR ''{'' # t)")
      case (Inl e)
      then show ?thesis unfolding scan_object [OF t] by simp
    next
      case (Inr x)
      obtain empty r where x: "x = (empty, r)" by (cases x)
      have "length r < length raw" using container_shorter [OF Inr [unfolded x]] skip_length [of raw] t by simp
      then have fuel: "fuelled (treeMembers (2 * length raw + 1) 1 r)" using request_fuel_enough by simp
      show ?thesis
      proof (cases "empty \<or> isl (treeMembers (2 * length raw + 1) 1 r)")
        case True
        then show ?thesis
          unfolding scan_object [OF t] Inr x andThen_simps prod.case
          using root_scan [where n = "2 * length raw + 1" and depth = 1 and s = r and len = "length raw" and res = empty_scan] fuelled_malformed [OF fuel] root_fold_meaning [of "[]", symmetric]
          by (auto simp: isl_def)
      next
        case False
        then obtain ms r' where ms: "treeMembers (2 * length raw + 1) 1 r = Inr (ms, r')" "\<not> empty"
          by (cases "treeMembers (2 * length raw + 1) 1 r") auto
        let ?p = "parseObject (2 * length raw + 1) (length raw) 1 no_context True r empty_scan"
        have "map_sum id (map_prod id forget) ?p = andThen (request_meaning ms) (\<lambda>res'. Inr (r', res'))"
          using root_scan [where n = "2 * length raw + 1" and depth = 1 and s = r and len = "length raw" and res = empty_scan] ms(1) root_fold_meaning [of ms] by simp
        then show ?thesis
          unfolding scan_object [OF t] Inr x andThen_simps prod.case
          using ms by (cases ?p; cases "request_meaning ms") (auto dest: meaning_refused)
      qed
    qed
  qed
  moreover have "andThen (request_document raw) request_meaning \<noteq> Inl ScannerOutOfFuel"
    by (auto simp: andThen_def request_document_def request_meaning_def Let_def split: sum.splits json_tree.splits)
  ultimately show ?thesis by (metis id_apply map_sum.simps(1))
qed

section \<open>Rewriting the flag\<close>

definition reflag :: "bool \<Rightarrow> nat \<Rightarrow> request_scan \<Rightarrow> request_scan" where
  "reflag b stop res = res\<lparr>sc_stream := b, sc_streamEnd := stop\<rparr>"

definition same_flag :: "request_scan \<Rightarrow> request_scan \<Rightarrow> bool" where
  "same_flag res res' \<longleftrightarrow> sc_streamSeen res' = sc_streamSeen res \<and> sc_stream res' = sc_stream res \<and>
     sc_streamStart res' = sc_streamStart res \<and> sc_streamEnd res' = sc_streamEnd res"

lemma reflag_flagged: "reflag b e (flagged ctx t res) = flagged ctx t (reflag b e res)"
  by (simp add: reflag_def flagged_def raise_flags_def)

lemma same_flag_flagged [simp]: "same_flag res (flagged ctx t res)"
  by (simp add: same_flag_def flagged_def raise_flags_def)

lemma same_flag_trans: "same_flag a b \<Longrightarrow> same_flag b c \<Longrightarrow> same_flag a c"
  by (simp add: same_flag_def)

text \<open>A member other than \<open>stream\<close>, and every member once the flag is seen, is noted whatever the flag and the
  positions are.\<close>

lemma note_root_frame:
  assumes "note_root key (tree_info a1 a2 t) res = Inr res1" "sc_streamSeen res \<or> key \<noteq> ''stream''"
  shows "same_flag res res1 \<and> note_root key (tree_info b1 b2 t) (reflag b e res) = Inr (reflag b e res1) \<and>
    note_root key (tree_info b1 b2 t) res = Inr res1"
  using assms by (auto simp: note_root_def tree_info_def same_flag_def reflag_def split: if_splits)

lemmas top_step = root_step [where ctx = no_context, unfolded note_types_none]

lemma andThen_mono: "andThen m k = Inr y \<Longrightarrow> (\<And>x. m = Inr x \<Longrightarrow> k x = Inr y \<Longrightarrow> k' x = Inr y) \<Longrightarrow> andThen m k' = Inr y"
  by (cases m) auto

lemma root_frame:
  "parseObject n len depth no_context True s res = Inr (r, res') \<Longrightarrow> sc_streamSeen res \<Longrightarrow>
   same_flag res res' \<and> parseObject n len' depth no_context True s (reflag b e res) = Inr (r, reflag b e res')"
proof (induction n arbitrary: s res)
  case (Suc n)
  obtain key r1 t r2 res1 x r3 where p: "parseKey s = Inr (key, r1)" "treeValue n depth r1 = Inr (t, r2)"
      "note_root key (tree_info (len - length (skipWhitespace r1)) (len - length r2) t) (flagged (child_context no_context True key) t res) = Inr res1"
      "separator (CHR ''}'') r2 = Inr (x, r3)"
    and rest: "(if x then Inr (r3, res1) else parseObject n len depth no_context True r3 res1) = Inr (r, res')"
    using Suc.prems(1) unfolding top_step by (auto simp: andThen_Inr)
  let ?res = "flagged (child_context no_context True key) t"
  have seen: "sc_streamSeen (?res res)" using Suc.prems(2) same_flag_flagged by (metis same_flag_def)
  note f = note_root_frame [OF p(3) disjI1 [OF seen], where ?b1.0 = "len' - length (skipWhitespace r1)" and ?b2.0 = "len' - length r2" and b = b and e = e]
  have same: "same_flag res res1" using f same_flag_trans same_flag_flagged by blast
  then have "sc_streamSeen res1" using Suc.prems(2) by (simp add: same_flag_def)
  with Suc.IH [of r3 res1] rest same same_flag_trans
  have "same_flag res res' \<and> (if x then Inr (r3, reflag b e res1) else parseObject n len' depth no_context True r3 (reflag b e res1)) = Inr (r, reflag b e res')"
    by (cases x) auto
  then show ?case unfolding top_step using p f by (simp add: reflag_flagged)
qed (simp add: parseObject.simps)

lemma root_mono: "parseObject n len depth no_context True s res = Inr x \<Longrightarrow> parseObject (Suc n) len depth no_context True s res = Inr x"
proof (induction n arbitrary: s res)
  case (Suc n)
  note tree = tree_mono [THEN conjunct1, THEN spec, THEN mp]
  show ?case
    by (subst top_step, rule mono_pair [OF Suc.prems [unfolded top_step]], assumption)
      (erule mono_pair, erule tree, erule andThen_mono, erule mono_pair, assumption, erule mono_if, assumption, erule Suc.IH)
qed (simp add: parseObject.simps)

lemma treeValue_true:
  assumes "treeValue n depth s = Inr (TreeBool b, r)"
  obtains w where "s = w @ (if b then ''true'' else ''false'') @ r" "skipWhitespace s = (if b then ''true'' else ''false'') @ r"
    "\<And>b'. treeValue n depth (w @ (if b' then ''true'' else ''false'') @ r) = Inr (TreeBool b', r)"
    "\<And>b'. skipWhitespace (w @ (if b' then ''true'' else ''false'') @ r) = (if b' then ''true'' else ''false'') @ r"
proof -
  obtain m where n: "n = Suc m" using assms by (cases n) (auto simp: treeValue.simps)
  obtain c t where c: "skipWhitespace s = c # t" using assms by (cases "skipWhitespace s") (auto simp: n treeValue.simps)
  then have lit: "skipWhitespace s = (if b then ''true'' else ''false'') @ r"
    using assms by (auto simp: n treeValue.simps(2) Let_def andThen_Inr consumeLiteral_iff simp del: consumeLiteral.simps split: if_splits)
  define w where "w = takeWhile json_space s"
  have s: "s = w @ skipWhitespace s" by (simp add: w_def skipWhitespace_def)
  have skip: "skipWhitespace (w @ (if b' then ''true'' else ''false'') @ r) = (if b' then ''true'' else ''false'') @ r" for b'
  proof -
    have "skipWhitespace (w @ x # y) = x # y" if "\<not> json_space x" for x y
      using that set_takeWhileD [of _ json_space s] by (simp add: skipWhitespace_def w_def dropWhile_append2)
    then show ?thesis by (simp add: json_space_def)
  qed
  have tree: "treeValue n depth (w @ (if b' then ''true'' else ''false'') @ r) = Inr (TreeBool b', r)" for b'
    unfolding n treeValue.simps(2) Let_def skip by (simp add: expect_def)
  show thesis by (rule that [OF _ lit tree skip]) (use s lit in simp)
qed

lemma root_rewrite:
  assumes "parseObject n len depth no_context True s res = Inr (r, res')" "\<not> sc_streamSeen res" "\<not> sc_stream res" "sc_stream res'" "length s \<le> len"
  shows "\<exists>p q. p \<noteq> [] \<and> s = p @ ''true'' @ q \<and> sc_streamStart res' = len - length s + length p \<and> sc_streamEnd res' = sc_streamStart res' + 4 \<and>
    parseObject n (len + 1) depth no_context True (p @ ''false'' @ q) res = Inr (r, reflag False (sc_streamEnd res' + 1) res')"
  using assms
proof (induction n arbitrary: s res)
  case (Suc n)
  obtain key r1 t r2 res1 x r3 where p: "parseKey s = Inr (key, r1)" "treeValue n depth r1 = Inr (t, r2)"
      "note_root key (tree_info (len - length (skipWhitespace r1)) (len - length r2) t) (flagged (child_context no_context True key) t res) = Inr res1"
      "separator (CHR ''}'') r2 = Inr (x, r3)"
    and rest: "(if x then Inr (r3, res1) else parseObject n len depth no_context True r3 res1) = Inr (r, res')"
    using Suc.prems(1) unfolding top_step by (auto simp: andThen_Inr)
  let ?res = "flagged (child_context no_context True key) t res"
  obtain u where u: "u \<noteq> []" "s = u @ r1" "\<And>r'. parseKey (u @ r') = Inr (key, r')" using reads_exactlyE [OF parseKey_exact p(1)] by blast
  have plain: "\<not> sc_streamSeen ?res" "\<not> sc_stream ?res" using Suc.prems(2,3) same_flag_flagged by (metis same_flag_def)+
  show ?case
  proof (cases "key = ''stream''")
    case True
    then obtain b where b: "t = TreeBool b" "res1 = ?res\<lparr>sc_streamSeen := True, sc_stream := b, sc_streamStart := len - length (skipWhitespace r1), sc_streamEnd := len - length r2\<rparr>"
      using p(3) by (cases t) (auto simp: note_root_def tree_info_def split: if_splits)
    have seen: "sc_streamSeen res1" by (simp add: b)
    have after: "same_flag res1 res' \<and> (\<forall>b e. (if x then Inr (r3, reflag b e res1) else parseObject n (len + 1) depth no_context True r3 (reflag b e res1)) = Inr (r, reflag b e res'))"
      using rest root_frame [OF _ seen] by (cases x) (auto simp: same_flag_def)
    then have "b" using Suc.prems(4) by (simp add: same_flag_def b)
    obtain w where lit: "r1 = w @ (if b then ''true'' else ''false'') @ r2" "skipWhitespace r1 = (if b then ''true'' else ''false'') @ r2"
        "\<And>b'. treeValue n depth (w @ (if b' then ''true'' else ''false'') @ r2) = Inr (TreeBool b', r2)"
        "\<And>b'. skipWhitespace (w @ (if b' then ''true'' else ''false'') @ r2) = (if b' then ''true'' else ''false'') @ r2"
      using treeValue_true [OF p(2) [unfolded b(1)]] by blast
    have w: "r1 = w @ ''true'' @ r2" "skipWhitespace r1 = ''true'' @ r2" "treeValue n depth (w @ ''false'' @ r2) = Inr (TreeBool False, r2)"
        "skipWhitespace (w @ ''false'' @ r2) = ''false'' @ r2"
      using lit(1,2) \<open>b\<close> lit(3) [of False] lit(4) [of False] by simp_all
    have len: "len - length (skipWhitespace r1) = len - length s + length (u @ w)" "len - length r2 = len - length s + length (u @ w) + 4"
      "len + 1 - length (skipWhitespace (w @ ''false'' @ r2)) = len - length (skipWhitespace r1)" "len + 1 - length r2 = len - length r2 + 1"
      using Suc.prems(5) u(2) w(1,2,4) by auto
    have run: "parseObject (Suc n) (len + 1) depth no_context True (u @ w @ ''false'' @ r2) res = Inr (r, reflag False (len - length r2 + 1) res')"
    proof -
      have flag: "note_root key (tree_info (len - length (skipWhitespace r1)) (len - length r2 + 1) (TreeBool False))
          (flagged (child_context no_context True key) (TreeBool False) res) = Inr (reflag False (len - length r2 + 1) res1)"
        using plain(1) True by (simp add: note_root_def tree_info_def b reflag_def)
      show ?thesis
        unfolding top_step u(3) andThen_simps prod.case w(3) len(3,4) flag p(4) by (rule after [THEN conjunct2, rule_format])
    qed
    have "sc_streamStart res1 = len - length (skipWhitespace r1)" "sc_streamEnd res1 = len - length r2" by (simp_all add: b(2))
    with after have pos: "sc_streamStart res' = len - length (skipWhitespace r1)" "sc_streamEnd res' = len - length r2" unfolding same_flag_def by metis+
    show ?thesis
    proof (intro exI conjI)
      show "u @ w \<noteq> []" "s = (u @ w) @ ''true'' @ r2" using u(1,2) w(1) by simp_all
      show "sc_streamStart res' = len - length s + length (u @ w)" using pos(1) len(1) by simp
      show "sc_streamEnd res' = sc_streamStart res' + 4" using pos len(1,2) by simp
      show "parseObject (Suc n) (len + 1) depth no_context True ((u @ w) @ ''false'' @ r2) res = Inr (r, reflag False (sc_streamEnd res' + 1) res')"
        using run unfolding pos by simp
    qed
  next
    case False
    note f = note_root_frame [OF p(3) disjI2 [OF False]]
    have same: "same_flag ?res res1" using f by blast
    then have "\<not> x" using rest plain(2) Suc.prems(4) by (cases x) (auto simp: same_flag_def)
    then have loop: "parseObject n len depth no_context True r3 res1 = Inr (r, res')" using rest by simp
    obtain v where v: "v \<noteq> []" "r1 = v @ r2" "\<And>r'. same_head r2 r' \<Longrightarrow> treeValue n depth (v @ r') = Inr (t, r')"
      using looks_aheadE [OF treeValue_local p(2)] by blast
    obtain y where y: "y \<noteq> []" "r2 = y @ r3" "\<And>r'. same_head r3 r' \<Longrightarrow> separator (CHR ''}'') (y @ r') = Inr (x, r')"
      using separator_split [OF p(4)] by metis
    have len3: "length r3 \<le> len" using Suc.prems(5) u(2) v(2) y(2) by simp
    obtain p' q where ih: "p' \<noteq> []" "r3 = p' @ ''true'' @ q" "sc_streamStart res' = len - length r3 + length p'" "sc_streamEnd res' = sc_streamStart res' + 4"
        "parseObject n (len + 1) depth no_context True (p' @ ''false'' @ q) res1 = Inr (r, reflag False (sc_streamEnd res' + 1) res')"
      using Suc.IH [OF loop _ _ Suc.prems(4) len3] same plain by (auto simp: same_flag_def)
    have heads: "same_head r3 (p' @ ''false'' @ q)" "same_head r2 (y @ p' @ ''false'' @ q)"
      using ih(1,2) y(1,2) same_head_append by metis+
    have run: "parseObject (Suc n) (len + 1) depth no_context True (u @ v @ y @ p' @ ''false'' @ q) res = Inr (r, reflag False (sc_streamEnd res' + 1) res')"
      unfolding top_step u(3) andThen_simps prod.case v(3) [OF heads(2)] using f y(3) [OF heads(1)] \<open>\<not> x\<close> ih(5) by simp
    show ?thesis
    proof (intro exI conjI)
      show "u @ v @ y @ p' \<noteq> []" "s = (u @ v @ y @ p') @ ''true'' @ q" using ih(2) u(1,2) v(2) y(2) by simp_all
      then show "sc_streamStart res' = len - length s + length (u @ v @ y @ p')" using ih(2,3) Suc.prems(5) by simp
      show "parseObject (Suc n) (len + 1) depth no_context True ((u @ v @ y @ p') @ ''false'' @ q) res = Inr (r, reflag False (sc_streamEnd res' + 1) res')"
        using run by simp
    qed (rule ih(4))
  qed
qed (simp add: parseObject.simps)

text \<open>C3: the rewrite of a request changes exactly its flag. If the scan of a request finds \<open>stream\<close> set, then the
  bytes between the two positions it reports are the literal \<open>true\<close>, and with \<open>false\<close> in their place the
  request scans as before, with the flag cleared: the same model, the same tools, the same document
  around it.\<close>

theorem rewritten_request_scans:
  assumes "scanResponsesRequest raw = Inr scan" "sc_stream scan"
  shows "take (sc_streamEnd scan - sc_streamStart scan) (drop (sc_streamStart scan) raw) = ''true'' \<and>
    scanResponsesRequest (take (sc_streamStart scan) raw @ ''false'' @ drop (sc_streamEnd scan) raw) =
      Inr (scan\<lparr>sc_stream := False, sc_streamEnd := sc_streamStart scan + 5\<rparr>)"
proof -
  obtain t where t: "skipWhitespace raw = CHR ''{'' # t"
    using assms(1) by (cases "skipWhitespace raw") (auto simp: scanResponsesRequest_def peeks_def split: if_splits)
  obtain e r0 r where o: "open_container (CHR ''{'') (CHR ''}'') 0 (CHR ''{'' # t) = Inr (e, r0)"
      and run: "(if e then Inr (r0, empty_scan) else parseObject (2 * length raw + 1) (length raw) 1 no_context True r0 empty_scan) = Inr (r, scan)"
      and r: "skipWhitespace r = []"
    using assms(1) unfolding scan_object [OF t] by (auto simp: andThen_Inr split: if_splits)
  have e: "\<not> e" using run assms(2) by (auto simp: empty_scan_def)
  obtain u where u: "u \<noteq> []" "CHR ''{'' # t = u @ r0" "\<And>r'. same_head r0 r' \<Longrightarrow> open_container (CHR ''{'') (CHR ''}'') 0 (u @ r') = Inr (e, r')"
    using open_container_split [OF o] by metis
  obtain w where w: "raw = w @ CHR ''{'' # t" "\<And>r'. same_head (CHR ''{'' # t) r' \<Longrightarrow> skipWhitespace (w @ r') = r'"
    using skip_split [of raw] unfolding t by blast
  have raw: "raw = w @ u @ r0" using w(1) u(2) by simp
  obtain p q where pq: "p \<noteq> []" "r0 = p @ ''true'' @ q" "sc_streamStart scan = length raw - length r0 + length p" "sc_streamEnd scan = sc_streamStart scan + 4"
      "parseObject (2 * length raw + 1) (length raw + 1) 1 no_context True (p @ ''false'' @ q) empty_scan = Inr (r, reflag False (sc_streamEnd scan + 1) scan)"
    using root_rewrite [of "2 * length raw + 1" "length raw" 1 r0 empty_scan r scan] run e assms(2) raw by (auto simp: empty_scan_def)
  have start: "sc_streamStart scan = length (w @ u @ p)" using pq(2,3) raw by simp
  then have pieces: "take (sc_streamStart scan) raw = w @ u @ p" "drop (sc_streamStart scan) raw = ''true'' @ q" "drop (sc_streamEnd scan) raw = q"
    using pq(2,4) raw by simp_all
  obtain u' where u': "u = CHR ''{'' # u'" using u(1,2) by (cases u) auto
  let ?raw = "w @ u @ p @ ''false'' @ q"
  have t': "skipWhitespace ?raw = CHR ''{'' # u' @ p @ ''false'' @ q" using w(2) [of "u @ p @ ''false'' @ q"] u' by (simp add: same_head_def)
  have "open_container (CHR ''{'') (CHR ''}'') 0 (CHR ''{'' # u' @ p @ ''false'' @ q) = Inr (False, p @ ''false'' @ q)"
    using u(3) [of "p @ ''false'' @ q"] pq(1,2) u' e same_head_append by simp
  moreover have "parseObject (2 * length ?raw + 1) (length ?raw) 1 no_context True (p @ ''false'' @ q) empty_scan = Inr (r, reflag False (sc_streamEnd scan + 1) scan)"
    using root_mono [OF root_mono [OF pq(5)]] raw pq(2) by simp
  ultimately have "scanResponsesRequest ?raw = Inr (reflag False (sc_streamEnd scan + 1) scan)"
    unfolding scan_object [OF t'] using r by simp
  then show ?thesis using pieces pq(4) by (simp add: reflag_def)
qed

theorem rewritten_request_scans_witness:
  \<open>let raw = ''{"model":"m", "stream" : true, "n":[1]}''
   in scanResponsesRequest raw = Inr (empty_scan\<lparr>sc_model := ''m'', sc_modelSeen := True, sc_streamSeen := True, sc_stream := True,
        sc_streamStart := 25, sc_streamEnd := 29\<rparr>) \<and>
      scanResponsesRequest ''{"model":"m", "stream" : false, "n":[1]}'' =
        Inr (empty_scan\<lparr>sc_model := ''m'', sc_modelSeen := True, sc_streamSeen := True, sc_streamStart := 25, sc_streamEnd := 30\<rparr>)\<close>
proof -
  let ?raw = \<open>''{"model":"m", "stream" : true, "n":[1]}''\<close>
  let ?scan = "empty_scan\<lparr>sc_model := ''m'', sc_modelSeen := True, sc_streamSeen := True, sc_stream := True, sc_streamStart := 25, sc_streamEnd := 29\<rparr>"
  have "scanResponsesRequest ?raw = Inr ?scan" by code_simp
  moreover from rewritten_request_scans [OF this] have
    \<open>scanResponsesRequest ''{"model":"m", "stream" : false, "n":[1]}'' = Inr (?scan\<lparr>sc_stream := False, sc_streamEnd := 30\<rparr>)\<close>
    by simp
  ultimately show ?thesis by (simp add: empty_scan_def)
qed

end
