(* ===== verification/Responses_Storage.thy ===== *)
theory Responses_Storage
  imports Go_Strings
begin

text \<open>
  Bounded storage of message bodies (\<open>responses/storage.go\<close>, the errors and limits of \<open>types.go\<close>): a writer
  that keeps up to a threshold in memory and spills into an unlinked file above it, the loops that
  fill it, and the reader that gives its memory back as soon as the last byte is read. What the
  operating system does is an argument: each event says what one \<open>Read\<close> of the source delivers and how
  a write to the spool file ends. Sizes are integers; the writer never adds beyond its limit, so no
  64-bit sum can overflow.
\<close>

datatype responses_error =
    ErrInvalidLimits
  | ErrUnsupportedContentEncoding
  | ErrEncodedBodyTooLarge
  | ErrDecodedBodyTooLarge
  | ErrMalformedRequest
  | ErrResponseBodyTooLarge
  | ErrInvalidResponse
  | ErrHostedComputerOutput
  | ErrSpool
  | ErrSourceRead
  | ErrCancelled
  | ErrNoProgress
  | ErrClosedPipe
  | ErrUnexpectedEOF

record responses_limits =
  rl_MaxEncodedBytes :: int
  rl_MaxDecodedBytes :: int
  rl_MemoryThreshold :: int
  rl_ZstdMaxWindowBytes :: int
  rl_MaxResponseBytes :: int
  rl_MaxOutputItems :: int

definition DefaultLimits :: responses_limits where
  "DefaultLimits = \<lparr>rl_MaxEncodedBytes = 32 * 1048576, rl_MaxDecodedBytes = 256 * 1048576, rl_MemoryThreshold = 1048576,
     rl_ZstdMaxWindowBytes = 8 * 1048576, rl_MaxResponseBytes = 32 * 1048576, rl_MaxOutputItems = 10000\<rparr>"

definition limits_validate :: "responses_limits \<Rightarrow> (responses_error, unit) result" where
  "limits_validate l =
     (if rl_MaxEncodedBytes l \<le> 0 \<or> rl_MaxDecodedBytes l \<le> 0 \<or> rl_MemoryThreshold l \<le> 0 \<or> rl_ZstdMaxWindowBytes l = 0 \<or>
         rl_MaxResponseBytes l \<le> 0 \<or> rl_MaxOutputItems l \<le> 0 then Inl ErrInvalidLimits else Inr ())"

section \<open>The writer\<close>

record storage =
  stg_memory :: string
  stg_file :: "string option"
  stg_size :: int
  stg_spilled :: bool

record storage_writer =
  wr_limit :: int
  wr_threshold :: int
  wr_limitError :: responses_error
  wr_memory :: string
  wr_file :: "string option"
  wr_size :: int
  wr_spilled :: bool

definition new_writer :: "int \<Rightarrow> int \<Rightarrow> responses_error \<Rightarrow> storage_writer" where
  "new_writer limit threshold err = \<lparr>wr_limit = limit, wr_threshold = threshold, wr_limitError = err, wr_memory = [], wr_file = None,
     wr_size = 0, wr_spilled = False\<rparr>"

text \<open>\<open>wo_spill\<close>: the file is created, protected, unlinked and seeded; \<open>wo_short\<close>: after how many bytes a write
  to it fails.\<close>

record write_io =
  wo_spill :: bool
  wo_short :: "nat option"

definition spill :: "write_io \<Rightarrow> storage_writer \<Rightarrow> (responses_error, storage_writer) result" where
  "spill io w = (if wo_spill io then Inr (w\<lparr>wr_memory := [], wr_file := Some (wr_memory w), wr_spilled := True\<rparr>) else Inl ErrSpool)"

definition storage_Write :: "write_io \<Rightarrow> storage_writer \<Rightarrow> string \<Rightarrow> storage_writer \<times> (responses_error, unit) result" where
  "storage_Write io w data =
     (if int (length data) > wr_limit w - wr_size w then (w, Inl (wr_limitError w))
      else (case (if wr_file w = None \<and> wr_size w + int (length data) > wr_threshold w then spill io w else Inr w) of
        Inl e \<Rightarrow> (w, Inl e)
      | Inr w1 \<Rightarrow>
          (case wr_file w1 of
             None \<Rightarrow> (w1\<lparr>wr_memory := wr_memory w1 @ data, wr_size := wr_size w1 + int (length data)\<rparr>, Inr ())
           | Some f \<Rightarrow>
               (case wo_short io of
                  None \<Rightarrow> (w1\<lparr>wr_file := Some (f @ data), wr_size := wr_size w1 + int (length data)\<rparr>, Inr ())
                | Some k \<Rightarrow> (w1\<lparr>wr_file := Some (f @ take k data), wr_size := wr_size w1 + int (length (take k data))\<rparr>, Inl ErrSpool)))))"

definition finish :: "storage_writer \<Rightarrow> storage" where
  "finish w = (case wr_file w of
      Some f \<Rightarrow> \<lparr>stg_memory = [], stg_file = Some f, stg_size = wr_size w, stg_spilled = True\<rparr>
    | None \<Rightarrow> \<lparr>stg_memory = wr_memory w, stg_file = None, stg_size = wr_size w, stg_spilled = False\<rparr>)"

text \<open>The bytes that \<open>reader\<close> and \<open>takeReader\<close> deliver.\<close>

definition contents :: "storage \<Rightarrow> string" where
  "contents st = (case stg_file st of Some f \<Rightarrow> f | None \<Rightarrow> stg_memory st)"

definition written :: "storage_writer \<Rightarrow> string" where
  "written w = (case wr_file w of Some f \<Rightarrow> f | None \<Rightarrow> wr_memory w)"

section \<open>Filling a storage\<close>

datatype read_end = ReadMore | ReadEOF | ReadFailed

text \<open>One pass of a read loop: whether the context is done, and what \<open>Read\<close> returns.\<close>

record read_event =
  re_cancelled :: bool
  re_data :: string
  re_end :: read_end
  re_write :: write_io

fun readLoop :: "storage_writer \<Rightarrow> read_event list \<Rightarrow> (responses_error, storage) result option" where
  "readLoop w [] = None"
| "readLoop w (ev # evs) =
     (if re_cancelled ev then Some (Inl ErrCancelled)
      else (case (if re_data ev = [] then (w, Inr ()) else storage_Write (re_write ev) w (re_data ev)) of
        (w', Inl e) \<Rightarrow> Some (Inl e)
      | (w', Inr _) \<Rightarrow>
          (case re_end ev of
             ReadEOF \<Rightarrow> Some (Inr (finish w'))
           | ReadFailed \<Rightarrow> Some (Inl ErrSourceRead)
           | ReadMore \<Rightarrow> if re_data ev = [] then Some (Inl ErrNoProgress) else readLoop w' evs)))"

text \<open>\<open>None\<close>: the events end while the source is still open.\<close>

definition readStorage :: "read_event list \<Rightarrow> int \<Rightarrow> int \<Rightarrow> responses_error \<Rightarrow> (responses_error, storage) result option" where
  "readStorage evs limit threshold err = readLoop (new_writer limit threshold err) evs"

text \<open>The copy of a range in blocks of 32 KiB; an event gives the context and the write of one block.\<close>

function copyLoop :: "storage_writer \<Rightarrow> string \<Rightarrow> int \<Rightarrow> (bool \<times> write_io) list \<Rightarrow> (storage_writer \<times> (responses_error, unit) result) option" where
  "copyLoop w source remaining ios =
     (if remaining \<le> 0 then Some (w, Inr ())
      else (case ios of
        [] \<Rightarrow> None
      | (cancelled, io) # ios' \<Rightarrow>
          if cancelled then Some (w, Inl ErrCancelled)
          else let block = take (nat (min remaining 32768)) source in
            (case (if block = [] then (w, Inr ()) else storage_Write io w block) of
               (w', Inl e) \<Rightarrow> Some (w', Inl e)
             | (w', Inr _) \<Rightarrow>
                 if int (length block) < min remaining 32768 then Some (w', Inl ErrUnexpectedEOF)
                 else copyLoop w' (drop (length block) source) (remaining - int (length block)) ios')))"
  by pat_completeness auto
termination by (relation "measure (\<lambda>(w, source, remaining, ios). length ios)") auto

declare copyLoop.simps [simp del]

definition copyStorageRange ::
  "bool \<Rightarrow> storage_writer \<Rightarrow> storage \<Rightarrow> int \<Rightarrow> int \<Rightarrow> (bool \<times> write_io) list \<Rightarrow> (storage_writer \<times> (responses_error, unit) result) option" where
  "copyStorageRange seeks w source offset len ios =
     (if stg_file source \<noteq> None \<and> \<not> seeks then Some (w, Inl ErrSpool)
      else copyLoop w (drop (nat offset) (contents source)) len ios)"

section \<open>The reader of a body kept in memory\<close>

record memory_reader =
  mr_data :: string
  mr_offset :: nat
  mr_exhausted :: bool
  mr_closed :: bool

datatype read_result = ReadBytes string | ReadAtEOF | ReadClosed

definition newMemoryReadCloser :: "string \<Rightarrow> memory_reader" where
  "newMemoryReadCloser data = \<lparr>mr_data = data, mr_offset = 0, mr_exhausted = (data = []), mr_closed = False\<rparr>"

definition releaseBackingLocked :: "memory_reader \<Rightarrow> memory_reader" where
  "releaseBackingLocked r = r\<lparr>mr_data := [], mr_offset := 0\<rparr>"

definition memory_Read :: "nat \<Rightarrow> memory_reader \<Rightarrow> memory_reader \<times> read_result" where
  "memory_Read len r =
     (if mr_closed r then (r, ReadClosed)
      else if mr_exhausted r then (r, ReadAtEOF)
      else if len = 0 then (r, ReadBytes [])
      else let piece = take len (drop (mr_offset r) (mr_data r)); r1 = r\<lparr>mr_offset := mr_offset r + length piece\<rparr> in
        ((if mr_offset r1 = length (mr_data r1) then (releaseBackingLocked r1)\<lparr>mr_exhausted := True\<rparr> else r1), ReadBytes piece))"

definition memory_Close :: "memory_reader \<Rightarrow> memory_reader" where
  "memory_Close r = (releaseBackingLocked r)\<lparr>mr_exhausted := True, mr_closed := True\<rparr>"

definition retainedBytes :: "memory_reader \<Rightarrow> nat" where
  "retainedBytes r = length (mr_data r)"

text \<open>Every order of calls, each of which runs under the reader's mutex, with the bytes delivered so far.\<close>

inductive memory_run :: "string \<Rightarrow> memory_reader \<Rightarrow> string \<Rightarrow> bool" for data where
  start: "memory_run data (newMemoryReadCloser data) []"
| read: "memory_run data r out \<Longrightarrow> memory_Read len r = (r', ReadBytes piece) \<Longrightarrow> memory_run data r' (out @ piece)"
| idle: "memory_run data r out \<Longrightarrow> memory_Read len r = (r', ReadAtEOF) \<or> memory_Read len r = (r', ReadClosed) \<Longrightarrow> memory_run data r' out"
| close: "memory_run data r out \<Longrightarrow> memory_run data (memory_Close r) out"

section \<open>What the writer keeps\<close>

definition writer_ok :: "storage_writer \<Rightarrow> string \<Rightarrow> bool" where
  "writer_ok w s \<longleftrightarrow> written w = s \<and> wr_size w = int (length s) \<and> wr_size w \<le> wr_limit w \<and>
     (wr_file w \<noteq> None \<longleftrightarrow> wr_size w > wr_threshold w) \<and> wr_spilled w = (wr_file w \<noteq> None)"

lemma new_writer_ok: "0 \<le> limit \<Longrightarrow> 0 \<le> threshold \<Longrightarrow> writer_ok (new_writer limit threshold err) []"
  by (simp add: writer_ok_def new_writer_def written_def)

lemma Write_ok:
  assumes "storage_Write io w data = (w', Inr ())" "writer_ok w s"
  shows "writer_ok w' (s @ data) \<and> wr_limit w' = wr_limit w \<and> wr_threshold w' = wr_threshold w"
  using assms
  by (auto simp: storage_Write_def writer_ok_def written_def spill_def split: if_splits option.splits sum.splits)

text \<open>A failed write leaves no more than the limit, too, and exceeding the limit is reported as such.\<close>

lemma Write_refused:
  assumes "storage_Write io w data = (w', Inl e)" "writer_ok w s"
  shows "wr_size w' \<le> wr_limit w \<and> (e = wr_limitError w \<and> int (length (s @ data)) > wr_limit w \<or> e = ErrSpool \<and> (\<not> wo_spill io \<or> wo_short io \<noteq> None))"
  using assms
  by (auto simp: storage_Write_def writer_ok_def spill_def split: if_splits option.splits)

lemma finish_contents: "writer_ok w s \<Longrightarrow> contents (finish w) = s \<and> stg_size (finish w) = int (length s) \<and> stg_spilled (finish w) = (int (length s) > wr_threshold w)"
  by (auto simp: writer_ok_def finish_def contents_def written_def split: option.splits)

text \<open>The bytes of the source up to its end.\<close>

fun source_bytes :: "read_event list \<Rightarrow> string" where
  "source_bytes [] = []"
| "source_bytes (ev # evs) = re_data ev @ (if re_end ev = ReadMore then source_bytes evs else [])"

lemma readLoop_stored:
  assumes "readLoop w evs = Some (Inr st)" "writer_ok w s"
  shows "contents st = s @ source_bytes evs \<and> stg_size st = int (length (contents st)) \<and> stg_size st \<le> wr_limit w \<and>
    (stg_spilled st \<longleftrightarrow> stg_size st > wr_threshold w)"
  using assms
proof (induction w evs arbitrary: s rule: readLoop.induct)
  case (2 w ev evs)
  obtain w' where w': "(if re_data ev = [] then (w, Inr ()) else storage_Write (re_write ev) w (re_data ev)) = (w', Inr ())" "\<not> re_cancelled ev"
    using "2.prems"(1) by (auto split: if_splits prod.splits sum.splits)
  have ok: "writer_ok w' (s @ re_data ev)" "wr_limit w' = wr_limit w" "wr_threshold w' = wr_threshold w"
    using w'(1) "2.prems"(2) Write_ok by (auto split: if_splits)
  show ?case
  proof (cases "re_end ev")
    case ReadMore
    then have "readLoop w' evs = Some (Inr st)" "re_data ev \<noteq> []" using "2.prems"(1) w' by (auto split: if_splits)
    from "2.IH" [OF w'(2) w'(1) [symmetric] refl ReadMore this(2,1) ok(1)] ok(2,3) ReadMore show ?thesis by auto
  next
    case ReadEOF
    then have "st = finish w'" using "2.prems"(1) w' by simp
    then show ?thesis using finish_contents [OF ok(1)] ok ReadEOF by (simp add: writer_ok_def)
  qed (use "2.prems"(1) w' in simp)
qed simp

section \<open>The memory is given back\<close>

lemma memory_reader_exact:
  "memory_run data r out \<Longrightarrow>
   (\<not> mr_closed r \<longrightarrow> (if mr_exhausted r then out = data else out = take (mr_offset r) data \<and> mr_data r = data \<and> mr_offset r < length data)) \<and>
   (\<exists>rest. data = out @ rest) \<and> (mr_exhausted r \<longrightarrow> mr_data r = []) \<and> (mr_closed r \<longrightarrow> mr_exhausted r)"
proof (induction rule: memory_run.induct)
  case start
  then show ?case by (simp add: newMemoryReadCloser_def)
next
  case (read r out len r' piece)
  show ?case
  proof (cases "len = 0")
    case True
    then have "r' = r" "piece = []" using read.hyps(2) by (auto simp: memory_Read_def split: if_splits)
    then show ?thesis using read.IH by simp
  next
    case False
    then have r: "\<not> mr_closed r" "\<not> mr_exhausted r" "piece = take len (drop (mr_offset r) (mr_data r))"
      using read.hyps(2) by (auto simp: memory_Read_def Let_def split: if_splits)
    with read.IH have out: "out = take (mr_offset r) data" "mr_data r = data" "mr_offset r < length data" by simp_all
    let ?n = "mr_offset r + length piece"
    have piece: "out @ piece = take ?n data" "?n \<le> length data" using r(3) out by (auto simp: take_add min_def)
    have r': "r' = (if ?n = length data then (releaseBackingLocked (r\<lparr>mr_offset := ?n\<rparr>))\<lparr>mr_exhausted := True\<rparr> else r\<lparr>mr_offset := ?n\<rparr>)"
      using read.hyps(2) r False out(2) by (auto simp: memory_Read_def Let_def)
    have rest: "\<exists>rest. data = (out @ piece) @ rest" unfolding piece(1) by (metis append_take_drop_id)
    show ?thesis
    proof (cases "?n = length data")
      case True
      then show ?thesis using r' piece(1) r(1) rest by (simp add: releaseBackingLocked_def)
    next
      case False
      then show ?thesis using r' piece r(1,2) out(2) rest by (simp add: le_neq_implies_less)
    qed
  qed
next
  case (idle r out len r')
  have "r' = r" using idle.hyps(2) by (auto simp: memory_Read_def Let_def split: if_splits)
  then show ?case using idle.IH by simp
next
  case (close r out)
  then show ?case by (simp add: memory_Close_def releaseBackingLocked_def)
qed

end
